(* ===== verification/Cxx_Prelude.thy ===== *)
theory Cxx_Prelude
  imports Main "HOL-Library.Word"
begin

text \<open>
  Shared vocabulary of the development: the undefined behaviours of C++ that the sources can
  run into, the result type of an operation that may hit one, Int32 arithmetic with its
  overflow, bounded arrays with \<^verbatim>\<open>memcpy\<close>, and the constants of
  \<^verbatim>\<open>src/src/lib-core/include/core/Types.hpp\<close>. Everything here is used by several components.
\<close>

section \<open>Undefined behaviour as a value\<close>

text \<open>
  An operation of the sources that can leave defined C++ returns \<open>ub + 'a\<close>: \<open>Inl\<close> says which
  rule was broken, \<open>Inr\<close> carries the result. A theorem that an operation is safe is a theorem
  that it returns \<open>Inr\<close>.
\<close>

datatype ub = OutOfBounds | SignedOverflow | EmptyContainer | NullDeref | Uninitialised | AssertionFailed | UnlockNotOwner | DestroyLocked

type_synonym 'a cxx = "ub + 'a"

definition bindr :: "'e + 'a \<Rightarrow> ('a \<Rightarrow> 'e + 'b) \<Rightarrow> 'e + 'b" where
  "bindr r f = (case r of Inl e \<Rightarrow> Inl e | Inr x \<Rightarrow> f x)"

lemma bindr_simps [simp]:
  "bindr (Inl e) f = Inl e"
  "bindr (Inr x) f = f x"
  by (simp_all add: bindr_def)

lemma bindr_Inr_iff: "bindr r f = Inr y \<longleftrightarrow> (\<exists>x. r = Inr x \<and> f x = Inr y)"
  by (cases r) auto

lemma bindr_Inl_iff: "bindr r f = Inl e \<longleftrightarrow> r = Inl e \<or> (\<exists>x. r = Inr x \<and> f x = Inl e)"
  by (cases r) auto

section \<open>Pointers\<close>

text \<open>A pointer member: never assigned, null, or pointing to an object.\<close>

datatype 'a ptr = Garbage | Null | Ptr 'a

fun deref :: "'a ptr \<Rightarrow> 'a cxx" where
  "deref Garbage = Inl Uninitialised"
| "deref Null = Inl NullDeref"
| "deref (Ptr x) = Inr x"

section \<open>Types of the core library\<close>

type_synonym Byte = "8 word"
type_synonym UInt16 = "16 word"
type_synonym Int64 = "64 word"
type_synonym SessionID = "64 word"
type_synonym SocketFD = int

definition sINVALID_SOCKET_FD :: SocketFD where
  "sINVALID_SOCKET_FD = -1"

definition sINVALID_ID :: int where
  "sINVALID_ID = -1"

section \<open>Int32 arithmetic\<close>

text \<open>
  An Int32 is an \<open>int\<close>; signed overflow is undefined in C++, so an addition that stores its
  result is checked. The quotient of C++ truncates towards zero and the
  remainder has the sign of the dividend.
\<close>

definition in_int32 :: "int \<Rightarrow> bool" where
  "in_int32 k \<longleftrightarrow> - (2 ^ 31) \<le> k \<and> k < 2 ^ 31"

definition add32 :: "int \<Rightarrow> int \<Rightarrow> int cxx" where
  "add32 a b = (if in_int32 (a + b) then Inr (a + b) else Inl SignedOverflow)"

definition crem :: "int \<Rightarrow> int \<Rightarrow> int" where
  "crem a b = sgn a * (\<bar>a\<bar> mod \<bar>b\<bar>)"

definition cdiv :: "int \<Rightarrow> int \<Rightarrow> int" where
  "cdiv a b = sgn a * sgn b * (\<bar>a\<bar> div \<bar>b\<bar>)"

lemma add32_in_range [simp]: "in_int32 (a + b) \<Longrightarrow> add32 a b = Inr (a + b)"
  by (simp add: add32_def)

lemma crem_nonneg [simp]: "0 \<le> a \<Longrightarrow> 0 < b \<Longrightarrow> crem a b = a mod b"
  by (cases "a = 0") (simp_all add: crem_def)

text \<open>
  Conversion of an Int32 to size_t (64 bits): a negative value becomes a huge one.
\<close>

definition to_size_t :: "int \<Rightarrow> int" where
  "to_size_t k = k mod 2 ^ 64"

lemma to_size_t_id [simp]: "0 \<le> k \<Longrightarrow> k < 2 ^ 64 \<Longrightarrow> to_size_t k = k"
  by (simp add: to_size_t_def)

text \<open>
  Conversion to Int32 keeps the low 32 bits, read in two's complement.
\<close>

definition to_int32 :: "int \<Rightarrow> int" where
  "to_int32 k = (k + 2 ^ 31) mod 2 ^ 32 - 2 ^ 31"

lemma to_int32_id: "in_int32 k \<Longrightarrow> to_int32 k = k"
  by (simp add: to_int32_def in_int32_def)

lemma to_int32_range: "in_int32 (to_int32 k)"
proof -
  have "0 \<le> (k + 2 ^ 31) mod 2 ^ 32" and "(k + 2 ^ 31) mod 2 ^ 32 < (2 ^ 32 :: int)"
    by simp_all
  then show ?thesis
    by (simp add: to_int32_def in_int32_def)
qed

section \<open>Bounded arrays and memcpy\<close>

text \<open>
  A fixed array is a function from indices to bytes together with its length; every access is
  checked against the length. \<open>memcpy_in\<close> copies \<open>n\<close> bytes of a caller's block, from position
  \<open>soff\<close> of it, to position \<open>off\<close> of the array; \<open>memcpy_out\<close> copies the other way.
\<close>

type_synonym arr = "int \<Rightarrow> Byte"

definition memcpy_in :: "int \<Rightarrow> arr \<Rightarrow> int \<Rightarrow> Byte list \<Rightarrow> int \<Rightarrow> int \<Rightarrow> arr cxx" where
  "memcpy_in len m off src soff n =
     (if n < 0 \<or> off < 0 \<or> len < off + n \<or> soff < 0 \<or> int (length src) < soff + n
      then Inl OutOfBounds
      else Inr (\<lambda>k. if off \<le> k \<and> k < off + n then src ! nat (soff + (k - off)) else m k))"

definition bytes_at :: "arr \<Rightarrow> int \<Rightarrow> int \<Rightarrow> Byte list" where
  "bytes_at m off n = map (\<lambda>i. m (off + int i)) [0..<nat n]"

definition memcpy_out :: "int \<Rightarrow> Byte list \<Rightarrow> int \<Rightarrow> arr \<Rightarrow> int \<Rightarrow> int \<Rightarrow> Byte list cxx" where
  "memcpy_out len dst doff m off n =
     (if n < 0 \<or> off < 0 \<or> len < off + n \<or> doff < 0 \<or> int (length dst) < doff + n
      then Inl OutOfBounds
      else Inr (take (nat doff) dst @ bytes_at m off n @ drop (nat (doff + n)) dst))"

lemma length_bytes_at [simp]: "length (bytes_at m off n) = nat n"
  by (simp add: bytes_at_def)

lemma nth_bytes_at [simp]: "i < nat n \<Longrightarrow> bytes_at m off n ! i = m (off + int i)"
  by (simp add: bytes_at_def)

lemma bytes_at_0 [simp]: "n \<le> 0 \<Longrightarrow> bytes_at m off n = []"
  by (simp add: bytes_at_def)

lemma bytes_at_cong:
  assumes "\<And>k. off \<le> k \<Longrightarrow> k < off + n \<Longrightarrow> m k = m' k"
  shows "bytes_at m off n = bytes_at m' off n"
  using assms by (auto simp: bytes_at_def)

lemma bytes_at_append:
  assumes "0 \<le> a" and "0 \<le> b"
  shows "bytes_at m off (a + b) = bytes_at m off a @ bytes_at m (off + a) b"
  using assms by (intro nth_equalityI) (auto simp: nth_append nat_add_distrib)

lemma take_bytes_at: "take k (bytes_at m off n) = bytes_at m off (min (int k) n)"
  by (rule nth_equalityI) auto

lemma drop_bytes_at: "drop k (bytes_at m off n) = bytes_at m (off + int k) (n - int k)"
  by (rule nth_equalityI) (auto simp: nat_diff_distrib' algebra_simps)

lemma bytes_at_of_list:
  assumes "0 \<le> n" and "0 \<le> soff" and "soff + n \<le> int (length src)"
    and "\<And>k. off \<le> k \<Longrightarrow> k < off + n \<Longrightarrow> m k = src ! nat (soff + (k - off))"
  shows "bytes_at m off n = take (nat n) (drop (nat soff) src)"
  using assms by (intro nth_equalityI) (auto simp: nat_add_distrib)

end
