(* ===== verification/Byte_Fifo.thy ===== *)
theory Byte_Fifo
  imports Cxx_Prelude
begin

text \<open>
  The contract of a bounded byte queue, as an interface: what a provider promises about
  storing, taking and counting bytes, and what a client may conclude about any history of
  calls. The server's \<open>RecvBuffer\<close> and the stress client's \<open>RingBuffer\<close> are its two providers
  (theories \<open>Recv_Buffer\<close> and \<open>Ring_Buffer\<close>).
\<close>

datatype fifo_op = Put "Byte list" | Get nat

text \<open>
  A history of calls on a provider's \<open>put\<close> and \<open>get\<close>: the bytes accepted by \<open>put\<close>, the bytes
  handed out by \<open>get\<close> and the final state. \<open>fifo_run_ok\<close> says that every \<open>Put\<close> of the history meets
  the condition \<open>ok\<close> in the state it is called in.
\<close>

fun fifo_run :: "('s \<Rightarrow> Byte list \<Rightarrow> (bool \<times> 's) cxx) \<Rightarrow> ('s \<Rightarrow> nat \<Rightarrow> (Byte list \<times> 's) cxx) \<Rightarrow>
    's \<Rightarrow> fifo_op list \<Rightarrow> (Byte list \<times> Byte list \<times> 's) cxx" where
  "fifo_run put get s [] = Inr ([], [], s)"
| "fifo_run put get s (Put xs # ops) =
     bindr (put s xs) (\<lambda>(b, s1). bindr (fifo_run put get s1 ops) (\<lambda>(i, out, s2).
       Inr ((if b then xs else []) @ i, out, s2)))"
| "fifo_run put get s (Get n # ops) =
     bindr (get s n) (\<lambda>(ys, s1). bindr (fifo_run put get s1 ops) (\<lambda>(i, out, s2).
       Inr (i, ys @ out, s2)))"

fun fifo_run_ok :: "('s \<Rightarrow> Byte list \<Rightarrow> bool) \<Rightarrow> ('s \<Rightarrow> Byte list \<Rightarrow> (bool \<times> 's) cxx) \<Rightarrow>
    ('s \<Rightarrow> nat \<Rightarrow> (Byte list \<times> 's) cxx) \<Rightarrow> 's \<Rightarrow> fifo_op list \<Rightarrow> bool" where
  "fifo_run_ok ok put get s [] \<longleftrightarrow> True"
| "fifo_run_ok ok put get s (Put xs # ops) \<longleftrightarrow> ok s xs \<and>
     (case put s xs of Inl _ \<Rightarrow> True | Inr (_, s1) \<Rightarrow> fifo_run_ok ok put get s1 ops)"
| "fifo_run_ok ok put get s (Get n # ops) \<longleftrightarrow>
     (case get s n of Inl _ \<Rightarrow> True | Inr (_, s1) \<Rightarrow> fifo_run_ok ok put get s1 ops)"

text \<open>
  \<open>put s xs\<close> stores a block or refuses, \<open>get s n\<close> takes up to \<open>n\<close> bytes; \<open>contents\<close> is the
  abstraction to a list of bytes and \<open>put_ok\<close> the condition under which a provider keeps the
  stored bytes intact.
\<close>

locale byte_fifo =
  fixes invar :: "'s \<Rightarrow> bool"
    and contents :: "'s \<Rightarrow> Byte list"
    and put :: "'s \<Rightarrow> Byte list \<Rightarrow> (bool \<times> 's) cxx"
    and get :: "'s \<Rightarrow> nat \<Rightarrow> (Byte list \<times> 's) cxx"
    and put_ok :: "'s \<Rightarrow> Byte list \<Rightarrow> bool"
    and cap :: nat
  assumes bounded: "invar s \<Longrightarrow> length (contents s) \<le> cap"
    and put_full: "invar s \<Longrightarrow> cap < length (contents s) + length xs \<Longrightarrow> put s xs = Inr (False, s)"
    and put_stores: "invar s \<Longrightarrow> length (contents s) + length xs \<le> cap \<Longrightarrow> put_ok s xs \<Longrightarrow>
      \<exists>s'. put s xs = Inr (True, s') \<and> invar s' \<and> contents s' = contents s @ xs"
    and get_takes: "invar s \<Longrightarrow>
      \<exists>s'. get s n = Inr (take n (contents s), s') \<and> invar s' \<and> contents s' = drop n (contents s)"
begin

lemma put_cases:
  assumes "invar s" and "put_ok s xs"
  obtains "put s xs = Inr (False, s)"
  | s' where "put s xs = Inr (True, s')" "invar s'" "contents s' = contents s @ xs"
  using put_full[OF assms(1)] put_stores[OF assms(1) _ assms(2)] by (meson not_le)

lemma run_preserves_stream:
  assumes "invar s" and "fifo_run_ok put_ok put get s ops"
  shows "\<exists>i out s'. fifo_run put get s ops = Inr (i, out, s') \<and> invar s' \<and> out @ contents s' = contents s @ i"
  using assms
proof (induction ops arbitrary: s)
  case Nil
  then show ?case by simp
next
  case (Cons a ops)
  show ?case
  proof (cases a)
    case (Put xs)
    with Cons.prems have "put_ok s xs" by simp
    from put_cases[OF Cons.prems(1) this] show ?thesis
    proof cases
      case 1
      with Cons.prems Put have "fifo_run_ok put_ok put get s ops" by simp
      with Cons.IH[OF Cons.prems(1)] 1 Put show ?thesis by auto
    next
      case (2 s')
      with Cons.prems Put have "fifo_run_ok put_ok put get s' ops" by simp
      with Cons.IH[of s'] 2 Put show ?thesis by auto
    qed
  next
    case (Get n)
    obtain s' where g: "get s n = Inr (take n (contents s), s')" "invar s'"
        "contents s' = drop n (contents s)"
      using get_takes[OF Cons.prems(1)] by blast
    with Cons.prems Get have "fifo_run_ok put_ok put get s' ops" by simp
    with Cons.IH[of s'] g obtain i out s2 where
      "fifo_run put get s' ops = Inr (i, out, s2)" "invar s2" "out @ contents s2 = drop n (contents s) @ i"
      by auto
    with g Get show ?thesis
      by simp
  qed
qed

lemma put_then_get:
  assumes "invar s" and "contents s = []" and "length xs \<le> cap" and "put_ok s xs"
  shows "\<exists>s1 s2. put s xs = Inr (True, s1) \<and> get s1 (length xs) = Inr (xs, s2)
    \<and> invar s2 \<and> contents s2 = []"
proof -
  obtain s1 where 1: "put s xs = Inr (True, s1)" "invar s1" "contents s1 = xs"
    using put_stores[OF assms(1) _ assms(4)] assms(2,3) by auto
  with get_takes[OF 1(2), of "length xs"] show ?thesis by auto
qed

end

end
