(* ===== verification/Recv_Buffer.thy ===== *)
theory Recv_Buffer
  imports Byte_Fifo
begin

text \<open>
  The receive ring buffer of the server, \<^verbatim>\<open>src/src/lib-core/src/Network/RecvBuffer.hpp\<close>: the
  record of its fields, one definition per member function, the index invariant, the
  abstraction to the list of stored bytes, and the contract of \<open>Byte_Fifo\<close> with the condition
  under which \<open>Write\<close> meets it.
\<close>

section \<open>State and operations\<close>

definition BUFFER_SIZE :: int where
  "BUFFER_SIZE = 1024 * 1024"

record RecvBuffer =
  mFront :: int
  mRear :: int
  mBuffer :: arr

text \<open>
  The constructor has an empty body: the object keeps whatever its storage held, which is the
  argument of the model.
\<close>

definition RecvBuffer_ctor :: "RecvBuffer \<Rightarrow> RecvBuffer" where
  "RecvBuffer_ctor storage = storage"

definition RecvBuffer_Reset :: "RecvBuffer \<Rightarrow> RecvBuffer" where
  "RecvBuffer_Reset b = b\<lparr>mFront := 0, mRear := 0\<rparr>"

text \<open>A pointer into \<open>mBuffer\<close> is its offset from the start of the array.\<close>

definition RecvBuffer_GetBufferPtr :: "RecvBuffer \<Rightarrow> int" where
  "RecvBuffer_GetBufferPtr b = 0"

definition RecvBuffer_GetFrontBufferPtr :: "RecvBuffer \<Rightarrow> int" where
  "RecvBuffer_GetFrontBufferPtr b = RecvBuffer_GetBufferPtr b + mFront b"

definition RecvBuffer_GetRearBufferPtr :: "RecvBuffer \<Rightarrow> int" where
  "RecvBuffer_GetRearBufferPtr b = RecvBuffer_GetBufferPtr b + mRear b"

definition RecvBuffer_GetDirectWriteSize :: "RecvBuffer \<Rightarrow> int" where
  "RecvBuffer_GetDirectWriteSize b =
     (if mFront b \<le> mRear b then BUFFER_SIZE - mRear b - 1 else mFront b - mRear b - 1)"

definition RecvBuffer_GetDIrectReadSize :: "RecvBuffer \<Rightarrow> int" where
  "RecvBuffer_GetDIrectReadSize b =
     (if mFront b \<le> mRear b then mRear b - mFront b else BUFFER_SIZE - mFront b)"

definition RecvBuffer_GetUsedSize :: "RecvBuffer \<Rightarrow> int" where
  "RecvBuffer_GetUsedSize b =
     (if mFront b \<le> mRear b then mRear b - mFront b else BUFFER_SIZE - mFront b + mRear b)"

definition RecvBuffer_GetRemainSize :: "RecvBuffer \<Rightarrow> int" where
  "RecvBuffer_GetRemainSize b = BUFFER_SIZE - 1 - RecvBuffer_GetUsedSize b"

definition RecvBuffer_MoveReadOffset :: "RecvBuffer \<Rightarrow> int \<Rightarrow> RecvBuffer cxx" where
  "RecvBuffer_MoveReadOffset b moveSize =
     bindr (add32 (mFront b) moveSize) (\<lambda>f. Inr (b\<lparr>mFront := crem f BUFFER_SIZE\<rparr>))"

definition RecvBuffer_MoveWriteOffset :: "RecvBuffer \<Rightarrow> int \<Rightarrow> RecvBuffer cxx" where
  "RecvBuffer_MoveWriteOffset b moveSize =
     bindr (add32 (mRear b) moveSize) (\<lambda>r. Inr (b\<lparr>mRear := crem r BUFFER_SIZE\<rparr>))"

definition RecvBuffer_Write :: "RecvBuffer \<Rightarrow> Byte list \<Rightarrow> int \<Rightarrow> (bool \<times> RecvBuffer) cxx" where
  "RecvBuffer_Write b inputBuffer sz =
     (let remainSize = RecvBuffer_GetRemainSize b in
      if remainSize < sz then Inr (False, b)
      else
        let directWriteSize = RecvBuffer_GetDirectWriteSize b in
        bindr
          (if sz \<le> directWriteSize
           then memcpy_in BUFFER_SIZE (mBuffer b) (mRear b) inputBuffer 0 sz
           else bindr (memcpy_in BUFFER_SIZE (mBuffer b) (mRear b) inputBuffer 0 directWriteSize)
                  (\<lambda>m. memcpy_in BUFFER_SIZE m 0 inputBuffer directWriteSize (sz - directWriteSize)))
          (\<lambda>m. bindr (add32 (mRear b) sz)
             (\<lambda>r. Inr (True, b\<lparr>mBuffer := m, mRear := crem r BUFFER_SIZE\<rparr>))))"

definition RecvBuffer_Peek :: "RecvBuffer \<Rightarrow> Byte list \<Rightarrow> int \<Rightarrow> (int \<times> Byte list) cxx" where
  "RecvBuffer_Peek b readBuffer sz =
     (let usedSize = RecvBuffer_GetUsedSize b;
          peekSize = (if usedSize \<le> sz then usedSize else sz);
          directReadSize = RecvBuffer_GetDIrectReadSize b
      in bindr
          (if peekSize \<le> directReadSize
           then memcpy_out BUFFER_SIZE readBuffer 0 (mBuffer b) (mFront b) peekSize
           else bindr (memcpy_out BUFFER_SIZE readBuffer 0 (mBuffer b) (mFront b) directReadSize)
                  (\<lambda>d. memcpy_out BUFFER_SIZE d directReadSize (mBuffer b) 0 (peekSize - directReadSize)))
          (\<lambda>d. Inr (peekSize, d)))"

definition RecvBuffer_Read :: "RecvBuffer \<Rightarrow> Byte list \<Rightarrow> int \<Rightarrow> (int \<times> Byte list \<times> RecvBuffer) cxx" where
  "RecvBuffer_Read b readBuffer sz =
     bindr (RecvBuffer_Peek b readBuffer sz) (\<lambda>(peekSize, d).
       bindr (add32 (mFront b) peekSize) (\<lambda>f.
         Inr (peekSize, d, b\<lparr>mFront := crem f BUFFER_SIZE\<rparr>)))"

section \<open>Invariant and abstraction\<close>

definition RecvBuffer_inv :: "RecvBuffer \<Rightarrow> bool" where
  "RecvBuffer_inv b \<longleftrightarrow> 0 \<le> mFront b \<and> mFront b < BUFFER_SIZE \<and> 0 \<le> mRear b \<and> mRear b < BUFFER_SIZE"

definition RecvBuffer_contents :: "RecvBuffer \<Rightarrow> Byte list" where
  "RecvBuffer_contents b =
     (if mFront b \<le> mRear b then bytes_at (mBuffer b) (mFront b) (mRear b - mFront b)
      else bytes_at (mBuffer b) (mFront b) (BUFFER_SIZE - mFront b) @ bytes_at (mBuffer b) 0 (mRear b))"

lemmas RecvBuffer_sizes =
  RecvBuffer_GetDirectWriteSize_def RecvBuffer_GetDIrectReadSize_def
  RecvBuffer_GetUsedSize_def RecvBuffer_GetRemainSize_def

lemmas RecvBuffer_ptrs =
  RecvBuffer_GetBufferPtr_def RecvBuffer_GetFrontBufferPtr_def RecvBuffer_GetRearBufferPtr_def

lemma RecvBuffer_length_contents:
  "RecvBuffer_inv b \<Longrightarrow> int (length (RecvBuffer_contents b)) = RecvBuffer_GetUsedSize b"
  by (auto simp: RecvBuffer_contents_def RecvBuffer_GetUsedSize_def RecvBuffer_inv_def)

lemma BUFFER_SIZE_mod_shift:
  assumes "BUFFER_SIZE \<le> r" and "r < 2 * BUFFER_SIZE"
  shows "r mod BUFFER_SIZE = r - BUFFER_SIZE"
proof -
  have "r mod BUFFER_SIZE = (r - BUFFER_SIZE) mod BUFFER_SIZE" by simp
  also have "\<dots> = r - BUFFER_SIZE" using assms by (intro mod_pos_pos_trivial) auto
  finally show ?thesis .
qed

lemma RecvBuffer_step_index:
  assumes "0 \<le> i" and "i < BUFFER_SIZE" and "0 \<le> n" and "n \<le> BUFFER_SIZE"
  shows "in_int32 (i + n)"
    and "crem (i + n) BUFFER_SIZE = (if i + n < BUFFER_SIZE then i + n else i + n - BUFFER_SIZE)"
  using assms BUFFER_SIZE_mod_shift[of "i + n"]
  by (auto simp: in_int32_def BUFFER_SIZE_def)


section \<open>Writing\<close>

text \<open>A block that fits before the end of the array is appended to the stored bytes.\<close>

lemma RecvBuffer_Write_direct:
  assumes inv: "RecvBuffer_inv b" and n: "0 \<le> n" "n \<le> int (length xs)"
    and fits: "n \<le> RecvBuffer_GetDirectWriteSize b"
  shows "\<exists>m. RecvBuffer_Write b xs n = Inr (True, b\<lparr>mBuffer := m, mRear := mRear b + n\<rparr>)
    \<and> RecvBuffer_inv (b\<lparr>mBuffer := m, mRear := mRear b + n\<rparr>)
    \<and> RecvBuffer_contents (b\<lparr>mBuffer := m, mRear := mRear b + n\<rparr>)
        = RecvBuffer_contents b @ take (nat n) xs"
proof -
  define m where "m = (\<lambda>k. if mRear b \<le> k \<and> k < mRear b + n then xs ! nat (0 + (k - mRear b)) else mBuffer b k)"
  have bound: "mRear b + n < BUFFER_SIZE"
    using inv fits by (auto simp: RecvBuffer_inv_def RecvBuffer_sizes split: if_splits)
  have "n \<le> RecvBuffer_GetRemainSize b"
    using inv fits by (auto simp: RecvBuffer_inv_def RecvBuffer_sizes split: if_splits)
  moreover have "memcpy_in BUFFER_SIZE (mBuffer b) (mRear b) xs 0 n = Inr m"
    using inv n bound by (simp add: memcpy_in_def m_def RecvBuffer_inv_def)
  moreover have "in_int32 (mRear b + n)" "crem (mRear b + n) BUFFER_SIZE = mRear b + n"
    using RecvBuffer_step_index[of "mRear b" n] inv n bound by (auto simp: RecvBuffer_inv_def)
  ultimately have w: "RecvBuffer_Write b xs n = Inr (True, b\<lparr>mBuffer := m, mRear := mRear b + n\<rparr>)"
    using fits by (simp add: RecvBuffer_Write_def)
  have new: "bytes_at m (mRear b) n = take (nat n) xs"
    using bytes_at_of_list[of n 0 xs "mRear b" m] n by (auto simp: m_def)
  have old: "bytes_at m (mFront b) (mRear b - mFront b) = bytes_at (mBuffer b) (mFront b) (mRear b - mFront b)"
    "bytes_at m 0 (mRear b) = bytes_at (mBuffer b) 0 (mRear b)"
    by (rule bytes_at_cong, simp add: m_def)+
  have "RecvBuffer_contents (b\<lparr>mBuffer := m, mRear := mRear b + n\<rparr>)
        = RecvBuffer_contents b @ take (nat n) xs"
  proof (cases "mFront b \<le> mRear b")
    case True
    have "bytes_at m (mFront b) (mRear b - mFront b + n)
        = bytes_at (mBuffer b) (mFront b) (mRear b - mFront b) @ take (nat n) xs"
      using True n bytes_at_append[of "mRear b - mFront b" n m "mFront b"] new old by simp
    moreover have eq: "mRear b + n - mFront b = mRear b - mFront b + n" by simp
    ultimately show ?thesis using True n by (simp add: RecvBuffer_contents_def eq)
  next
    case False
    have "bytes_at m 0 (mRear b + n) = bytes_at (mBuffer b) 0 (mRear b) @ take (nat n) xs"
      using bytes_at_append[of "mRear b" n m 0] inv n new old by (simp add: RecvBuffer_inv_def)
    moreover have "mRear b + n < mFront b"
      using False fits by (simp add: RecvBuffer_GetDirectWriteSize_def)
    moreover have "bytes_at m (mFront b) (BUFFER_SIZE - mFront b) = bytes_at (mBuffer b) (mFront b) (BUFFER_SIZE - mFront b)"
      using calculation(2) by (intro bytes_at_cong) (simp add: m_def)
    ultimately show ?thesis using False by (simp add: RecvBuffer_contents_def)
  qed
  with w bound inv n show ?thesis by (auto simp: RecvBuffer_inv_def)
qed

text \<open>
  A block that needs both pieces of the free space: the first copy stops one byte before the
  end of the array, and the index arithmetic counts that byte as written.
\<close>

lemma RecvBuffer_Write_wrap:
  assumes inv: "RecvBuffer_inv b" and n: "n \<le> int (length xs)" "n \<le> RecvBuffer_GetRemainSize b"
    and wraps: "RecvBuffer_GetDirectWriteSize b < n"
  defines "d \<equiv> RecvBuffer_GetDirectWriteSize b"
  shows "\<exists>m. RecvBuffer_Write b xs n = Inr (True, b\<lparr>mBuffer := m, mRear := n - d - 1\<rparr>)
    \<and> RecvBuffer_inv (b\<lparr>mBuffer := m, mRear := n - d - 1\<rparr>)
    \<and> RecvBuffer_contents (b\<lparr>mBuffer := m, mRear := n - d - 1\<rparr>)
        = RecvBuffer_contents b @ take (nat d) xs @ [mBuffer b (BUFFER_SIZE - 1)]
            @ take (nat (n - d - 1)) (drop (nat d) xs)"
proof -
  have fr: "mFront b \<le> mRear b"
    using n wraps by (auto simp: RecvBuffer_sizes split: if_splits)
  have d: "d = BUFFER_SIZE - mRear b - 1" using fr by (simp add: d_def RecvBuffer_sizes)
  have dn: "0 \<le> d" "d < n" "n - d - 1 < mFront b" "n < BUFFER_SIZE"
    using inv n wraps fr by (auto simp: d RecvBuffer_sizes RecvBuffer_inv_def)
  define m1 where "m1 = (\<lambda>k. if mRear b \<le> k \<and> k < mRear b + d then xs ! nat (0 + (k - mRear b)) else mBuffer b k)"
  define m where "m = (\<lambda>k. if 0 \<le> k \<and> k < 0 + (n - d) then xs ! nat (d + (k - 0)) else m1 k)"
  have c1: "memcpy_in BUFFER_SIZE (mBuffer b) (mRear b) xs 0 d = Inr m1"
    using inv n dn by (auto simp: memcpy_in_def m1_def RecvBuffer_inv_def d)
  have c2: "memcpy_in BUFFER_SIZE m1 0 xs d (n - d) = Inr m"
    using n dn by (auto simp: memcpy_in_def m_def)
  have idx: "in_int32 (mRear b + n)" "crem (mRear b + n) BUFFER_SIZE = n - d - 1"
    using RecvBuffer_step_index[of "mRear b" n] inv dn by (auto simp: RecvBuffer_inv_def d)
  have w: "RecvBuffer_Write b xs n = Inr (True, b\<lparr>mBuffer := m, mRear := n - d - 1\<rparr>)"
    using n wraps c1 c2 idx by (simp add: RecvBuffer_Write_def d_def)
  have tail: "bytes_at m (mFront b) (BUFFER_SIZE - mFront b)
      = bytes_at (mBuffer b) (mFront b) (mRear b - mFront b) @ take (nat d) xs @ [mBuffer b (BUFFER_SIZE - 1)]"
  proof -
    have "bytes_at m (mFront b) (BUFFER_SIZE - mFront b)
        = bytes_at m (mFront b) (mRear b - mFront b) @ bytes_at m (mRear b) d @ bytes_at m (mRear b + d) 1"
      using bytes_at_append[of "mRear b - mFront b" "d + 1" m "mFront b"] bytes_at_append[of d 1 m "mRear b"] fr dn
      by (simp add: d)
    moreover have "bytes_at m (mFront b) (mRear b - mFront b) = bytes_at (mBuffer b) (mFront b) (mRear b - mFront b)"
      using dn by (intro bytes_at_cong) (auto simp: m_def m1_def)
    moreover have "bytes_at m (mRear b) d = take (nat d) xs"
      using bytes_at_of_list[of d 0 xs "mRear b" m] dn n fr by (auto simp: m_def m1_def)
    moreover have "bytes_at m (mRear b + d) 1 = [mBuffer b (BUFFER_SIZE - 1)]"
      using dn fr by (auto simp: bytes_at_def m_def m1_def d)
    ultimately show ?thesis by simp
  qed
  have start: "bytes_at m 0 (n - d - 1) = take (nat (n - d - 1)) (drop (nat d) xs)"
    using dn n by (intro bytes_at_of_list) (auto simp: m_def)
  show ?thesis
    using w tail start dn inv fr
    by (intro exI[of _ m]) (auto simp: RecvBuffer_contents_def RecvBuffer_inv_def)
qed

section \<open>Reading\<close>

lemma RecvBuffer_Write_ok:
  assumes "RecvBuffer_inv b" and "0 \<le> n" and "n \<le> int (length xs)"
  shows "\<exists>ok b'. RecvBuffer_Write b xs n = Inr (ok, b') \<and> RecvBuffer_inv b'"
  using RecvBuffer_Write_direct[OF assms] RecvBuffer_Write_wrap[OF assms(1,3)] assms(1)
  by (cases "RecvBuffer_GetRemainSize b < n"; cases "n \<le> RecvBuffer_GetDirectWriteSize b")
    (auto simp: RecvBuffer_Write_def)

lemma RecvBuffer_Peek_prefix:
  assumes inv: "RecvBuffer_inv b" and n: "0 \<le> n" "n \<le> int (length dst)"
  defines "p \<equiv> min n (RecvBuffer_GetUsedSize b)"
  shows "RecvBuffer_Peek b dst n
    = Inr (p, take (nat n) (RecvBuffer_contents b) @ drop (nat p) dst)"
proof -
  let ?r = "RecvBuffer_GetDIrectReadSize b"
  have p: "(if RecvBuffer_GetUsedSize b \<le> n then RecvBuffer_GetUsedSize b else n) = p" "0 \<le> p" "p \<le> n"
    using inv n by (auto simp: p_def RecvBuffer_sizes RecvBuffer_inv_def)
  have r: "0 \<le> ?r" "mFront b + ?r \<le> BUFFER_SIZE"
    using inv by (auto simp: RecvBuffer_sizes RecvBuffer_inv_def)
  show ?thesis
  proof (cases "p \<le> ?r")
    case True
    have "bytes_at (mBuffer b) (mFront b) p = take (nat n) (RecvBuffer_contents b)"
      using True inv n
      by (auto simp: RecvBuffer_contents_def take_bytes_at p_def RecvBuffer_sizes RecvBuffer_inv_def min_def
          split: if_splits)
    with True p r inv n show ?thesis
      by (simp add: RecvBuffer_Peek_def Let_def memcpy_out_def RecvBuffer_inv_def)
  next
    case False
    then have fr: "\<not> mFront b \<le> mRear b"
      by (auto simp: p_def RecvBuffer_sizes min_def split: if_splits)
    let ?d = "bytes_at (mBuffer b) (mFront b) ?r @ drop (nat ?r) dst"
    have pr: "p - ?r \<le> mRear b" "mRear b < BUFFER_SIZE"
      using False fr inv by (auto simp: p_def RecvBuffer_sizes RecvBuffer_inv_def)
    have "bytes_at (mBuffer b) (mFront b) ?r @ bytes_at (mBuffer b) 0 (p - ?r) = take (nat n) (RecvBuffer_contents b)"
      using False fr inv n r
      by (auto simp: RecvBuffer_contents_def take_bytes_at p_def RecvBuffer_sizes RecvBuffer_inv_def min_def
          split: if_splits)
    moreover have "memcpy_out BUFFER_SIZE dst 0 (mBuffer b) (mFront b) ?r = Inr ?d"
      using False p r inv n by (simp add: memcpy_out_def RecvBuffer_inv_def)
    moreover have "memcpy_out BUFFER_SIZE ?d ?r (mBuffer b) 0 (p - ?r)
        = Inr (bytes_at (mBuffer b) (mFront b) ?r @ bytes_at (mBuffer b) 0 (p - ?r) @ drop (nat p) dst)"
      using False p r pr n by (simp add: memcpy_out_def nat_diff_distrib)
    ultimately show ?thesis
      using False p by (simp add: RecvBuffer_Peek_def Let_def)
  qed
qed

lemma RecvBuffer_advance_front:
  assumes inv: "RecvBuffer_inv b" and n: "0 \<le> n" "n \<le> RecvBuffer_GetUsedSize b"
  defines "b' \<equiv> b\<lparr>mFront := crem (mFront b + n) BUFFER_SIZE\<rparr>"
  shows "in_int32 (mFront b + n)" and "RecvBuffer_inv b'"
    and "RecvBuffer_contents b' = drop (nat n) (RecvBuffer_contents b)"
proof -
  have le: "n \<le> BUFFER_SIZE" using inv n by (auto simp: RecvBuffer_sizes RecvBuffer_inv_def split: if_splits)
  note idx = RecvBuffer_step_index[of "mFront b" n]
  show "in_int32 (mFront b + n)" using idx inv n le by (simp add: RecvBuffer_inv_def)
  have f: "crem (mFront b + n) BUFFER_SIZE = (if mFront b + n < BUFFER_SIZE then mFront b + n else mFront b + n - BUFFER_SIZE)"
    using idx inv n le by (simp add: RecvBuffer_inv_def)
  show "RecvBuffer_inv b'" using inv n le by (auto simp: b'_def f RecvBuffer_inv_def simp del: crem_nonneg)
  show "RecvBuffer_contents b' = drop (nat n) (RecvBuffer_contents b)"
  proof (cases "mFront b + n < BUFFER_SIZE")
    case True
    then have "b' = b\<lparr>mFront := mFront b + n\<rparr>" by (simp add: b'_def f del: crem_nonneg)
    then show ?thesis
      using True inv n by (auto simp: RecvBuffer_contents_def drop_bytes_at RecvBuffer_sizes
          RecvBuffer_inv_def algebra_simps split: if_splits)
  next
    case False
    have eq: "n - (BUFFER_SIZE - mFront b) = mFront b + n - BUFFER_SIZE" by simp
    from False show ?thesis
      using inv n by (auto simp: b'_def f RecvBuffer_contents_def drop_bytes_at RecvBuffer_sizes
          RecvBuffer_inv_def eq simp del: crem_nonneg split: if_splits)
  qed
qed


lemma RecvBuffer_Read_prefix:
  assumes inv: "RecvBuffer_inv b" and n: "0 \<le> n" "n \<le> int (length dst)"
  defines "p \<equiv> min n (RecvBuffer_GetUsedSize b)"
  shows "\<exists>b'. RecvBuffer_Read b dst n = Inr (p, take (nat n) (RecvBuffer_contents b) @ drop (nat p) dst, b')
    \<and> RecvBuffer_inv b' \<and> RecvBuffer_contents b' = drop (nat n) (RecvBuffer_contents b)"
proof -
  have p: "0 \<le> p" "p \<le> RecvBuffer_GetUsedSize b"
    using inv n by (auto simp: p_def RecvBuffer_sizes RecvBuffer_inv_def)
  note adv = RecvBuffer_advance_front[OF inv p]
  have "drop (nat p) (RecvBuffer_contents b) = drop (nat n) (RecvBuffer_contents b)"
    using RecvBuffer_length_contents[OF inv] n by (auto simp: p_def min_def)
  with adv RecvBuffer_Peek_prefix[OF inv n] show ?thesis
    by (auto simp: RecvBuffer_Read_def p_def)
qed

section \<open>The byte queue contract\<close>

text \<open>
  How a caller uses the buffer as a queue of blocks: it writes a whole block, and it reads into
  a local array of the size it asks for, keeping the bytes that the returned count covers.
\<close>

definition RecvBuffer_put :: "RecvBuffer \<Rightarrow> Byte list \<Rightarrow> (bool \<times> RecvBuffer) cxx" where
  "RecvBuffer_put b xs = RecvBuffer_Write b xs (int (length xs))"

definition RecvBuffer_get :: "RecvBuffer \<Rightarrow> nat \<Rightarrow> (Byte list \<times> RecvBuffer) cxx" where
  "RecvBuffer_get b n =
     bindr (RecvBuffer_Read b (replicate n 0) (int n)) (\<lambda>(cnt, dst, b'). Inr (take (nat cnt) dst, b'))"

definition RecvBuffer_contiguous :: "RecvBuffer \<Rightarrow> Byte list \<Rightarrow> bool" where
  "RecvBuffer_contiguous b xs \<longleftrightarrow>
     RecvBuffer_GetRemainSize b < int (length xs) \<or> int (length xs) \<le> RecvBuffer_GetDirectWriteSize b"

lemma RecvBuffer_get_takes:
  assumes "RecvBuffer_inv b"
  shows "\<exists>b'. RecvBuffer_get b n = Inr (take n (RecvBuffer_contents b), b')
    \<and> RecvBuffer_inv b' \<and> RecvBuffer_contents b' = drop n (RecvBuffer_contents b)"
proof -
  let ?p = "min (int n) (RecvBuffer_GetUsedSize b)"
  have "take (nat ?p) (take n (RecvBuffer_contents b) @ drop (nat ?p) (replicate n 0))
      = take n (RecvBuffer_contents b)"
    using RecvBuffer_length_contents[OF assms] by (auto simp: min_def)
  with RecvBuffer_Read_prefix[OF assms, of "int n" "replicate n 0"] show ?thesis
    by (auto simp: RecvBuffer_get_def)
qed

interpretation recv_fifo: byte_fifo RecvBuffer_inv RecvBuffer_contents RecvBuffer_put RecvBuffer_get
  RecvBuffer_contiguous "nat (BUFFER_SIZE - 1)"
proof
  fix b xs n
  assume inv: "RecvBuffer_inv b"
  note len = RecvBuffer_length_contents[OF inv]
  show "length (RecvBuffer_contents b) \<le> nat (BUFFER_SIZE - 1)"
    using inv len by (auto simp: RecvBuffer_inv_def RecvBuffer_sizes split: if_splits)
  show "RecvBuffer_put b xs = Inr (False, b)"
    if "nat (BUFFER_SIZE - 1) < length (RecvBuffer_contents b) + length xs"
    using that len by (simp add: RecvBuffer_put_def RecvBuffer_Write_def RecvBuffer_GetRemainSize_def BUFFER_SIZE_def)
  show "\<exists>b'. RecvBuffer_put b xs = Inr (True, b') \<and> RecvBuffer_inv b'
      \<and> RecvBuffer_contents b' = RecvBuffer_contents b @ xs"
    if "length (RecvBuffer_contents b) + length xs \<le> nat (BUFFER_SIZE - 1)" and "RecvBuffer_contiguous b xs"
  proof -
    have "int (length xs) \<le> RecvBuffer_GetDirectWriteSize b"
      using that len by (auto simp: RecvBuffer_contiguous_def RecvBuffer_GetRemainSize_def BUFFER_SIZE_def)
    from RecvBuffer_Write_direct[OF inv _ _ this, of xs] show ?thesis
      by (auto simp: RecvBuffer_put_def)
  qed
  show "\<exists>b'. RecvBuffer_get b n = Inr (take n (RecvBuffer_contents b), b') \<and> RecvBuffer_inv b'
      \<and> RecvBuffer_contents b' = drop n (RecvBuffer_contents b)"
    using inv by (rule RecvBuffer_get_takes)
qed


section \<open>Properties\<close>

text \<open>
  C9. Any history of writes and reads on a well-formed buffer, in which no accepted write needs
  both pieces of the free space, runs without undefined behaviour, keeps the index invariant and
  is a first-in first-out byte stream: what was read, followed by what is still stored, is what
  was stored at the start followed by what was accepted.
\<close>

theorem RecvBuffer_history_fifo:
  assumes "RecvBuffer_inv b"
    and "fifo_run_ok RecvBuffer_contiguous RecvBuffer_put RecvBuffer_get b ops"
  shows "\<exists>i out b'. fifo_run RecvBuffer_put RecvBuffer_get b ops = Inr (i, out, b')
    \<and> RecvBuffer_inv b' \<and> out @ RecvBuffer_contents b' = RecvBuffer_contents b @ i"
  using assms by (rule recv_fifo.run_preserves_stream)

lemmas RecvBuffer_eval =
  RecvBuffer_put_def RecvBuffer_get_def RecvBuffer_Write_def RecvBuffer_Read_def RecvBuffer_Peek_def
  RecvBuffer_contiguous_def RecvBuffer_inv_def RecvBuffer_sizes memcpy_in_def memcpy_out_def
  add32_def in_int32_def BUFFER_SIZE_def bytes_at_def

theorem RecvBuffer_history_fifo_witness:
  "\<exists>i out b'. fifo_run RecvBuffer_put RecvBuffer_get
       \<lparr>mFront = 5, mRear = 5, mBuffer = (\<lambda>_. 0)\<rparr> [Put [1, 2, 3], Get 2] = Inr (i, out, b')
    \<and> RecvBuffer_inv b'
    \<and> out @ RecvBuffer_contents b'
        = RecvBuffer_contents \<lparr>mFront = 5, mRear = 5, mBuffer = (\<lambda>_. 0)\<rparr> @ i"
  by (rule RecvBuffer_history_fifo) (simp_all add: RecvBuffer_eval)

text \<open>
  C10. A write that is accepted but needs both pieces of the free space corrupts the stream: the
  byte that happened to lie at the last position of the array is inserted after the first piece,
  and the last byte of the block is not stored.
\<close>

theorem RecvBuffer_Write_wrap_corrupts:
  assumes "RecvBuffer_inv b" and "int (length xs) \<le> RecvBuffer_GetRemainSize b"
    and "RecvBuffer_GetDirectWriteSize b < int (length xs)"
  defines "d \<equiv> nat (RecvBuffer_GetDirectWriteSize b)"
  shows "\<exists>b'. RecvBuffer_put b xs = Inr (True, b') \<and> RecvBuffer_inv b'
    \<and> RecvBuffer_contents b'
        = RecvBuffer_contents b @ take d xs @ [mBuffer b (BUFFER_SIZE - 1)] @ butlast (drop d xs)"
proof -
  let ?d = "RecvBuffer_GetDirectWriteSize b" and ?n = "int (length xs)"
  have "0 \<le> ?d" using assms(1) by (auto simp: RecvBuffer_sizes RecvBuffer_inv_def)
  then have "nat (?n - ?d - 1) = length (drop d xs) - 1" by (simp add: d_def)
  then have "take (nat (?n - ?d - 1)) (drop d xs) = butlast (drop d xs)"
    by (simp add: butlast_conv_take)
  with RecvBuffer_Write_wrap[OF assms(1) order_refl assms(2,3)] show ?thesis
    by (auto simp: RecvBuffer_put_def d_def)
qed

theorem RecvBuffer_Write_wrap_corrupts_witness:
  "\<exists>b'. RecvBuffer_put \<lparr>mFront = 4, mRear = 1048574, mBuffer = (\<lambda>_. 0)\<rparr> [7, 8, 9] = Inr (True, b')
    \<and> RecvBuffer_inv b'
    \<and> RecvBuffer_contents b'
        = RecvBuffer_contents \<lparr>mFront = 4, mRear = 1048574, mBuffer = (\<lambda>_. 0)\<rparr> @ [7, 0, 8]"
  using RecvBuffer_Write_wrap_corrupts
    [of "\<lparr>mFront = 4, mRear = 1048574, mBuffer = (\<lambda>_. 0)\<rparr>" "[7, 8, 9]"]
  by (simp add: RecvBuffer_inv_def RecvBuffer_sizes BUFFER_SIZE_def)

text \<open>
  C11. Memory safety: on a well-formed buffer, a write of a size the caller's block covers and a
  read or peek of a size the caller's array covers never leave the arrays and never overflow; the
  invariant is kept.
\<close>

theorem RecvBuffer_memory_safe:
  assumes "RecvBuffer_inv b" and "0 \<le> n" and "n \<le> int (length blk)"
  shows "\<exists>ok bw bytes cnt br.
    RecvBuffer_Write b blk n = Inr (ok, bw) \<and> RecvBuffer_inv bw
    \<and> RecvBuffer_Peek b blk n = Inr (cnt, bytes)
    \<and> RecvBuffer_Read b blk n = Inr (cnt, bytes, br) \<and> RecvBuffer_inv br
    \<and> 0 \<le> cnt \<and> cnt \<le> n \<and> length bytes = length blk"
proof -
  have "\<exists>ok bw. RecvBuffer_Write b blk n = Inr (ok, bw) \<and> RecvBuffer_inv bw"
    by (rule RecvBuffer_Write_ok[OF assms])
  moreover have "0 \<le> min n (RecvBuffer_GetUsedSize b)"
    using assms by (auto simp: RecvBuffer_sizes RecvBuffer_inv_def)
  ultimately show ?thesis
    using RecvBuffer_Peek_prefix[OF assms] RecvBuffer_Read_prefix[OF assms]
      RecvBuffer_length_contents[OF assms(1)] assms(2,3)
    by (auto simp: min_def)
qed

theorem RecvBuffer_memory_safe_witness:
  "\<exists>ok bw bytes cnt br.
    RecvBuffer_Write \<lparr>mFront = 9, mRear = 2, mBuffer = (\<lambda>_. 0)\<rparr> [1, 2] 2 = Inr (ok, bw) \<and> RecvBuffer_inv bw
    \<and> RecvBuffer_Peek \<lparr>mFront = 9, mRear = 2, mBuffer = (\<lambda>_. 0)\<rparr> [1, 2] 2 = Inr (cnt, bytes)
    \<and> RecvBuffer_Read \<lparr>mFront = 9, mRear = 2, mBuffer = (\<lambda>_. 0)\<rparr> [1, 2] 2 = Inr (cnt, bytes, br)
    \<and> RecvBuffer_inv br \<and> 0 \<le> cnt \<and> cnt \<le> 2 \<and> length bytes = length [1, 2 :: Byte]"
  by (rule RecvBuffer_memory_safe) (simp_all add: RecvBuffer_inv_def BUFFER_SIZE_def)

text \<open>
  The size queries agree with the stored bytes and with each other: the used size is the
  number of stored bytes, used and remaining sizes add up to the capacity (one slot stays free),
  the contiguous sizes are parts of the whole, and every value is a non-negative Int32.
\<close>

theorem RecvBuffer_sizes_consistent:
  assumes "RecvBuffer_inv b"
  shows "RecvBuffer_GetUsedSize b = int (length (RecvBuffer_contents b))
    \<and> RecvBuffer_GetUsedSize b + RecvBuffer_GetRemainSize b = BUFFER_SIZE - 1
    \<and> 0 \<le> RecvBuffer_GetDirectWriteSize b \<and> RecvBuffer_GetDirectWriteSize b \<le> RecvBuffer_GetRemainSize b
    \<and> 0 \<le> RecvBuffer_GetDIrectReadSize b \<and> RecvBuffer_GetDIrectReadSize b \<le> RecvBuffer_GetUsedSize b
    \<and> in_int32 (RecvBuffer_GetUsedSize b) \<and> in_int32 (RecvBuffer_GetRemainSize b)
    \<and> RecvBuffer_GetFrontBufferPtr b + RecvBuffer_GetDIrectReadSize b \<le> BUFFER_SIZE
    \<and> RecvBuffer_GetRearBufferPtr b + RecvBuffer_GetDirectWriteSize b < BUFFER_SIZE"
  using assms RecvBuffer_length_contents[OF assms]
  by (auto simp: RecvBuffer_sizes RecvBuffer_inv_def RecvBuffer_ptrs in_int32_def BUFFER_SIZE_def)

theorem RecvBuffer_sizes_consistent_witness:
  "RecvBuffer_GetUsedSize \<lparr>mFront = 9, mRear = 2, mBuffer = (\<lambda>_. 0)\<rparr> = 1048569
    \<and> RecvBuffer_GetUsedSize \<lparr>mFront = 9, mRear = 2, mBuffer = (\<lambda>_. 0)\<rparr>
      + RecvBuffer_GetRemainSize \<lparr>mFront = 9, mRear = 2, mBuffer = (\<lambda>_. 0)\<rparr> = BUFFER_SIZE - 1"
  using RecvBuffer_sizes_consistent [of "\<lparr>mFront = 9, mRear = 2, mBuffer = (\<lambda>_. 0)\<rparr>"]
  by (simp add: RecvBuffer_inv_def RecvBuffer_sizes BUFFER_SIZE_def)

end
