(* ===== verification/Net_Types.thy ===== *)
theory Net_Types
  imports Recv_Buffer
begin

text \<open>
  What the server side shares: the kernel interface the sources call (epoll, close, recv, writev,
  accept) as a log of requests and a script of answers, the references to jobs that go through
  epoll, the iovec, and the file descriptors of \<^verbatim>\<open>class Server\<close>
  (\<^verbatim>\<open>src/src/lib-core/include/core/Server.hpp\<close>).

  The kernel is not part of the sources. Its answers are arguments of the model: a list of
  answers is consumed call by call, and a non-blocking call for which the list holds no more
  answers gets EAGAIN, the answer of a non-blocking socket with nothing left to do.
\<close>

datatype errno = EAGAIN | EINTR | EPIPE | ECONNRESET | EOther int

datatype epoll_op = EPOLL_CTL_ADD | EPOLL_CTL_MOD | EPOLL_CTL_DEL

datatype epoll_flag = EPOLLIN | EPOLLOUT | EPOLLONESHOT | EPOLLET

text \<open>
  The pointer stored in \<^verbatim>\<open>epoll_event.data.ptr\<close>: null, one of the two jobs of the server, or a
  job embedded in the session at a position of the session vector.
\<close>

datatype job_ref = NullJob | PollJobRef | AcceptJobRef | RecvJobRef int | SendJobRef int

text \<open>An iovec: a base address (0 is the null pointer) and a length in bytes.\<close>

record iovec =
  iov_base :: int
  iov_len :: int

definition iov_addrs :: "iovec \<Rightarrow> int list" where
  "iov_addrs v = map (\<lambda>i. iov_base v + int i) [0..<nat (iov_len v)]"

definition iov_total :: "iovec list \<Rightarrow> int" where
  "iov_total vs = (\<Sum>v\<leftarrow>vs. iov_len v)"

lemma iov_total_simps [simp]:
  "iov_total [] = 0"
  "iov_total (v # vs) = iov_len v + iov_total vs"
  "iov_total (us @ vs) = iov_total us + iov_total vs"
  by (simp_all add: iov_total_def)

text \<open>Levels and options of \<^verbatim>\<open>setsockopt\<close>, with their Linux values.\<close>

definition SOL_SOCKET :: int where "SOL_SOCKET = 1"
definition IPPROTO_TCP :: int where "IPPROTO_TCP = 6"
definition SO_REUSEADDR :: int where "SO_REUSEADDR = 2"
definition TCP_NODELAY :: int where "TCP_NODELAY = 1"

text \<open>Requests to the kernel and calls of the virtual functions of the application.\<close>

datatype effect =
    EpollCtl int epoll_op int "(job_ref \<times> epoll_flag list) option"
  | CloseFD int
  | Writev int "iovec list"
  | SetNonBlock int
  | SetSockOpt int int int
  | CallOnDisconnected SessionID
  | CallOnConnected SessionID
  | CallOnRecv SessionID "Byte list"

definition closes :: "int \<Rightarrow> effect list \<Rightarrow> nat" where
  "closes fd es = count_list es (CloseFD fd)"

lemma closes_simps [simp]:
  "closes fd [] = 0"
  "closes fd (e # es) = (if e = CloseFD fd then Suc (closes fd es) else closes fd es)"
  "closes fd (es @ es') = closes fd es + closes fd es'"
  by (simp_all add: closes_def)

fun is_writev :: "effect \<Rightarrow> bool" where
  "is_writev (Writev _ _) = True"
| "is_writev _ = False"

datatype recv_answer = RecvData "Byte list" | RecvErr errno

datatype writev_answer = WriteDone int | WriteErr errno

section \<open>The descriptors of the server\<close>

record ServerFds =
  mListenFD :: SocketFD
  mEpollFD :: int
  mSendPollFD :: int

definition Server_GetListenSocket :: "'a ServerFds_scheme \<Rightarrow> SocketFD" where
  "Server_GetListenSocket srv = mListenFD srv"

definition Server_GetEpollFD :: "'a ServerFds_scheme \<Rightarrow> int" where
  "Server_GetEpollFD srv = mEpollFD srv"

definition Server_GetSendPollFD :: "'a ServerFds_scheme \<Rightarrow> int" where
  "Server_GetSendPollFD srv = mSendPollFD srv"

end
