(* ===== verification/Session.thy ===== *)
theory Session
  imports Net_Types
begin

text \<open>
  A client session of the server: \<^verbatim>\<open>class Session\<close>
  (\<^verbatim>\<open>src/src/lib-core/src/Network/Session.hpp\<close>, \<^verbatim>\<open>Session.cpp\<close>) with the two jobs it embeds,
  \<^verbatim>\<open>RecvJob\<close> and \<^verbatim>\<open>SendJob\<close> (\<^verbatim>\<open>src/src/lib-core/src/ServerJob.hpp\<close>, \<^verbatim>\<open>ServerJob.cpp\<close>). The
  operations are the sequential behaviour of one thread inside the session; the interleavings of
  threads in \<open>Disconnect\<close> and in \<open>Send\<close> are the subjects of the theories \<open>Disconnect_Race\<close> and
  \<open>Send_Race\<close>.
\<close>

section \<open>State\<close>

record SendJob =
  mSendPackets :: "iovec list"

record RecvJob =
  mRecvBuffer :: RecvBuffer

record Session =
  mSessionID :: SessionID
  mSessionFD :: SocketFD
  mIsRecving :: bool
  mRecvJob :: RecvJob
  mIsSending :: bool
  mSendJob :: SendJob
  mPackets :: "iovec list"

definition SendJob_ctor :: SendJob where
  "SendJob_ctor = \<lparr>mSendPackets = []\<rparr>"

definition RecvJob_ctor :: "RecvJob \<Rightarrow> RecvJob" where
  "RecvJob_ctor storage = \<lparr>mRecvBuffer = RecvBuffer_ctor (mRecvBuffer storage)\<rparr>"

text \<open>
  Both constructors run on the storage they are given. Members without an initialiser and
  without a constructor of their own keep what the storage held.
\<close>

definition Session_default_ctor :: "Session \<Rightarrow> Session" where
  "Session_default_ctor storage =
     storage\<lparr>mRecvJob := RecvJob_ctor (mRecvJob storage), mSendJob := SendJob_ctor, mPackets := []\<rparr>"

definition Session_ctor :: "Session \<Rightarrow> SessionID \<Rightarrow> SocketFD \<Rightarrow> Session" where
  "Session_ctor storage sessionID sessionFD =
     \<lparr>mSessionID = sessionID, mSessionFD = sessionFD, mIsRecving = True,
      mRecvJob = RecvJob_ctor (mRecvJob storage), mIsSending = False,
      mSendJob = SendJob_ctor, mPackets = []\<rparr>"

definition Session_GetSessionID :: "Session \<Rightarrow> SessionID" where
  "Session_GetSessionID s = mSessionID s"

definition Session_GetSocketFD :: "Session \<Rightarrow> SocketFD" where
  "Session_GetSocketFD s = mSessionFD s"

definition Session_SetReceiveState :: "Session \<Rightarrow> bool \<Rightarrow> Session" where
  "Session_SetReceiveState s st = s\<lparr>mIsRecving := st\<rparr>"

definition Session_SetSendState :: "Session \<Rightarrow> bool \<Rightarrow> Session" where
  "Session_SetSendState s st = s\<lparr>mIsSending := st\<rparr>"

text \<open>The addresses of the embedded jobs; \<open>self\<close> is the position of the session in its vector.\<close>

definition Session_GetRecvJob :: "int \<Rightarrow> job_ref" where
  "Session_GetRecvJob self = RecvJobRef self"

definition Session_GetSendJob :: "int \<Rightarrow> job_ref" where
  "Session_GetSendJob self = SendJobRef self"

section \<open>Disconnect\<close>

definition Session_Disconnect :: "'a ServerFds_scheme \<Rightarrow> Session \<Rightarrow> Session \<times> effect list" where
  "Session_Disconnect srv s =
     (let oldFD = mSessionFD s;
          s' = s\<lparr>mSessionFD := sINVALID_SOCKET_FD\<rparr>;
          notify = (if \<not> mIsRecving s' \<and> \<not> mIsSending s' then [CallOnDisconnected (mSessionID s')] else [])
      in if oldFD = sINVALID_SOCKET_FD then (s', notify)
         else (s', [EpollCtl (Server_GetEpollFD srv) EPOLL_CTL_DEL oldFD None, CloseFD oldFD] @ notify))"

section \<open>Sending\<close>

definition SendJob_Reset :: "SendJob \<Rightarrow> SendJob" where
  "SendJob_Reset j = j\<lparr>mSendPackets := []\<rparr>"

definition SendJob_AddPackets :: "SendJob \<Rightarrow> int \<Rightarrow> int \<Rightarrow> SendJob" where
  "SendJob_AddPackets j buffer sz = j\<lparr>mSendPackets := mSendPackets j @ [\<lparr>iov_base = buffer, iov_len = sz\<rparr>]\<rparr>"

text \<open>
  The loop that adds up the packet lengths: the addition is done in size_t and stored in an Int32.
\<close>

fun total_send_bytes :: "int \<Rightarrow> iovec list \<Rightarrow> int" where
  "total_send_bytes acc [] = acc"
| "total_send_bytes acc (v # vs) = total_send_bytes (to_int32 (to_size_t (to_size_t acc + iov_len v))) vs"

text \<open>
  The loop that looks for the packet at which a partial write stopped: the remaining packets and
  the start offset in the first of them. The comparison converts the Int32 to size_t.
\<close>

fun find_unsent :: "int \<Rightarrow> iovec list \<Rightarrow> iovec list \<times> int" where
  "find_unsent result [] = ([], 0)"
| "find_unsent result (v # vs) =
     (if to_size_t result < iov_len v
      then (v # vs, to_int32 (to_size_t (iov_len v - to_size_t result)))
      else find_unsent result vs)"

text \<open>The loop that hands the rest to the send job; the offset counts for the first packet only.\<close>

fun requeue :: "SendJob \<Rightarrow> iovec list \<Rightarrow> int \<Rightarrow> SendJob" where
  "requeue j [] startOffset = j"
| "requeue j (v # vs) startOffset =
     requeue (SendJob_AddPackets j (iov_base v + startOffset)
                (to_size_t (iov_len v - to_size_t startOffset))) vs 0"

definition send_event :: "'a ServerFds_scheme \<Rightarrow> int \<Rightarrow> Session \<Rightarrow> effect" where
  "send_event srv self s =
     EpollCtl (Server_GetSendPollFD srv) EPOLL_CTL_MOD (mSessionFD s)
       (Some (Session_GetSendJob self, [EPOLLOUT, EPOLLONESHOT]))"

text \<open>What follows the write loop: nothing if everything was sent, else the rest is requeued.\<close>

definition after_writev ::
  "'a ServerFds_scheme \<Rightarrow> int \<Rightarrow> Session \<Rightarrow> iovec list \<Rightarrow> int \<Rightarrow> int \<Rightarrow> Session \<times> effect list" where
  "after_writev srv self s sendPackets totalSendBytes result =
     (if result = totalSendBytes then (s\<lparr>mIsSending := False\<rparr>, [])
      else
        let (rest, startOffset) = find_unsent result sendPackets;
            s' = s\<lparr>mSendJob := requeue (SendJob_Reset (mSendJob s)) rest startOffset\<rparr>
        in (s', [send_event srv self s']))"

text \<open>
  The write loop. An answer EINTR repeats the call, EAGAIN and an invalid descriptor disconnect
  and return, any other error disconnects and falls through to the code after the loop with a
  negative result.
\<close>

fun writev_loop ::
  "'a ServerFds_scheme \<Rightarrow> int \<Rightarrow> Session \<Rightarrow> iovec list \<Rightarrow> int \<Rightarrow> writev_answer list \<Rightarrow> Session \<times> effect list" where
  "writev_loop srv self s sendPackets totalSendBytes answers =
     (if mSessionFD s = sINVALID_SOCKET_FD
      then Session_Disconnect srv (s\<lparr>mIsSending := False\<rparr>)
      else
        let call = Writev (mSessionFD s) sendPackets in
        (case answers of
           [] \<Rightarrow> (let (s', es) = Session_Disconnect srv (s\<lparr>mIsSending := False\<rparr>) in (s', call # es))
         | WriteErr EAGAIN # _ \<Rightarrow>
             (let (s', es) = Session_Disconnect srv (s\<lparr>mIsSending := False\<rparr>) in (s', call # es))
         | WriteErr EINTR # rest \<Rightarrow>
             (let (s', es) = writev_loop srv self s sendPackets totalSendBytes rest in (s', call # es))
         | WriteErr _ # _ \<Rightarrow>
             (let (s', es) = Session_Disconnect srv (s\<lparr>mIsSending := False\<rparr>);
                  (s'', es') = after_writev srv self s' sendPackets totalSendBytes (-1)
              in (s'', call # es @ es'))
         | WriteDone n # _ \<Rightarrow>
             (let (s', es) = after_writev srv self s sendPackets totalSendBytes (to_int32 n)
              in (s', call # es))))"

declare writev_loop.simps [simp del]

definition Session_DoSend ::
  "'a ServerFds_scheme \<Rightarrow> int \<Rightarrow> Session \<Rightarrow> writev_answer list \<Rightarrow> Session \<times> effect list" where
  "Session_DoSend srv self s answers =
     (let sendPackets = mPackets s; s' = s\<lparr>mPackets := []\<rparr> in
      if sendPackets = [] then (s'\<lparr>mIsSending := False\<rparr>, [])
      else writev_loop srv self s' sendPackets (total_send_bytes 0 sendPackets) answers)"

definition Session_Send ::
  "'a ServerFds_scheme \<Rightarrow> int \<Rightarrow> Session \<Rightarrow> int \<Rightarrow> int \<Rightarrow> writev_answer list \<Rightarrow> Session \<times> effect list" where
  "Session_Send srv self s buffer bufferSize answers =
     (if buffer = 0 \<or> bufferSize \<le> 0 then (s, [])
      else
        let s1 = s\<lparr>mPackets := mPackets s @ [\<lparr>iov_base = buffer, iov_len = bufferSize\<rparr>]\<rparr>;
            wasSending = mIsSending s1;
            s2 = s1\<lparr>mIsSending := True\<rparr>
        in if wasSending then (s2, [])
           else let (s3, es) = Session_DoSend srv self s2 answers
                in (s3, es @ [send_event srv self s3]))"

definition SendJob_Execute ::
  "'a ServerFds_scheme \<Rightarrow> int \<Rightarrow> Session \<Rightarrow> writev_answer list \<Rightarrow> bool \<times> Session \<times> effect list" where
  "SendJob_Execute srv self s answers =
     (let (s', es) = Session_DoSend srv self s answers in (False, s', es))"


section \<open>Ownership of the descriptor\<close>

text \<open>
  \<open>fd_owned fd es fd'\<close>: a stretch of execution that finds the session with descriptor \<open>fd\<close> and
  leaves it with \<open>fd'\<close> while asking the kernel for \<open>es\<close> either keeps the descriptor and closes
  nothing, or invalidates it and closes it exactly once.
\<close>

definition fd_owned :: "SocketFD \<Rightarrow> effect list \<Rightarrow> SocketFD \<Rightarrow> bool" where
  "fd_owned fd es fd' \<longleftrightarrow>
     (fd' = fd \<and> (\<forall>k. closes k es = 0)) \<or>
     (fd' = sINVALID_SOCKET_FD \<and> fd \<noteq> sINVALID_SOCKET_FD \<and> (\<forall>k. closes k es = (if k = fd then 1 else 0)))"

lemma fd_owned_refl [simp]: "fd_owned fd [] fd"
  by (simp add: fd_owned_def)

lemma fd_owned_trans: "fd_owned a es b \<Longrightarrow> fd_owned b es' c \<Longrightarrow> fd_owned a (es @ es') c"
  by (auto simp: fd_owned_def)

lemma fd_owned_quiet: "\<forall>k. closes k es = 0 \<Longrightarrow> fd_owned fd es fd"
  by (simp add: fd_owned_def)

lemma fd_owned_at_most_once: "fd_owned fd es fd' \<Longrightarrow> closes k es \<le> 1"
  by (auto simp: fd_owned_def)

lemma fd_owned_CallOnRecv [simp]: "fd_owned fd (CallOnRecv i bs # es) fd' = fd_owned fd es fd'"
  by (simp add: fd_owned_def)

lemma fd_owned_Writev [simp]: "fd_owned fd (Writev x vs # es) fd' = fd_owned fd es fd'"
  by (simp add: fd_owned_def)

lemma fd_owned_EpollCtl [simp]: "fd_owned fd (EpollCtl a b c d # es) fd' = fd_owned fd es fd'"
  by (simp add: fd_owned_def)

lemma Session_Disconnect_fd_owned:
  "Session_Disconnect srv s = (s', es) \<Longrightarrow> fd_owned (mSessionFD s) es (mSessionFD s')"
  by (auto simp: Session_Disconnect_def Let_def fd_owned_def split: if_splits)

lemma Session_Disconnect_state:
  "Session_Disconnect srv s = (s', es) \<Longrightarrow> s' = s\<lparr>mSessionFD := sINVALID_SOCKET_FD\<rparr>"
  by (auto simp: Session_Disconnect_def Let_def split: if_splits)

lemma after_writev_fd_owned:
  assumes "after_writev srv self s vs t r = (s', es)"
  shows "fd_owned (mSessionFD s) es (mSessionFD s')"
  using assms by (auto simp: after_writev_def Let_def send_event_def fd_owned_def split: if_splits prod.splits)

lemma writev_loop_fd_owned:
  "writev_loop srv self s vs t answers = (s', es) \<Longrightarrow> fd_owned (mSessionFD s) es (mSessionFD s')"
proof (induction srv self s vs t answers arbitrary: s' es rule: writev_loop.induct)
  case (1 srv self s vs t answers)
  have dis: "fd_owned (mSessionFD s) es1 (mSessionFD s1)"
    if "Session_Disconnect srv (s\<lparr>mIsSending := False\<rparr>) = (s1, es1)" for s1 es1
    using Session_Disconnect_fd_owned[OF that] by simp
  have after: "fd_owned (mSessionFD s1) es1 (mSessionFD s2)"
    if "after_writev srv self s1 vs t r = (s2, es1)" for s1 s2 es1 r
    using that by (rule after_writev_fd_owned)
  show ?case
    using "1.prems" dis after "1.IH"
    by (subst (asm) writev_loop.simps)
      (auto simp: Let_def intro: fd_owned_trans[OF _ after]
        split: if_splits list.splits writev_answer.splits errno.splits prod.splits)
qed

lemma Session_DoSend_fd_owned:
  "Session_DoSend srv self s answers = (s', es) \<Longrightarrow> fd_owned (mSessionFD s) es (mSessionFD s')"
  using writev_loop_fd_owned[of srv self "s\<lparr>mPackets := []\<rparr>"]
  by (auto simp: Session_DoSend_def Let_def split: if_splits)

lemma Session_Send_fd_owned:
  assumes "Session_Send srv self s buffer sz answers = (s', es)"
  shows "fd_owned (mSessionFD s) es (mSessionFD s')"
proof -
  have ev: "fd_owned fd [send_event srv self x] fd" for fd x
    by (simp add: fd_owned_def send_event_def)
  have "fd_owned (mSessionFD s) es1 (mSessionFD s1)"
    if "Session_DoSend srv self (s\<lparr>mPackets := p, mIsSending := True\<rparr>) answers = (s1, es1)" for s1 es1 p
    using Session_DoSend_fd_owned[OF that] by simp
  with assms show ?thesis
    by (auto simp: Session_Send_def Let_def intro!: fd_owned_trans ev split: if_splits prod.splits)
qed

text \<open>
  The send side leaves the identity and the receive side of the session alone. The receive job
  belongs to the session, so whatever a send does, the bytes received so far are kept.
\<close>

definition same_receiver :: "Session \<Rightarrow> Session \<Rightarrow> bool" where
  "same_receiver s s' \<longleftrightarrow> mSessionID s' = mSessionID s \<and> mRecvJob s' = mRecvJob s \<and> mIsRecving s' = mIsRecving s"

definition no_OnRecv :: "effect list \<Rightarrow> bool" where
  "no_OnRecv es \<longleftrightarrow> (\<forall>i bs. CallOnRecv i bs \<notin> set es)"

definition send_frame :: "Session \<Rightarrow> effect list \<Rightarrow> Session \<Rightarrow> bool" where
  "send_frame s es s' \<longleftrightarrow> same_receiver s s' \<and> no_OnRecv es"

lemma send_frame_trans: "send_frame a es b \<Longrightarrow> send_frame b es' c \<Longrightarrow> send_frame a (es @ es') c"
  by (auto simp: send_frame_def same_receiver_def no_OnRecv_def)

lemma send_frame_Writev [simp]: "send_frame s (Writev x vs # es) s' = send_frame s es s'"
  by (simp add: send_frame_def no_OnRecv_def)

lemma Session_Disconnect_frame: "Session_Disconnect srv s = (s', es) \<Longrightarrow> send_frame s es s'"
  by (auto simp: Session_Disconnect_def Let_def send_frame_def same_receiver_def no_OnRecv_def split: if_splits)

lemma after_writev_frame: "after_writev srv self s vs t r = (s', es) \<Longrightarrow> send_frame s es s'"
  by (auto simp: after_writev_def Let_def send_event_def send_frame_def same_receiver_def no_OnRecv_def
      split: if_splits prod.splits)

lemma writev_loop_frame:
  "writev_loop srv self s vs t answers = (s', es) \<Longrightarrow> send_frame s es s'"
proof (induction srv self s vs t answers arbitrary: s' es rule: writev_loop.induct)
  case (1 srv self s vs t answers)
  have dis: "send_frame s es1 s1"
    if "Session_Disconnect srv (s\<lparr>mIsSending := False\<rparr>) = (s1, es1)" for s1 es1
    using Session_Disconnect_frame[OF that] by (simp add: send_frame_def same_receiver_def)
  have after: "send_frame s1 es1 s2" if "after_writev srv self s1 vs t r = (s2, es1)" for s1 s2 es1 r
    using that by (rule after_writev_frame)
  show ?case
    using "1.prems" dis after "1.IH"
    by (subst (asm) writev_loop.simps)
      (auto simp: Let_def intro: send_frame_trans[OF _ after]
        split: if_splits list.splits writev_answer.splits errno.splits prod.splits)
qed

lemma Session_DoSend_frame:
  "Session_DoSend srv self s answers = (s', es) \<Longrightarrow> send_frame s es s'"
  using writev_loop_frame[of srv self "s\<lparr>mPackets := []\<rparr>"]
  by (auto simp: Session_DoSend_def Let_def send_frame_def same_receiver_def no_OnRecv_def split: if_splits)

lemma Session_Send_frame:
  assumes "Session_Send srv self s buffer sz answers = (s', es)"
  shows "send_frame s es s'"
proof -
  have send: "send_frame s (es1 @ [send_event srv self x]) s1"
    if "Session_DoSend srv self (s\<lparr>mPackets := p, mIsSending := True\<rparr>) answers = (s1, es1)" for s1 es1 p x
    using Session_DoSend_frame[OF that] by (simp add: send_frame_def same_receiver_def no_OnRecv_def send_event_def)
  show ?thesis
  proof (cases "buffer = 0 \<or> sz \<le> 0 \<or> mIsSending s")
    case True
    with assms show ?thesis
      by (auto simp: Session_Send_def send_frame_def same_receiver_def no_OnRecv_def split: if_splits)
  next
    case False
    with assms show ?thesis
      by (auto simp: Session_Send_def intro: send split: prod.splits)
  qed
qed

section \<open>The send path\<close>

lemma total_send_bytes_sum:
  assumes "0 \<le> acc" and "\<forall>v \<in> set vs. 0 \<le> iov_len v" and "acc + iov_total vs < 2 ^ 31"
  shows "total_send_bytes acc vs = acc + iov_total vs"
  using assms
proof (induction vs arbitrary: acc)
  case Nil
  then show ?case by simp
next
  case (Cons v vs)
  have nonneg: "0 \<le> iov_total vs"
    using Cons.prems(2) by (auto simp: iov_total_def intro!: sum_list_nonneg)
  then have "to_int32 (to_size_t (to_size_t acc + iov_len v)) = acc + iov_len v"
    using Cons.prems by (simp add: to_int32_id in_int32_def)
  with Cons show ?case by simp
qed

lemma writev_loop_complete:
  assumes "mSessionFD s \<noteq> sINVALID_SOCKET_FD" and "to_int32 n = t"
  shows "writev_loop srv self s vs t (replicate k (WriteErr EINTR) @ [WriteDone n])
    = (s\<lparr>mIsSending := False\<rparr>, replicate (Suc k) (Writev (mSessionFD s) vs))"
  using assms
  by (induction k) (simp_all add: writev_loop.simps after_writev_def)


lemma Session_Send_idle:
  assumes "buffer \<noteq> 0" and "0 < sz" and "\<not> mIsSending s"
  shows "Session_Send srv self s buffer sz answers =
    (let ps = mPackets s @ [\<lparr>iov_base = buffer, iov_len = sz\<rparr>];
         (s', es) = writev_loop srv self (s\<lparr>mIsSending := True, mPackets := []\<rparr>) ps (total_send_bytes 0 ps) answers
     in (s', es @ [send_event srv self s']))"
  using assms by (simp add: Session_Send_def Session_DoSend_def Let_def)

lemma Session_Send_whole:
  assumes "buffer \<noteq> 0" and "0 < sz" and "\<not> mIsSending s" and "mSessionFD s \<noteq> sINVALID_SOCKET_FD"
    and "\<forall>v \<in> set (mPackets s). 0 \<le> iov_len v" and "iov_total (mPackets s) + sz < 2 ^ 31"
  defines "ps \<equiv> mPackets s @ [\<lparr>iov_base = buffer, iov_len = sz\<rparr>]"
  shows "Session_Send srv self s buffer sz (replicate k (WriteErr EINTR) @ [WriteDone (iov_total ps)])
    = (s\<lparr>mPackets := [], mIsSending := False\<rparr>,
       replicate (Suc k) (Writev (mSessionFD s) ps) @
       [EpollCtl (mSendPollFD srv) EPOLL_CTL_MOD (mSessionFD s) (Some (SendJobRef self, [EPOLLOUT, EPOLLONESHOT]))])"
proof -
  have "0 \<le> iov_total (mPackets s)"
    using assms(5) by (auto simp: iov_total_def intro!: sum_list_nonneg)
  then have t: "total_send_bytes 0 ps = iov_total ps" "to_int32 (iov_total ps) = iov_total ps"
    using total_send_bytes_sum[of 0 ps] assms(2,5,6)
    by (auto simp: ps_def intro!: to_int32_id simp: in_int32_def)
  show ?thesis
    using writev_loop_complete[of "s\<lparr>mIsSending := True, mPackets := []\<rparr>" "iov_total ps" "iov_total ps" srv self ps k]
      assms(4) t
    by (simp add: Session_Send_idle[OF assms(1-3)] ps_def[symmetric] send_event_def
        Session_GetSendJob_def Server_GetSendPollFD_def del: replicate_Suc)
qed

section \<open>Properties\<close>

text \<open>
  C27. Send on an open, idle session: whatever the number of interrupted system calls, if the
  kernel then takes all bytes, every queued packet and the new one are written in order by one
  vectored write (repeated after each EINTR), the queue is empty, the session is idle again and
  the descriptor is re-armed for output.
\<close>

theorem Session_Send_all_sent:
  assumes "buffer \<noteq> 0" and "0 < sz" and "\<not> mIsSending s" and "mSessionFD s \<noteq> sINVALID_SOCKET_FD"
    and "\<forall>v \<in> set (mPackets s). 0 \<le> iov_len v" and "iov_total (mPackets s) + sz < 2 ^ 31"
  defines "ps \<equiv> mPackets s @ [\<lparr>iov_base = buffer, iov_len = sz\<rparr>]"
  shows "Session_Send srv self s buffer sz (replicate k (WriteErr EINTR) @ [WriteDone (iov_total ps)])
    = (s\<lparr>mPackets := [], mIsSending := False\<rparr>,
       replicate (Suc k) (Writev (mSessionFD s) ps) @
       [EpollCtl (mSendPollFD srv) EPOLL_CTL_MOD (mSessionFD s) (Some (SendJobRef self, [EPOLLOUT, EPOLLONESHOT]))])"
  unfolding ps_def by (rule Session_Send_whole[OF assms(1-6)])

definition session_ex :: Session where
  "session_ex = \<lparr>mSessionID = 0, mSessionFD = 7, mIsRecving = True,
     mRecvJob = \<lparr>mRecvBuffer = \<lparr>mFront = 0, mRear = 0, mBuffer = (\<lambda>_. 0)\<rparr>\<rparr>,
     mIsSending = False, mSendJob = \<lparr>mSendPackets = []\<rparr>, mPackets = []\<rparr>"

definition fds_ex :: ServerFds where
  "fds_ex = \<lparr>mListenFD = 3, mEpollFD = 4, mSendPollFD = 5\<rparr>"

lemmas session_ex_simps = session_ex_def fds_ex_def sINVALID_SOCKET_FD_def

theorem Session_Send_all_sent_witness:
  "Session_Send fds_ex 0 session_ex 4096 10 [WriteErr EINTR, WriteDone 10]
    = (session_ex, [Writev 7 [\<lparr>iov_base = 4096, iov_len = 10\<rparr>], Writev 7 [\<lparr>iov_base = 4096, iov_len = 10\<rparr>],
        EpollCtl 5 EPOLL_CTL_MOD 7 (Some (SendJobRef 0, [EPOLLOUT, EPOLLONESHOT]))])"
  using Session_Send_all_sent[of 4096 10 session_ex fds_ex 0 1]
  by (simp add: session_ex_simps)

text \<open>
  C28. A partial write loses data. When the kernel takes only \<open>k\<close> of the \<open>n\<close> bytes of a packet, the
  send job is given the last \<open>k\<close> bytes instead of the last \<open>n - k\<close>, and the session stays in the
  sending state; when the send job later runs, it writes nothing at all, whatever the kernel
  would answer, and marks the session idle. The bytes from offset \<open>k\<close> on are never written.
\<close>

theorem Session_partial_send_lost:
  assumes "buffer \<noteq> 0" and "0 \<le> k" and "k < n" and "n < 2 ^ 31" and "\<not> mIsSending s" and "mPackets s = []"
    and "mSessionFD s \<noteq> sINVALID_SOCKET_FD"
  shows "\<exists>s1 es. Session_Send srv self s buffer n [WriteDone k] = (s1, es)
    \<and> filter is_writev es = [Writev (mSessionFD s) [\<lparr>iov_base = buffer, iov_len = n\<rparr>]]
    \<and> mSendPackets (mSendJob s1) = [\<lparr>iov_base = buffer + (n - k), iov_len = k\<rparr>]
    \<and> mIsSending s1
    \<and> SendJob_Execute srv self s1 answers = (False, s1\<lparr>mIsSending := False\<rparr>, [])"
proof -
  have sz: "total_send_bytes 0 [\<lparr>iov_base = buffer, iov_len = n\<rparr>] = n" "to_int32 k = k"
      "to_size_t k = k" "to_int32 (to_size_t (n - k)) = n - k" "to_size_t (n - to_size_t (n - k)) = k"
    using total_send_bytes_sum[of 0 "[\<lparr>iov_base = buffer, iov_len = n\<rparr>]"] assms(2-4)
    by (auto simp: to_int32_id in_int32_def)
  then show ?thesis
    using assms
    by (simp add: Session_Send_idle writev_loop.simps after_writev_def Let_def SendJob_Execute_def
        Session_DoSend_def SendJob_Reset_def SendJob_AddPackets_def send_event_def)
qed

theorem Session_partial_send_lost_witness:
  "\<exists>s1 es. Session_Send fds_ex 0 session_ex 4096 10 [WriteDone 3] = (s1, es)
    \<and> filter is_writev es = [Writev 7 [\<lparr>iov_base = 4096, iov_len = 10\<rparr>]]
    \<and> mSendPackets (mSendJob s1) = [\<lparr>iov_base = 4103, iov_len = 3\<rparr>]
    \<and> mIsSending s1
    \<and> SendJob_Execute fds_ex 0 s1 [WriteDone 7] = (False, s1\<lparr>mIsSending := False\<rparr>, [])"
  using Session_partial_send_lost[of 4096 3 10 session_ex fds_ex 0 "[WriteDone 7]"]
  by (simp add: session_ex_simps)

text \<open>
  Send on a session whose descriptor is already invalid drops the queued packets without a
  system call on the socket, goes back to idle, and reports the disconnection exactly when the
  receive side has stopped as well.
\<close>

theorem Session_Send_after_close:
  assumes "buffer \<noteq> 0" and "0 < sz" and "\<not> mIsSending s" and "mSessionFD s = sINVALID_SOCKET_FD"
  shows "Session_Send srv self s buffer sz answers
    = (s\<lparr>mIsSending := False, mPackets := []\<rparr>,
       (if mIsRecving s then [] else [CallOnDisconnected (mSessionID s)]) @ [send_event srv self s])"
  using assms
  by (simp add: Session_Send_idle writev_loop.simps Session_Disconnect_def send_event_def)

theorem Session_Send_after_close_witness:
  "Session_Send fds_ex 0 (session_ex\<lparr>mSessionFD := -1, mIsRecving := False\<rparr>) 4096 10 []
    = (session_ex\<lparr>mSessionFD := -1, mIsRecving := False\<rparr>,
       [CallOnDisconnected 0, send_event fds_ex 0 (session_ex\<lparr>mSessionFD := -1, mIsRecving := False\<rparr>)])"
  using Session_Send_after_close[of 4096 10 "session_ex\<lparr>mSessionFD := -1, mIsRecving := False\<rparr>" fds_ex 0 "[]"]
  by (simp add: session_ex_simps)

end
