(* ===== verification/Recv_Job.thy ===== *)
theory Recv_Job
  imports Session
begin

text \<open>
  The receive job of a session, \<^verbatim>\<open>RecvJob::Execute\<close> and \<^verbatim>\<open>RecvJob::Complete\<close> of
  \<^verbatim>\<open>src/src/lib-core/src/ServerJob.cpp\<close>: the loop that drains a non-blocking socket into the
  session's ring buffer, and the hand-over of the received bytes to the application.
\<close>

section \<open>Operations\<close>

text \<open>
  A call of \<^verbatim>\<open>recv\<close> that returns bytes has stored them at the rear pointer it was given.
\<close>

definition recv_store :: "RecvBuffer \<Rightarrow> Byte list \<Rightarrow> RecvBuffer cxx" where
  "recv_store b bs =
     bindr (memcpy_in BUFFER_SIZE (mBuffer b) (RecvBuffer_GetRearBufferPtr b) bs 0 (int (length bs)))
       (\<lambda>m. RecvBuffer_MoveWriteOffset (b\<lparr>mBuffer := m\<rparr>) (int (length bs)))"

definition set_recv_buffer :: "Session \<Rightarrow> RecvBuffer \<Rightarrow> Session" where
  "set_recv_buffer s b = s\<lparr>mRecvJob := (mRecvJob s)\<lparr>mRecvBuffer := b\<rparr>\<rparr>"

abbreviation recv_buffer :: "Session \<Rightarrow> RecvBuffer" where
  "recv_buffer s \<equiv> mRecvBuffer (mRecvJob s)"

definition stop_receiving :: "'a ServerFds_scheme \<Rightarrow> Session \<Rightarrow> bool \<times> Session \<times> effect list" where
  "stop_receiving srv s =
     (let (s', es) = Session_Disconnect srv (Session_SetReceiveState s False) in (False, s', es))"

fun RecvJob_Execute ::
  "'a ServerFds_scheme \<Rightarrow> Session \<Rightarrow> recv_answer list \<Rightarrow> (bool \<times> Session \<times> effect list) cxx" where
  "RecvJob_Execute srv s answers =
     (if Session_GetSocketFD s = sINVALID_SOCKET_FD then Inr (stop_receiving srv s)
      else case answers of
        [] \<Rightarrow> Inr (True, s, [])
      | RecvData bs # rest \<Rightarrow>
          (if bs = [] then Inr (stop_receiving srv s)
           else bindr (recv_store (recv_buffer s) bs)
                  (\<lambda>b. RecvJob_Execute srv (set_recv_buffer s b) rest))
      | RecvErr e # rest \<Rightarrow>
          (if e = EAGAIN then Inr (True, s, [])
           else if e = EINTR then RecvJob_Execute srv s rest
           else if e = EPIPE \<or> e = ECONNRESET then Inr (stop_receiving srv s)
           else Inr (True, s, [])))"

declare RecvJob_Execute.simps [simp del]

text \<open>
  The application's \<^verbatim>\<open>OnRecv\<close> is an argument: given the session identifier, the bytes it is shown
  and the session, it returns how many bytes it has used and the session as its own calls of
  \<^verbatim>\<open>Send\<close> leave it. The last argument is the answer of \<^verbatim>\<open>epoll_ctl\<close> (true for 0).
\<close>

type_synonym on_recv = "SessionID \<Rightarrow> Byte list \<Rightarrow> Session \<Rightarrow> int \<times> Session \<times> effect list"

definition RecvJob_deliver :: "on_recv \<Rightarrow> Session \<Rightarrow> (Session \<times> effect list) cxx" where
  "RecvJob_deliver OnRecv s =
     (let b = recv_buffer s; usedSize = RecvBuffer_GetUsedSize b in
      if usedSize > 0 then
        let front = RecvBuffer_GetFrontBufferPtr b; inputSize = RecvBuffer_GetDIrectReadSize b in
        if front < 0 \<or> BUFFER_SIZE < front + inputSize then Inl OutOfBounds
        else
          let bytes = bytes_at (mBuffer b) front inputSize;
              (readSize, s1, es) = OnRecv (Session_GetSessionID s) bytes s;
              es' = CallOnRecv (Session_GetSessionID s) bytes # es
          in if readSize > 0 then
               bindr (RecvBuffer_MoveReadOffset (recv_buffer s1) readSize)
                 (\<lambda>b1. Inr (set_recv_buffer s1 (if readSize = usedSize then RecvBuffer_Reset b1 else b1), es'))
             else Inr (s1, es')
      else Inr (s, []))"

definition RecvJob_Complete ::
  "'a ServerFds_scheme \<Rightarrow> int \<Rightarrow> on_recv \<Rightarrow> Session \<Rightarrow> bool \<Rightarrow> (Session \<times> effect list) cxx" where
  "RecvJob_Complete srv self OnRecv s ctlOk =
     bindr (RecvJob_deliver OnRecv s) (\<lambda>(s1, es).
       let ev = EpollCtl (Server_GetEpollFD srv) EPOLL_CTL_MOD (Session_GetSocketFD s1)
                  (Some (Session_GetRecvJob self, [EPOLLONESHOT, EPOLLIN, EPOLLET]))
       in if ctlOk then Inr (s1, es @ [ev])
          else if Session_GetSocketFD s1 \<noteq> sINVALID_SOCKET_FD then Inr (s1, es @ [ev])
          else let (s2, es2) = Session_Disconnect srv (Session_SetReceiveState s1 False)
               in Inr (s2, es @ [ev] @ es2))"

text \<open>
  What the kernel promises: \<^verbatim>\<open>recv\<close> never stores more bytes than the length it was called with,
  which is the contiguous free size at the moment of the call.
\<close>

fun recv_contract :: "RecvBuffer \<Rightarrow> recv_answer list \<Rightarrow> bool" where
  "recv_contract b [] \<longleftrightarrow> True"
| "recv_contract b (RecvErr _ # rest) \<longleftrightarrow> recv_contract b rest"
| "recv_contract b (RecvData bs # rest) \<longleftrightarrow>
     int (length bs) \<le> RecvBuffer_GetDirectWriteSize b \<and>
     (case recv_store b bs of Inl _ \<Rightarrow> True | Inr b' \<Rightarrow> recv_contract b' rest)"

section \<open>Receiving\<close>

lemma recv_store_appends:
  assumes "RecvBuffer_inv b" and "int (length bs) \<le> RecvBuffer_GetDirectWriteSize b"
  shows "\<exists>b'. recv_store b bs = Inr b' \<and> RecvBuffer_inv b' \<and> mFront b' = mFront b
    \<and> mRear b' = mRear b + int (length bs)
    \<and> RecvBuffer_contents b' = RecvBuffer_contents b @ bs"
proof -
  have "int (length bs) \<le> RecvBuffer_GetRemainSize b"
    using assms by (auto simp: RecvBuffer_inv_def RecvBuffer_sizes split: if_splits)
  then have "RecvBuffer_Write b bs (int (length bs))
      = bindr (recv_store b bs) (\<lambda>b'. Inr (True, b'))"
    using assms(2)
    by (auto simp: RecvBuffer_Write_def recv_store_def RecvBuffer_MoveWriteOffset_def RecvBuffer_ptrs
        bindr_def split: sum.splits)
  with RecvBuffer_Write_direct[OF assms(1) _ order_refl assms(2)] show ?thesis
    by (auto simp: bindr_Inr_iff)
qed

lemma set_recv_buffer_simps [simp]:
  "recv_buffer (set_recv_buffer s b) = b"
  "mSessionFD (set_recv_buffer s b) = mSessionFD s"
  "mSessionID (set_recv_buffer s b) = mSessionID s"
  "set_recv_buffer (set_recv_buffer s b) b' = set_recv_buffer s b'"
  "set_recv_buffer s (recv_buffer s) = s"
  by (simp_all add: set_recv_buffer_def)

lemma RecvJob_Execute_fd_owned:
  "RecvJob_Execute srv s answers = Inr (r, s', es) \<Longrightarrow> fd_owned (mSessionFD s) es (mSessionFD s')"
proof (induction srv s answers arbitrary: r s' es rule: RecvJob_Execute.induct)
  case (1 srv s answers)
  have stop: "fd_owned (mSessionFD s) es1 (mSessionFD s1)"
    if "stop_receiving srv s = (q, s1, es1)" for q s1 es1
    using that Session_Disconnect_fd_owned[of srv "Session_SetReceiveState s False"]
    by (auto simp: stop_receiving_def Session_SetReceiveState_def split: prod.splits)
  show ?case
    using "1.prems" stop "1.IH"
    by (subst (asm) RecvJob_Execute.simps)
      (fastforce simp: bindr_Inr_iff Session_GetSocketFD_def
        split: if_splits list.splits recv_answer.splits)
qed

text \<open>Non-empty chunks that the kernel may deliver are stored, and the loop goes on.\<close>

lemma RecvJob_Execute_chunks:
  assumes "mSessionFD s \<noteq> sINVALID_SOCKET_FD" and "RecvBuffer_inv (recv_buffer s)"
    and "recv_contract (recv_buffer s) (map RecvData cs)" and "[] \<notin> set cs"
  shows "\<exists>b. (\<forall>rest. RecvJob_Execute srv s (map RecvData cs @ rest) = RecvJob_Execute srv (set_recv_buffer s b) rest)
    \<and> RecvBuffer_inv b \<and> mFront b = mFront (recv_buffer s)
    \<and> mRear b = mRear (recv_buffer s) + int (length (concat cs))
    \<and> RecvBuffer_contents b = RecvBuffer_contents (recv_buffer s) @ concat cs"
  using assms
proof (induction cs arbitrary: s)
  case Nil
  then show ?case by (intro exI[of _ "recv_buffer s"]) simp
next
  case (Cons c cs)
  from Cons.prems have "int (length c) \<le> RecvBuffer_GetDirectWriteSize (recv_buffer s)" by simp
  from recv_store_appends[OF Cons.prems(2) this] obtain b where
    b: "recv_store (recv_buffer s) c = Inr b" "RecvBuffer_inv b" "mFront b = mFront (recv_buffer s)"
      "mRear b = mRear (recv_buffer s) + int (length c)"
      "RecvBuffer_contents b = RecvBuffer_contents (recv_buffer s) @ c" by blast
  have "RecvJob_Execute srv s (map RecvData (c # cs) @ rest)
      = RecvJob_Execute srv (set_recv_buffer s b) (map RecvData cs @ rest)" for rest
    using Cons.prems b by (subst RecvJob_Execute.simps) (auto simp: Session_GetSocketFD_def)
  with Cons.IH[of "set_recv_buffer s b"] Cons.prems b show ?case by auto
qed

lemma RecvJob_Execute_stores:
  assumes "mSessionFD s \<noteq> sINVALID_SOCKET_FD" and "RecvBuffer_inv (recv_buffer s)"
    and "recv_contract (recv_buffer s) (map RecvData cs)" and "[] \<notin> set cs"
  shows "\<exists>b. RecvJob_Execute srv s (map RecvData cs) = Inr (True, set_recv_buffer s b, [])
    \<and> RecvBuffer_inv b \<and> RecvBuffer_contents b = RecvBuffer_contents (recv_buffer s) @ concat cs"
proof -
  from RecvJob_Execute_chunks[OF assms, of srv] obtain b where
    b: "\<forall>rest. RecvJob_Execute srv s (map RecvData cs @ rest) = RecvJob_Execute srv (set_recv_buffer s b) rest"
      "RecvBuffer_inv b" "RecvBuffer_contents b = RecvBuffer_contents (recv_buffer s) @ concat cs" by blast
  from spec[OF b(1), of "[]"] b assms(1) show ?thesis by (auto simp: RecvJob_Execute.simps Session_GetSocketFD_def)
qed

section \<open>Delivery\<close>

text \<open>
  What the server expects of an application's \<^verbatim>\<open>OnRecv\<close>: it cannot reach the receive buffer, and
  the count it returns is \<open>consume bytes\<close>, at most the number of bytes it was shown. \<open>consumed\<close>
  reads the bytes an application has used off the log.
\<close>

fun consumed :: "(Byte list \<Rightarrow> nat) \<Rightarrow> effect list \<Rightarrow> Byte list" where
  "consumed f [] = []"
| "consumed f (CallOnRecv i bs # es) = take (f bs) bs @ consumed f es"
| "consumed f (_ # es) = consumed f es"

lemma consumed_append [simp]: "consumed f (es @ es') = consumed f es @ consumed f es'"
  by (induction f es rule: consumed.induct) auto

lemma consumed_ctl [simp]:
  "consumed f (EpollCtl a b c d # es) = consumed f es"
  "consumed f (CloseFD a # es) = consumed f es"
  "consumed f (CallOnDisconnected i # es) = consumed f es"
  by simp_all

locale recv_app =
  fixes OnRecv :: on_recv and consume :: "Byte list \<Rightarrow> nat"
  assumes keeps_buffer: "OnRecv i bs s = (k, s', es) \<Longrightarrow> recv_buffer s' = recv_buffer s"
    and keeps_id: "OnRecv i bs s = (k, s', es) \<Longrightarrow> mSessionID s' = mSessionID s"
    and returns_count: "OnRecv i bs s = (k, s', es) \<Longrightarrow> k = int (consume bs)"
    and count_bound: "consume bs \<le> length bs"
    and calls_no_OnRecv: "OnRecv i bs s = (k, s', es) \<Longrightarrow> consumed f es = []"
begin

lemma deliver_spec:
  assumes inv: "RecvBuffer_inv (recv_buffer s)"
  shows "\<exists>s' es. RecvJob_deliver OnRecv s = Inr (s', es) \<and> RecvBuffer_inv (recv_buffer s')
    \<and> mSessionID s' = mSessionID s
    \<and> consumed consume es @ RecvBuffer_contents (recv_buffer s') = RecvBuffer_contents (recv_buffer s)"
proof (cases "RecvBuffer_GetUsedSize (recv_buffer s) > 0")
  case False
  then show ?thesis using inv by (simp add: RecvJob_deliver_def)
next
  case True
  let ?b = "recv_buffer s"
  let ?n = "RecvBuffer_GetDIrectReadSize ?b"
  let ?bytes = "bytes_at (mBuffer ?b) (mFront ?b) ?n"
  obtain k s1 es where app: "OnRecv (mSessionID s) ?bytes s = (k, s1, es)" by (cases rule: prod_cases3)
  note laws = keeps_buffer[OF app] returns_count[OF app] calls_no_OnRecv[OF app] keeps_id[OF app]
  have bnd: "\<not> (mFront ?b < 0 \<or> BUFFER_SIZE < mFront ?b + ?n)" and n: "0 \<le> ?n" "?n \<le> RecvBuffer_GetUsedSize ?b"
    using inv by (auto simp: RecvBuffer_inv_def RecvBuffer_sizes)
  have kn: "0 \<le> k" "k \<le> ?n" using laws(2) count_bound[of ?bytes] n by auto
  then have ku: "k \<le> RecvBuffer_GetUsedSize ?b" using n by simp
  have pre: "take (nat k) ?bytes = take (nat k) (RecvBuffer_contents ?b)"
    using kn inv by (auto simp: RecvBuffer_contents_def take_bytes_at RecvBuffer_sizes RecvBuffer_inv_def min_def)
  note adv = RecvBuffer_advance_front[OF inv kn(1) ku]
  define b1 where "b1 = ?b\<lparr>mFront := crem (mFront ?b + k) BUFFER_SIZE\<rparr>"
  have mv: "RecvBuffer_MoveReadOffset (recv_buffer s1) k = Inr b1"
    using adv(1) laws(1) by (simp add: RecvBuffer_MoveReadOffset_def b1_def)
  have reset: "RecvBuffer_contents (RecvBuffer_Reset b1) = drop (nat k) (RecvBuffer_contents ?b)
      \<and> RecvBuffer_inv (RecvBuffer_Reset b1)" if "k = RecvBuffer_GetUsedSize ?b"
    using that RecvBuffer_length_contents[OF inv]
    by (simp add: RecvBuffer_Reset_def RecvBuffer_contents_def[of "b\<lparr>mFront := 0, mRear := 0\<rparr>" for b]
        RecvBuffer_inv_def BUFFER_SIZE_def)
  have "consumed consume (CallOnRecv (mSessionID s) ?bytes # es) = take (nat k) (RecvBuffer_contents ?b)"
    using pre laws(2,3) by simp
  with app bnd True mv reset adv(2,3)[folded b1_def] laws(1,4) kn(1) inv show ?thesis
    by (auto simp: RecvJob_deliver_def Let_def RecvBuffer_ptrs Session_GetSessionID_def)
qed

lemma complete_spec:
  assumes "RecvBuffer_inv (recv_buffer s)"
  shows "\<exists>s' es. RecvJob_Complete srv self OnRecv s ctlOk = Inr (s', es) \<and> RecvBuffer_inv (recv_buffer s')
    \<and> mSessionID s' = mSessionID s
    \<and> consumed consume es @ RecvBuffer_contents (recv_buffer s') = RecvBuffer_contents (recv_buffer s)"
  using deliver_spec[OF assms]
  by (auto simp: RecvJob_Complete_def Session_Disconnect_def Session_SetReceiveState_def Let_def)

end

text \<open>
  Whenever the buffer holds bytes, the first thing a delivery does is to show the application a
  non-empty prefix of them, under the identifier the session has now.
\<close>

lemma RecvJob_deliver_calls:
  assumes "RecvJob_deliver OnRecv s = Inr (s', es)" and "RecvBuffer_inv (recv_buffer s)"
    and "RecvBuffer_contents (recv_buffer s) \<noteq> []"
  shows "\<exists>bs rest es'. es = CallOnRecv (mSessionID s) bs # es' \<and> bs \<noteq> []
    \<and> RecvBuffer_contents (recv_buffer s) = bs @ rest"
proof -
  let ?b = "recv_buffer s"
  let ?bytes = "bytes_at (mBuffer ?b) (mFront ?b) (RecvBuffer_GetDIrectReadSize ?b)"
  have used: "RecvBuffer_GetUsedSize ?b > 0"
    using RecvBuffer_length_contents[OF assms(2)] assms(3) by (metis length_greater_0_conv of_nat_0_less_iff)
  then have "length ?bytes > 0" and pre: "\<exists>rest. RecvBuffer_contents ?b = ?bytes @ rest"
    using assms(2) by (auto simp: RecvBuffer_sizes RecvBuffer_inv_def RecvBuffer_contents_def)
  moreover have "\<exists>es'. es = CallOnRecv (mSessionID s) ?bytes # es'"
    using assms(1) used
    by (auto simp: RecvJob_deliver_def Let_def RecvBuffer_ptrs Session_GetSessionID_def bindr_Inr_iff
        split: if_splits prod.splits)
  ultimately show ?thesis by (metis length_greater_0_conv)
qed

text \<open>
  The worker runs a job as \<^verbatim>\<open>if (job->Execute()) job->Complete()\<close>. A round of a receive job is one
  such run, with the kernel's answers to its system calls.
\<close>

definition RecvJob_run ::
  "'a ServerFds_scheme \<Rightarrow> int \<Rightarrow> on_recv \<Rightarrow> Session \<Rightarrow> recv_answer list \<Rightarrow> bool \<Rightarrow> (Session \<times> effect list) cxx" where
  "RecvJob_run srv self OnRecv s answers ctlOk =
     bindr (RecvJob_Execute srv s answers) (\<lambda>(r, s1, es).
       if r then bindr (RecvJob_Complete srv self OnRecv s1 ctlOk) (\<lambda>(s2, es2). Inr (s2, es @ es2))
       else Inr (s1, es))"

fun RecvJob_rounds ::
  "'a ServerFds_scheme \<Rightarrow> int \<Rightarrow> on_recv \<Rightarrow> Session \<Rightarrow> (Byte list list \<times> bool) list \<Rightarrow> (Session \<times> effect list) cxx" where
  "RecvJob_rounds srv self OnRecv s [] = Inr (s, [])"
| "RecvJob_rounds srv self OnRecv s ((cs, ctlOk) # rs) =
     bindr (RecvJob_run srv self OnRecv s (map RecvData cs) ctlOk) (\<lambda>(s1, es1).
       bindr (RecvJob_rounds srv self OnRecv s1 rs) (\<lambda>(s2, es2). Inr (s2, es1 @ es2)))"

fun rounds_ok ::
  "'a ServerFds_scheme \<Rightarrow> int \<Rightarrow> on_recv \<Rightarrow> Session \<Rightarrow> (Byte list list \<times> bool) list \<Rightarrow> bool" where
  "rounds_ok srv self OnRecv s [] \<longleftrightarrow> True"
| "rounds_ok srv self OnRecv s ((cs, ctlOk) # rs) \<longleftrightarrow>
     mSessionFD s \<noteq> sINVALID_SOCKET_FD \<and> [] \<notin> set cs \<and> recv_contract (recv_buffer s) (map RecvData cs) \<and>
     (case RecvJob_run srv self OnRecv s (map RecvData cs) ctlOk of
        Inl _ \<Rightarrow> True | Inr (s1, _) \<Rightarrow> rounds_ok srv self OnRecv s1 rs)"

context recv_app
begin

lemma run_spec:
  assumes "mSessionFD s \<noteq> sINVALID_SOCKET_FD" and "RecvBuffer_inv (recv_buffer s)"
    and "recv_contract (recv_buffer s) (map RecvData cs)" and "[] \<notin> set cs"
  shows "\<exists>s' es. RecvJob_run srv self OnRecv s (map RecvData cs) ctlOk = Inr (s', es)
    \<and> RecvBuffer_inv (recv_buffer s')
    \<and> consumed consume es @ RecvBuffer_contents (recv_buffer s')
        = RecvBuffer_contents (recv_buffer s) @ concat cs"
proof -
  obtain b where b: "RecvJob_Execute srv s (map RecvData cs) = Inr (True, set_recv_buffer s b, [])"
      "RecvBuffer_inv b" "RecvBuffer_contents b = RecvBuffer_contents (recv_buffer s) @ concat cs"
    using RecvJob_Execute_stores[OF assms] by blast
  have "RecvBuffer_inv (recv_buffer (set_recv_buffer s b))" using b(2) by simp
  from complete_spec[OF this, of srv self ctlOk] b show ?thesis
    by (auto simp: RecvJob_run_def)
qed

lemma rounds_spec:
  assumes "RecvBuffer_inv (recv_buffer s)" and "rounds_ok srv self OnRecv s rs"
  shows "\<exists>s' es. RecvJob_rounds srv self OnRecv s rs = Inr (s', es)
    \<and> RecvBuffer_inv (recv_buffer s')
    \<and> consumed consume es @ RecvBuffer_contents (recv_buffer s')
        = RecvBuffer_contents (recv_buffer s) @ concat (concat (map fst rs))"
  using assms
proof (induction rs arbitrary: s)
  case Nil
  then show ?case by simp
next
  case (Cons r rs)
  obtain cs ctlOk where r: "r = (cs, ctlOk)" by (cases r)
  with Cons.prems run_spec[of s cs srv self ctlOk] obtain s1 es1 where
    s1: "RecvJob_run srv self OnRecv s (map RecvData cs) ctlOk = Inr (s1, es1)"
      "RecvBuffer_inv (recv_buffer s1)"
      "consumed consume es1 @ RecvBuffer_contents (recv_buffer s1)
        = RecvBuffer_contents (recv_buffer s) @ concat cs"
    by auto
  with Cons.prems r have "rounds_ok srv self OnRecv s1 rs" by simp
  from Cons.IH[OF s1(2) this] obtain s2 es2 where
    s2: "RecvJob_rounds srv self OnRecv s1 rs = Inr (s2, es2)" "RecvBuffer_inv (recv_buffer s2)"
      "consumed consume es2 @ RecvBuffer_contents (recv_buffer s2)
        = RecvBuffer_contents (recv_buffer s1) @ concat (concat (map fst rs))" by blast
  have "consumed consume (es1 @ es2) @ RecvBuffer_contents (recv_buffer s2)
      = (consumed consume es1 @ RecvBuffer_contents (recv_buffer s1)) @ concat (concat (map fst rs))"
    using s2(3) by simp
  also have "\<dots> = RecvBuffer_contents (recv_buffer s) @ concat (concat (map fst (r # rs)))"
    using s1(3) r by simp
  finally show ?case using r s1(1) s2(1,2) by auto
qed

end


section \<open>The echo application\<close>

text \<open>
  \<^verbatim>\<open>TestServer::OnRecv\<close> of \<^verbatim>\<open>src/tests/performance/test_server.cpp\<close> sends the bytes back from the
  address it was given and reports all of them as used. \<^verbatim>\<open>Server::Send\<close> finds the session that is
  being served; \<open>buffer\<close> is the address of the bytes and \<open>answers\<close> what the kernel says to the write.
\<close>

definition TestServer_OnRecv :: "'a ServerFds_scheme \<Rightarrow> int \<Rightarrow> int \<Rightarrow> writev_answer list \<Rightarrow> on_recv" where
  "TestServer_OnRecv srv self buffer answers sessionID bytes s =
     (let inputSize = int (length bytes);
          (s', es) = Session_Send srv self s buffer inputSize answers
      in (inputSize, s', es))"

lemma no_OnRecv_consumed: "no_OnRecv es \<Longrightarrow> consumed f es = []"
  by (induction f es rule: consumed.induct) (auto simp: no_OnRecv_def)

text \<open>An application that only uses the session's own operations also keeps its descriptor owned.\<close>

locale recv_app_fd = recv_app +
  assumes keeps_fd_owned: "OnRecv i bs s = (k, s', es) \<Longrightarrow> fd_owned (mSessionFD s) es (mSessionFD s')"
begin

lemma deliver_fd_owned:
  "RecvJob_deliver OnRecv s = Inr (s', es) \<Longrightarrow> fd_owned (mSessionFD s) es (mSessionFD s')"
  by (auto simp: RecvJob_deliver_def Let_def bindr_Inr_iff dest!: keeps_fd_owned
      split: if_splits prod.splits)

lemma complete_fd_owned:
  assumes "RecvJob_Complete srv self OnRecv s ctlOk = Inr (s', es)"
  shows "fd_owned (mSessionFD s) es (mSessionFD s')"
proof -
  obtain s1 es1 where d: "RecvJob_deliver OnRecv s = Inr (s1, es1)"
    using assms by (auto simp: RecvJob_Complete_def bindr_Inr_iff)
  have "fd_owned (mSessionFD s1) es2 (mSessionFD s2)"
    if "Session_Disconnect srv (Session_SetReceiveState s1 False) = (s2, es2)" for s2 es2
    using Session_Disconnect_fd_owned[OF that] by (simp add: Session_SetReceiveState_def)
  then show ?thesis
    using assms d deliver_fd_owned[OF d]
    by (auto simp: RecvJob_Complete_def Let_def intro!: fd_owned_trans split: if_splits prod.splits)
qed

lemma run_fd_owned:
  "RecvJob_run srv self OnRecv s answers ctlOk = Inr (s', es) \<Longrightarrow> fd_owned (mSessionFD s) es (mSessionFD s')"
  by (auto simp: RecvJob_run_def bindr_Inr_iff intro: fd_owned_trans[OF RecvJob_Execute_fd_owned complete_fd_owned]
      dest: RecvJob_Execute_fd_owned split: if_splits)

end

interpretation echo: recv_app_fd "TestServer_OnRecv srv self buffer answers" length
proof
  fix i bs s k s' es and f :: "Byte list \<Rightarrow> nat"
  assume "TestServer_OnRecv srv self buffer answers i bs s = (k, s', es)"
  then have k: "k = int (length bs)" and snd: "Session_Send srv self s buffer (int (length bs)) answers = (s', es)"
    by (auto simp: TestServer_OnRecv_def Let_def split: prod.splits)
  from Session_Send_frame[OF snd] show "recv_buffer s' = recv_buffer s" "mSessionID s' = mSessionID s"
      "consumed f es = []"
    by (auto simp: send_frame_def same_receiver_def no_OnRecv_consumed)
  from k show "k = int (length bs)" .
  from Session_Send_fd_owned[OF snd] show "fd_owned (mSessionFD s) es (mSessionFD s')" .
qed simp

section \<open>Operations on a session in sequence\<close>

datatype session_op = SendOp int int "writev_answer list" | SendJobOp "writev_answer list"
  | RecvJobOp "recv_answer list" bool

fun session_step :: "'a ServerFds_scheme \<Rightarrow> int \<Rightarrow> on_recv \<Rightarrow> Session \<Rightarrow> session_op \<Rightarrow> (Session \<times> effect list) cxx" where
  "session_step srv self OnRecv s (SendOp buffer sz answers) = Inr (Session_Send srv self s buffer sz answers)"
| "session_step srv self OnRecv s (SendJobOp answers) = Inr (snd (SendJob_Execute srv self s answers))"
| "session_step srv self OnRecv s (RecvJobOp answers ctlOk) = RecvJob_run srv self OnRecv s answers ctlOk"

fun session_run :: "'a ServerFds_scheme \<Rightarrow> int \<Rightarrow> on_recv \<Rightarrow> Session \<Rightarrow> session_op list \<Rightarrow> (Session \<times> effect list) cxx" where
  "session_run srv self OnRecv s [] = Inr (s, [])"
| "session_run srv self OnRecv s (a # ops) =
     bindr (session_step srv self OnRecv s a) (\<lambda>(s1, es1).
       bindr (session_run srv self OnRecv s1 ops) (\<lambda>(s2, es2). Inr (s2, es1 @ es2)))"

context recv_app_fd
begin

lemma session_step_fd_owned:
  "session_step srv self OnRecv s a = Inr (s', es) \<Longrightarrow> fd_owned (mSessionFD s) es (mSessionFD s')"
  by (cases a) (auto simp: SendJob_Execute_def intro: Session_Send_fd_owned Session_DoSend_fd_owned run_fd_owned
      split: prod.splits)

lemma session_run_fd_owned:
  "session_run srv self OnRecv s ops = Inr (s', es) \<Longrightarrow> fd_owned (mSessionFD s) es (mSessionFD s')"
  by (induction ops arbitrary: s s' es)
    (auto simp: bindr_Inr_iff intro: fd_owned_trans[OF session_step_fd_owned])

end


section \<open>Properties\<close>

text \<open>
  The receive path is a byte stream. For any application that reports how many of the shown
  bytes it used, and any sequence of runs of a session's receive job in which the kernel stores
  no more than it was asked to, no run leaves defined behaviour, the buffer stays well formed, and
  the bytes the application has used, followed by the bytes still buffered, are exactly the bytes
  buffered at the start followed by everything received, in order.
\<close>

theorem RecvJob_stream_preserved:
  assumes "recv_app OnRecv consume"
    and "RecvBuffer_inv (recv_buffer s)" and "rounds_ok srv self OnRecv s rs"
  shows "\<exists>s' es. RecvJob_rounds srv self OnRecv s rs = Inr (s', es)
    \<and> RecvBuffer_inv (recv_buffer s')
    \<and> consumed consume es @ RecvBuffer_contents (recv_buffer s')
        = RecvBuffer_contents (recv_buffer s) @ concat (concat (map fst rs))"
  using assms(2,3) by (rule recv_app.rounds_spec[OF assms(1)])

theorem RecvJob_stream_preserved_witness:
  "\<exists>s' es. RecvJob_rounds fds_ex 0 (TestServer_OnRecv fds_ex 0 4096 [WriteDone 3]) session_ex
        [([[1, 2], [3]], True)] = Inr (s', es)
    \<and> RecvBuffer_inv (recv_buffer s')
    \<and> consumed length es @ RecvBuffer_contents (recv_buffer s')
        = RecvBuffer_contents (recv_buffer session_ex) @ concat (concat (map fst [([[1, 2], [3]], True)]))"
proof (rule RecvJob_stream_preserved)
  show "recv_app (TestServer_OnRecv fds_ex 0 4096 [WriteDone 3]) length"
    by (rule echo.recv_app_axioms)
  show "RecvBuffer_inv (recv_buffer session_ex)"
    by (simp add: session_ex_def RecvBuffer_inv_def BUFFER_SIZE_def)
  show "rounds_ok fds_ex 0 (TestServer_OnRecv fds_ex 0 4096 [WriteDone 3]) session_ex [([[1, 2], [3]], True)]"
    by (simp add: session_ex_simps recv_store_def RecvBuffer_sizes RecvBuffer_ptrs RecvBuffer_MoveWriteOffset_def
        memcpy_in_def BUFFER_SIZE_def add32_def in_int32_def split: sum.split prod.split)
qed

text \<open>
  A session whose buffer has filled up to the last slot is disconnected while its peer is
  still sending: the next \<^verbatim>\<open>recv\<close> is asked for zero bytes, so all the kernel may return is zero,
  and zero is taken for the end of the stream. The descriptor is closed, no \<^verbatim>\<open>OnRecv\<close> is called and
  the buffered bytes are left undelivered, even when the front of the buffer is free.
\<close>

theorem RecvJob_full_buffer_disconnects:
  assumes "mSessionFD s \<noteq> sINVALID_SOCKET_FD" and "RecvBuffer_inv (recv_buffer s)"
    and "mRear (recv_buffer s) = BUFFER_SIZE - 1"
    and "recv_contract (recv_buffer s) (RecvData bs # rest)"
  shows "\<exists>s' es. RecvJob_run srv self OnRecv s (RecvData bs # rest) ctlOk = Inr (s', es)
    \<and> mSessionFD s' = sINVALID_SOCKET_FD \<and> closes (mSessionFD s) es = 1 \<and> no_OnRecv es
    \<and> RecvBuffer_contents (recv_buffer s') = RecvBuffer_contents (recv_buffer s)"
proof -
  have "bs = []"
    using assms(2-4) by (auto simp: RecvBuffer_GetDirectWriteSize_def RecvBuffer_inv_def split: if_splits)
  then show ?thesis
    using assms(1)
    by (auto simp: RecvJob_run_def RecvJob_Execute.simps Session_GetSocketFD_def stop_receiving_def
        Session_SetReceiveState_def Session_Disconnect_def Let_def no_OnRecv_def)
qed

theorem RecvJob_full_buffer_disconnects_witness:
  "\<exists>s' es. RecvJob_run fds_ex 0 (TestServer_OnRecv fds_ex 0 4096 [])
        (set_recv_buffer session_ex \<lparr>mFront = 1000, mRear = 1048575, mBuffer = (\<lambda>_. 0)\<rparr>) [RecvData []] True = Inr (s', es)
    \<and> mSessionFD s' = sINVALID_SOCKET_FD \<and> closes 7 es = 1 \<and> no_OnRecv es
    \<and> RecvBuffer_contents (recv_buffer s')
        = RecvBuffer_contents \<lparr>mFront = 1000, mRear = 1048575, mBuffer = (\<lambda>_. 0)\<rparr>"
  using RecvJob_full_buffer_disconnects
    [of "set_recv_buffer session_ex \<lparr>mFront = 1000, mRear = 1048575, mBuffer = (\<lambda>_. 0)\<rparr>" "[]" "[]"
      fds_ex 0 "TestServer_OnRecv fds_ex 0 4096 []" True]
  by (simp add: session_ex_simps set_recv_buffer_def RecvBuffer_inv_def RecvBuffer_sizes BUFFER_SIZE_def
      split: sum.split)

text \<open>
  C29. What a client sends right before it closes the connection can get lost. When the receive loop
  stores bytes and then, in the same run, finds the end of the stream, it disconnects the session and
  \<open>Complete\<close> is not called: the bytes stay in the buffer and \<open>OnRecv\<close> does not see them, in this run or
  in any later one.
\<close>

theorem RecvJob_close_drops_bytes:
  assumes "mSessionFD s \<noteq> sINVALID_SOCKET_FD" and "RecvBuffer_inv (recv_buffer s)"
    and "recv_contract (recv_buffer s) (map RecvData cs)" and "[] \<notin> set cs"
  shows "\<exists>s' es. RecvJob_run srv self OnRecv s (map RecvData cs @ [RecvData []]) ctlOk = Inr (s', es)
    \<and> mSessionFD s' = sINVALID_SOCKET_FD \<and> no_OnRecv es
    \<and> RecvBuffer_contents (recv_buffer s') = RecvBuffer_contents (recv_buffer s) @ concat cs
    \<and> (\<forall>answers ctlOk' s'' es'. RecvJob_run srv self OnRecv s' answers ctlOk' = Inr (s'', es') \<longrightarrow> no_OnRecv es')"
proof -
  from RecvJob_Execute_chunks[OF assms, of srv] obtain b where
    b: "\<forall>rest. RecvJob_Execute srv s (map RecvData cs @ rest) = RecvJob_Execute srv (set_recv_buffer s b) rest"
      "RecvBuffer_contents b = RecvBuffer_contents (recv_buffer s) @ concat cs" by blast
  from spec[OF b(1), of "[RecvData []]"] b(2) assms(1) show ?thesis
    by (auto simp: RecvJob_run_def RecvJob_Execute.simps Session_GetSocketFD_def stop_receiving_def
        Session_SetReceiveState_def Session_Disconnect_def Let_def no_OnRecv_def split: if_splits)
qed

theorem RecvJob_close_drops_bytes_witness:
  "\<exists>s' es. RecvJob_run fds_ex 0 (TestServer_OnRecv fds_ex 0 4096 []) session_ex [RecvData [1, 2], RecvData []] True = Inr (s', es)
    \<and> no_OnRecv es \<and> RecvBuffer_contents (recv_buffer s') = [1, 2]"
proof -
  have "mSessionFD session_ex \<noteq> sINVALID_SOCKET_FD" "RecvBuffer_inv (recv_buffer session_ex)"
      "recv_contract (recv_buffer session_ex) (map RecvData [[1, 2]])" "[] \<notin> set [[1 :: Byte, 2]]"
    by (simp_all add: session_ex_simps RecvBuffer_inv_def RecvBuffer_sizes BUFFER_SIZE_def split: sum.split)
  from RecvJob_close_drops_bytes[OF this, of fds_ex 0 "TestServer_OnRecv fds_ex 0 4096 []" True] obtain s' es where
    "RecvJob_run fds_ex 0 (TestServer_OnRecv fds_ex 0 4096 []) session_ex [RecvData [1, 2], RecvData []] True = Inr (s', es)"
    "no_OnRecv es" "RecvBuffer_contents (recv_buffer s') = RecvBuffer_contents (recv_buffer session_ex) @ [1, 2]"
    by auto
  moreover have "RecvBuffer_contents (recv_buffer session_ex) = []"
    by (simp add: session_ex_def RecvBuffer_contents_def bytes_at_def)
  ultimately show ?thesis by auto
qed



end
