(* ===== verification/Session_Group.thy ===== *)
theory Session_Group
  imports Recv_Job
begin

text \<open>
  The table of sessions, \<^verbatim>\<open>class SessionGroup\<close> of
  \<^verbatim>\<open>src/src/lib-core/src/Network/SessionGroup.cpp\<close>: session identifiers that pack a slot index and a
  running number, a stack of free slots, and the three operations of the table. The counter
  \<^verbatim>\<open>sUniqueNumber\<close> is a variable of the file and a field of the model's state.
\<close>

unbundle bit_operations_syntax

section \<open>Identifiers\<close>

definition sSessionUnqueMask :: Int64 where
  "sSessionUnqueMask = 0xFFFFFFFFFFFF0000"

definition sSessionIndexMask :: Int64 where
  "sSessionIndexMask = 0x000000000000FFFF"

text \<open>The masked value is at most 65535, so storing it in an Int32 does not change it.\<close>

definition GetIndex :: "SessionID \<Rightarrow> int" where
  "GetIndex sessionID = to_int32 (sint (sessionID AND sSessionIndexMask))"

text \<open>The shift of a signed number keeps its sign.\<close>

definition GetUniqueNumber :: "SessionID \<Rightarrow> Int64" where
  "GetUniqueNumber sessionID = signed_drop_bit 48 (sessionID AND sSessionUnqueMask)"

definition make_session_id :: "Int64 \<Rightarrow> int \<Rightarrow> SessionID" where
  "make_session_id uniqueNumber index = push_bit 48 uniqueNumber OR word_of_int index"

section \<open>State and operations\<close>

record SessionGroup =
  mMaxSession :: int
  mSessionVector :: "Session list"
  mSessionIndexPool :: "int list"
  sUniqueNumber :: Int64

text \<open>The loop of the constructor pushes the indices from \<open>maxSessions\<close> down to 0.\<close>

fun push_indices :: "nat \<Rightarrow> int list \<Rightarrow> int list" where
  "push_indices 0 pool = 0 # pool"
| "push_indices (Suc n) pool = push_indices n (int (Suc n) # pool)"

text \<open>
  \<open>storage\<close> is what the memory of the vector held before its sessions were default-constructed.
  A count that is not positive leaves the pool empty (negative) or is rejected by the vector; the
  server uses 5000.
\<close>

definition SessionGroup_ctor :: "Session list \<Rightarrow> Int64 \<Rightarrow> SessionGroup" where
  "SessionGroup_ctor storage unique =
     \<lparr>mMaxSession = int (length storage),
      mSessionVector = map Session_default_ctor storage,
      mSessionIndexPool = push_indices (length storage) [],
      sUniqueNumber = unique\<rparr>"

definition SessionGroup_AllocSession :: "SessionGroup \<Rightarrow> int \<times> SessionGroup" where
  "SessionGroup_AllocSession g =
     (case mSessionIndexPool g of
        [] \<Rightarrow> (sINVALID_ID, g)
      | index # rest \<Rightarrow> (index, g\<lparr>mSessionIndexPool := rest\<rparr>))"

definition SessionGroup_FreeSession :: "SessionGroup \<Rightarrow> int \<Rightarrow> SessionGroup" where
  "SessionGroup_FreeSession g index = g\<lparr>mSessionIndexPool := index # mSessionIndexPool g\<rparr>"

text \<open>\<^verbatim>\<open>mSessionVector[index]\<close>: outside the vector the access is undefined.\<close>

definition session_at :: "SessionGroup \<Rightarrow> int \<Rightarrow> Session cxx" where
  "session_at g index =
     (if index < 0 \<or> int (length (mSessionVector g)) \<le> index then Inl OutOfBounds
      else Inr (mSessionVector g ! nat index))"

definition SessionGroup_AddSession :: "SessionGroup \<Rightarrow> SocketFD \<Rightarrow> (SessionID \<times> SessionGroup) cxx" where
  "SessionGroup_AddSession g clientFD =
     (let (index, g1) = SessionGroup_AllocSession g;
          uniqueNumber = sUniqueNumber g1;
          g2 = g1\<lparr>sUniqueNumber := uniqueNumber + 1\<rparr>;
          sessionID = make_session_id uniqueNumber index
      in bindr (session_at g2 index) (\<lambda>session.
           Inr (sessionID, g2\<lparr>mSessionVector := (mSessionVector g2)[nat index := Session_ctor session sessionID clientFD]\<rparr>)))"

definition SessionGroup_DeleteSession :: "SessionGroup \<Rightarrow> SessionID \<Rightarrow> (bool \<times> SessionGroup) cxx" where
  "SessionGroup_DeleteSession g sessionID =
     (let index = GetIndex sessionID in
      bindr (session_at g index) (\<lambda>session.
        if Session_GetSessionID session \<noteq> sessionID then Inr (False, g)
        else Inr (True, SessionGroup_FreeSession g index)))"

text \<open>The result is the position of the session, the model of the returned pointer.\<close>

definition SessionGroup_GetSession :: "SessionGroup \<Rightarrow> SessionID \<Rightarrow> int option cxx" where
  "SessionGroup_GetSession g sessionID =
     (let index = GetIndex sessionID in
      bindr (session_at g index) (\<lambda>session.
        if Session_GetSessionID session \<noteq> sessionID then Inr None else Inr (Some index)))"

section \<open>Identifier arithmetic\<close>

lemma index_mask: "sSessionIndexMask = mask 16"
  by (simp add: sSessionIndexMask_def mask_eq_exp_minus_1)

lemma take_bit_index:
  assumes "0 \<le> index" and "index < 2 ^ 16"
  shows "take_bit 16 (word_of_int index :: 64 word) = word_of_int index"
proof -
  have "uint (word_of_int index :: 64 word) = index"
    using assms by (simp add: uint_word_of_int)
  with assms show ?thesis
    by (simp add: word_uint_eq_iff unsigned_take_bit_eq take_bit_int_eq_self)
qed

lemma make_session_id_low:
  assumes "0 \<le> index" and "index < 2 ^ 16"
  shows "make_session_id u index AND mask 16 = word_of_int index"
proof -
  have "take_bit 16 (push_bit 48 u) = 0"
    by (rule bit_word_eqI) (simp add: bit_simps)
  then show ?thesis
    using take_bit_index[OF assms]
    by (simp add: make_session_id_def take_bit_eq_mask [symmetric])
qed

lemma sint_small_index:
  assumes "0 \<le> index" and "index < 2 ^ 16"
  shows "sint (word_of_int index :: 64 word) = index"
  using assms by (simp add: sint_uint signed_take_bit_int_eq_self uint_word_of_int)

lemma GetIndex_make_session_id:
  assumes "0 \<le> index" and "index < 2 ^ 16"
  shows "GetIndex (make_session_id u index) = index"
  using make_session_id_low[OF assms] sint_small_index[OF assms] assms
  by (simp add: GetIndex_def index_mask to_int32_id in_int32_def)


lemma word_of_int_high_bits:
  assumes "0 \<le> index" and "index < 2 ^ 16" and "16 \<le> n"
  shows "\<not> bit (word_of_int index :: 64 word) n"
proof -
  from take_bit_index[OF assms(1,2)] have "bit (word_of_int index :: 64 word) n = bit (take_bit 16 (word_of_int index :: 64 word)) n" by simp
  with assms(3) show ?thesis by (simp add: bit_take_bit_iff)
qed

lemma unique_mask: "sSessionUnqueMask = NOT (mask 16)"
  by (simp add: sSessionUnqueMask_def mask_eq_exp_minus_1)

lemma GetUniqueNumber_make_session_id:
  assumes "0 \<le> index" and "index < 2 ^ 16"
  shows "GetUniqueNumber (make_session_id u index) = signed_take_bit 15 u"
proof (rule bit_word_eqI)
  fix n assume n: "n < LENGTH(64)"
  have "n < 15 \<or> n = 15 \<or> 16 \<le> n" by arith
  then show "bit (GetUniqueNumber (make_session_id u index)) n = bit (signed_take_bit 15 u) n"
    using n word_of_int_high_bits[OF assms, of "48 + n"] word_of_int_high_bits[OF assms, of 63]
    by (auto simp: GetUniqueNumber_def unique_mask make_session_id_def bit_signed_drop_bit_iff bit_and_iff
        bit_or_iff bit_not_iff bit_mask_iff bit_push_bit_iff bit_signed_take_bit_iff min_def)
qed

lemma make_session_id_period: "make_session_id (u + 2 ^ 16) index = make_session_id u index"
proof -
  have "push_bit 48 (u + 2 ^ 16) = push_bit 48 u"
    by (simp add: push_bit_eq_mult distrib_right)
  then show ?thesis by (simp add: make_session_id_def)
qed

section \<open>The table as a map from identifiers to sessions\<close>

definition table_inv :: "SessionGroup \<Rightarrow> (SessionID \<rightharpoonup> Session) \<Rightarrow> bool" where
  "table_inv g M \<longleftrightarrow>
     mMaxSession g = int (length (mSessionVector g)) \<and> 0 < mMaxSession g \<and> mMaxSession g < 65535 \<and>
     mSessionIndexPool g \<noteq> [] \<and> distinct (mSessionIndexPool g) \<and> last (mSessionIndexPool g) = mMaxSession g \<and>
     GetIndex ` dom M \<inter> set (mSessionIndexPool g) = {} \<and>
     GetIndex ` dom M \<union> set (mSessionIndexPool g) = {0..mMaxSession g} \<and>
     (\<forall>i s. M i = Some s \<longrightarrow> mSessionVector g ! nat (GetIndex i) = s \<and> mSessionID s = i)"

lemma push_indices_upto: "push_indices n pool = map int [0..<Suc n] @ pool"
  by (induction n pool rule: push_indices.induct) (simp_all add: upt_conv_Cons)

lemma table_inv_ctor:
  assumes "0 < length storage" and "length storage < 65535"
  shows "table_inv (SessionGroup_ctor storage u) Map.empty"
proof -
  have "int ` {0..<Suc n} = {0..int n}" for n
    by (auto simp: image_iff) (metis atLeastLessThan_iff le_imp_less_Suc nonneg_int_cases of_nat_le_iff zero_le)
  with assms show ?thesis
    by (auto simp: table_inv_def SessionGroup_ctor_def push_indices_upto distinct_map last_map
        simp del: upt_Suc)
qed

lemma table_inv_live:
  assumes "table_inv g M" and "M i = Some s"
  shows "0 \<le> GetIndex i" and "GetIndex i < int (length (mSessionVector g))"
    and "GetIndex i \<notin> set (mSessionIndexPool g)"
    and "mSessionVector g ! nat (GetIndex i) = s" and "mSessionID s = i"
proof -
  have img: "GetIndex i \<in> GetIndex ` dom M" using assms(2) by blast
  moreover have "mMaxSession g \<in> set (mSessionIndexPool g)"
    using assms(1) last_in_set[of "mSessionIndexPool g"] by (auto simp: table_inv_def)
  ultimately show 3: "GetIndex i \<notin> set (mSessionIndexPool g)"
    using assms(1) by (auto simp: table_inv_def)
  have "GetIndex i \<in> GetIndex ` dom M \<union> set (mSessionIndexPool g)" using img by blast
  then have "GetIndex i \<in> {0..mMaxSession g}" using assms(1) unfolding table_inv_def by metis
  moreover have "GetIndex i \<noteq> mMaxSession g"
    using 3 \<open>mMaxSession g \<in> set (mSessionIndexPool g)\<close> by metis
  ultimately have "GetIndex i \<in> {0..<mMaxSession g}" by auto
  then show "0 \<le> GetIndex i" "GetIndex i < int (length (mSessionVector g))"
    using assms(1) by (auto simp: table_inv_def)
  show "mSessionVector g ! nat (GetIndex i) = s" and "mSessionID s = i"
    using assms by (auto simp: table_inv_def)
qed

lemma table_inv_inj: "table_inv g M \<Longrightarrow> inj_on GetIndex (dom M)"
  by (auto simp: inj_on_def dom_def) (metis table_inv_live(4,5))

lemma table_inv_finite: "table_inv g M \<Longrightarrow> finite (dom M)"
  using table_inv_inj finite_imageD finite_subset[of "GetIndex ` dom M" "{0..mMaxSession g}"]
  by (auto simp: table_inv_def)

text \<open>Live identifiers and free indices add up to one more than the table holds.\<close>

lemma table_inv_card:
  assumes "table_inv g M"
  shows "int (card (dom M)) + int (length (mSessionIndexPool g)) = mMaxSession g + 1"
proof -
  let ?pool = "mSessionIndexPool g"
  have "finite (GetIndex ` dom M)"
    using assms finite_subset[of "GetIndex ` dom M" "{0..mMaxSession g}"] by (auto simp: table_inv_def)
  then have "card (GetIndex ` dom M \<union> set ?pool) = card (GetIndex ` dom M) + card (set ?pool)"
    using assms by (intro card_Un_disjoint) (auto simp: table_inv_def)
  moreover have "card (GetIndex ` dom M) = card (dom M)" using table_inv_inj[OF assms] by (rule card_image)
  moreover have "card {0..mMaxSession g} = nat (mMaxSession g + 1)" by simp
  ultimately show ?thesis using assms by (simp add: table_inv_def distinct_card)
qed

lemma table_inv_card_le: "table_inv g M \<Longrightarrow> int (card (dom M)) \<le> mMaxSession g"
  using table_inv_card[of g M] by (cases "mSessionIndexPool g") (auto simp: table_inv_def)

lemma table_inv_room:
  assumes "table_inv g M" and "int (card (dom M)) < mMaxSession g"
  obtains i rest where "mSessionIndexPool g = i # rest" "rest \<noteq> []" "0 \<le> i" "i < mMaxSession g"
proof -
  let ?pool = "mSessionIndexPool g"
  have "2 \<le> length ?pool" using table_inv_card[OF assms(1)] assms(2) by simp
  then obtain i rest where p: "?pool = i # rest" "rest \<noteq> []"
    by (cases ?pool) (auto simp: Suc_le_eq)
  with assms(1) last_in_set[OF p(2)] have "i \<noteq> mMaxSession g" "i \<in> {0..mMaxSession g}"
    by (auto simp: table_inv_def)
  with p that show ?thesis by auto
qed


lemma session_at_in_range:
  "0 \<le> index \<Longrightarrow> index < int (length (mSessionVector g)) \<Longrightarrow> session_at g index = Inr (mSessionVector g ! nat index)"
  by (simp add: session_at_def)

lemma AddSession_index:
  assumes "mSessionIndexPool g = i # rest"
  shows "SessionGroup_AddSession g fd =
    (if i < 0 \<or> int (length (mSessionVector g)) \<le> i then Inl OutOfBounds
     else Inr (make_session_id (sUniqueNumber g) i,
        g\<lparr>mSessionIndexPool := rest, sUniqueNumber := sUniqueNumber g + 1,
          mSessionVector := (mSessionVector g)[nat i :=
            Session_ctor (mSessionVector g ! nat i) (make_session_id (sUniqueNumber g) i) fd]\<rparr>))"
  using assms by (simp add: SessionGroup_AddSession_def SessionGroup_AllocSession_def session_at_def Let_def)

lemma Session_ctor_simps [simp]:
  "mSessionID (Session_ctor st i fd) = i" "mSessionFD (Session_ctor st i fd) = fd"
  by (simp_all add: Session_ctor_def)

lemma table_add:
  assumes inv: "table_inv g M" and room: "int (card (dom M)) < mMaxSession g"
  shows "\<exists>i s g'. SessionGroup_AddSession g fd = Inr (i, g') \<and> i \<notin> dom M
    \<and> s = Session_ctor (mSessionVector g ! nat (GetIndex i)) i fd
    \<and> table_inv g' (M(i \<mapsto> s)) \<and> mMaxSession g' = mMaxSession g"
proof -
  obtain k rest where k: "mSessionIndexPool g = k # rest" "rest \<noteq> []" "0 \<le> k" "k < mMaxSession g"
    using table_inv_room[OF inv room] by blast
  define i where "i = make_session_id (sUniqueNumber g) k"
  have gi: "GetIndex i = k"
    using k inv unfolding i_def by (intro GetIndex_make_session_id) (auto simp: table_inv_def)
  have fresh: "i \<notin> dom M" using table_inv_live(3)[OF inv, of i] gi k(1) by auto
  define s where "s = Session_ctor (mSessionVector g ! nat k) i fd"
  define g' where "g' = g\<lparr>mSessionIndexPool := rest, sUniqueNumber := sUniqueNumber g + 1,
      mSessionVector := (mSessionVector g)[nat k := s]\<rparr>"
  have add: "SessionGroup_AddSession g fd = Inr (i, g')"
    using AddSession_index[OF k(1), of fd] k inv by (simp add: i_def s_def g'_def table_inv_def)
  have others: "GetIndex j \<noteq> k" if "M j = Some t" for j t
    using table_inv_live(3)[OF inv that] k(1) by auto
  have kept: "(mSessionVector g)[nat k := s] ! nat (GetIndex j) = t \<and> mSessionID t = j" if "M j = Some t" for j t
    using others[OF that] table_inv_live[OF inv that] k(3) by (simp add: nth_list_update)
  have img: "GetIndex ` dom (M(i \<mapsto> s)) = insert k (GetIndex ` dom M)" using gi by auto
  have new: "(mSessionVector g)[nat k := s] ! nat k = s" "mSessionID s = i"
    using k inv by (auto simp: table_inv_def s_def Session_ctor_def)
  have "table_inv g' (M(i \<mapsto> s))"
    unfolding table_inv_def img using inv k kept new gi
    by (auto simp: g'_def table_inv_def)
  with add fresh gi s_def show ?thesis by (auto simp: g'_def)
qed

lemma table_delete:
  assumes inv: "table_inv g M" and live: "M i = Some s"
  shows "\<exists>g'. SessionGroup_DeleteSession g i = Inr (True, g') \<and> table_inv g' (M(i := None))
    \<and> mMaxSession g' = mMaxSession g"
proof -
  note l = table_inv_live[OF inv live]
  have del: "SessionGroup_DeleteSession g i = Inr (True, g\<lparr>mSessionIndexPool := GetIndex i # mSessionIndexPool g\<rparr>)"
    using l by (simp add: SessionGroup_DeleteSession_def session_at_in_range SessionGroup_FreeSession_def
        Session_GetSessionID_def)
  let ?A = "GetIndex ` dom M" and ?P = "set (mSessionIndexPool g)"
  have img: "GetIndex ` dom (M(i := None)) = ?A - {GetIndex i}"
    using inj_on_image_set_diff[OF table_inv_inj[OF inv], of "dom M" "{i}"] live by (simp add: domI)
  have "GetIndex i \<in> ?A" using live by blast
  then have "(?A - {GetIndex i}) \<union> insert (GetIndex i) ?P = ?A \<union> ?P" by blast
  moreover have "(?A - {GetIndex i}) \<inter> insert (GetIndex i) ?P = {}"
    using inv by (auto simp: table_inv_def)
  ultimately have "table_inv (g\<lparr>mSessionIndexPool := GetIndex i # mSessionIndexPool g\<rparr>) (M(i := None))"
    using inv l(3) unfolding table_inv_def img by auto
  with del show ?thesis by simp
qed

lemma table_get:
  assumes "table_inv g M" and "M i = Some s"
  shows "SessionGroup_GetSession g i = Inr (Some (GetIndex i))"
    and "session_at g (GetIndex i) = Inr s"
  using table_inv_live[OF assms]
  by (simp_all add: SessionGroup_GetSession_def session_at_in_range Session_GetSessionID_def)

lemma table_full:
  assumes inv: "table_inv g M" and full: "int (card (dom M)) = mMaxSession g"
  shows "mSessionIndexPool g = [mMaxSession g]"
proof -
  have "length (mSessionIndexPool g) = 1" using table_inv_card[OF inv] full by simp
  with inv show ?thesis by (cases "mSessionIndexPool g") (auto simp: table_inv_def)
qed

section \<open>Interface of a session table\<close>

text \<open>
  What the server relies on: \<open>invar g M\<close> relates a table to the map of live sessions; with room
  left, \<open>add\<close> succeeds with a fresh identifier, \<open>del\<close> of a live identifier succeeds, and \<open>get\<close> finds
  exactly the live session of an identifier.
\<close>

locale session_table =
  fixes invar :: "'g \<Rightarrow> (SessionID \<rightharpoonup> Session) \<Rightarrow> bool"
    and capacity :: "'g \<Rightarrow> int"
    and add :: "'g \<Rightarrow> SocketFD \<Rightarrow> (SessionID \<times> 'g) cxx"
    and del :: "'g \<Rightarrow> SessionID \<Rightarrow> (bool \<times> 'g) cxx"
    and get :: "'g \<Rightarrow> SessionID \<Rightarrow> int option cxx"
    and at :: "'g \<Rightarrow> int \<Rightarrow> Session cxx"
  assumes add_fresh: "invar g M \<Longrightarrow> int (card (dom M)) < capacity g \<Longrightarrow>
      \<exists>i s g'. add g fd = Inr (i, g') \<and> i \<notin> dom M \<and> mSessionID s = i \<and> mSessionFD s = fd
        \<and> invar g' (M(i \<mapsto> s)) \<and> capacity g' = capacity g"
    and del_live: "invar g M \<Longrightarrow> i \<in> dom M \<Longrightarrow>
      \<exists>g'. del g i = Inr (True, g') \<and> invar g' (M(i := None)) \<and> capacity g' = capacity g"
    and get_live: "invar g M \<Longrightarrow> M i = Some s \<Longrightarrow> \<exists>p. get g i = Inr (Some p) \<and> at g p = Inr s"

text \<open>
  A history of connections: \<open>Connect fd\<close> adds a session, \<open>Drop n\<close> deletes the session of the \<open>n\<close>-th
  identifier of the list of live ones. \<open>table_history\<close> is the table after it with the live
  identifiers in order of arrival and their descriptors.
\<close>

datatype table_op = Connect SocketFD | Drop nat

fun table_history ::
  "('g \<Rightarrow> SocketFD \<Rightarrow> (SessionID \<times> 'g) cxx) \<Rightarrow> ('g \<Rightarrow> SessionID \<Rightarrow> (bool \<times> 'g) cxx) \<Rightarrow>
   'g \<Rightarrow> (SessionID \<times> SocketFD) list \<Rightarrow> table_op list \<Rightarrow> ('g \<times> (SessionID \<times> SocketFD) list) cxx" where
  "table_history add del g live [] = Inr (g, live)"
| "table_history add del g live (Connect fd # ops) =
     bindr (add g fd) (\<lambda>(i, g'). table_history add del g' (live @ [(i, fd)]) ops)"
| "table_history add del g live (Drop n # ops) =
     (if n < length live
      then bindr (del g (fst (live ! n))) (\<lambda>(_, g'). table_history add del g' (take n live @ drop (Suc n) live) ops)
      else table_history add del g live ops)"

text \<open>A history fits a capacity if no connection arrives while the table is full.\<close>

fun history_fits :: "nat \<Rightarrow> nat \<Rightarrow> table_op list \<Rightarrow> bool" where
  "history_fits cap n [] \<longleftrightarrow> True"
| "history_fits cap n (Connect _ # ops) \<longleftrightarrow> n < cap \<and> history_fits cap (Suc n) ops"
| "history_fits cap n (Drop k # ops) \<longleftrightarrow> history_fits cap (if k < n then n - 1 else n) ops"

context session_table
begin

definition live_map :: "(SessionID \<times> SocketFD) list \<Rightarrow> (SessionID \<rightharpoonup> Session) \<Rightarrow> bool" where
  "live_map live M \<longleftrightarrow> distinct (map fst live) \<and> dom M = fst ` set live \<and>
     (\<forall>i fd. (i, fd) \<in> set live \<longrightarrow> (\<exists>s. M i = Some s \<and> mSessionID s = i \<and> mSessionFD s = fd))"

lemma live_map_card: "live_map live M \<Longrightarrow> card (dom M) = length live"
  using distinct_card[of "map fst live"] by (simp add: live_map_def)

lemma live_map_add:
  assumes "live_map live M" and "i \<notin> dom M" and "mSessionID s = i" and "mSessionFD s = fd"
  shows "live_map (live @ [(i, fd)]) (M(i \<mapsto> s))"
proof -
  have "i \<notin> fst ` set live" using assms(1,2) by (simp add: live_map_def)
  moreover have "j \<noteq> i" if "(j, fd') \<in> set live" for j fd'
    using calculation that by (metis fst_conv image_eqI)
  ultimately show ?thesis
    using assms unfolding live_map_def by auto
qed

lemma live_map_drop:
  assumes "live_map live M" and "n < length live"
  shows "live_map (take n live @ drop (Suc n) live) (M(fst (live ! n) := None))"
proof -
  have split: "live = take n live @ (live ! n) # drop (Suc n) live"
    using assms(2) by (rule id_take_nth_drop)
  obtain xs y ys where live: "live = xs @ y # ys" "xs = take n live" "y = live ! n" "ys = drop (Suc n) live"
    using split by blast
  have D: "distinct (map fst (xs @ y # ys))" and dom: "dom M = fst ` set (xs @ y # ys)"
    and ent: "\<And>i fd. (i, fd) \<in> set (xs @ ys) \<Longrightarrow> \<exists>s. M i = Some s \<and> mSessionID s = i \<and> mSessionFD s = fd"
    using assms(1) unfolding live(1) live_map_def by auto
  have notin: "fst y \<notin> fst ` set (xs @ ys)" using D by auto
  have "dom (M(fst y := None)) = fst ` set (xs @ ys)"
    using dom notin by (simp add: image_Un)
  moreover have "\<exists>s. (M(fst y := None)) i = Some s \<and> mSessionID s = i \<and> mSessionFD s = fd"
    if "(i, fd) \<in> set (xs @ ys)" for i fd
    using ent[OF that] notin that by (metis fst_conv fun_upd_other image_eqI)
  ultimately have "live_map (xs @ ys) (M(fst y := None))"
    using D unfolding live_map_def by auto
  with live show ?thesis by simp
qed

lemma history_spec:
  assumes "invar g M" and "live_map live M" and "history_fits (nat (capacity g)) (length live) ops"
  shows "\<exists>g' live' M'. table_history add del g live ops = Inr (g', live') \<and> invar g' M' \<and> live_map live' M'
    \<and> capacity g' = capacity g"
  using assms
proof (induction ops arbitrary: g live M)
  case Nil
  then show ?case by auto
next
  case (Cons a ops)
  show ?case
  proof (cases a)
    case (Connect fd)
    with Cons.prems have "int (card (dom M)) < capacity g" by (auto simp: live_map_card)
    from add_fresh[OF Cons.prems(1) this, of fd] obtain i s g' where
      a: "add g fd = Inr (i, g')" "i \<notin> dom M" "mSessionID s = i" "mSessionFD s = fd"
        "invar g' (M(i \<mapsto> s))" "capacity g' = capacity g" by blast
    with Connect Cons.prems Cons.IH[OF a(5) live_map_add[OF Cons.prems(2) a(2-4)]] show ?thesis by simp
  next
    case (Drop n)
    show ?thesis
    proof (cases "n < length live")
      case False
      with Drop Cons show ?thesis by auto
    next
      case True
      then have "fst (live ! n) \<in> dom M" using Cons.prems(2) by (simp add: live_map_def)
      from del_live[OF Cons.prems(1) this] obtain g' where
        d: "del g (fst (live ! n)) = Inr (True, g')" "invar g' (M(fst (live ! n) := None))"
          "capacity g' = capacity g" by blast
      have "length (take n live @ drop (Suc n) live) = length live - 1" using True by simp
      with d Drop True Cons.prems Cons.IH[OF d(2) live_map_drop[OF Cons.prems(2) True]] show ?thesis by simp
    qed
  qed
qed

lemma history_lookup:
  assumes "invar g M" and "live_map live M" and "history_fits (nat (capacity g)) (length live) ops"
  shows "\<exists>g' live'. table_history add del g live ops = Inr (g', live') \<and> distinct (map fst live')
    \<and> (\<forall>(i, fd) \<in> set live'. \<exists>p s. get g' i = Inr (Some p) \<and> at g' p = Inr s \<and> mSessionID s = i \<and> mSessionFD s = fd)"
  using history_spec[OF assms] get_live unfolding live_map_def by (fastforce split: prod.splits)

end

interpretation table: session_table table_inv mMaxSession SessionGroup_AddSession SessionGroup_DeleteSession
  SessionGroup_GetSession session_at
proof
  fix g M fd i s
  assume inv: "table_inv g M"
  show "\<exists>i s g'. SessionGroup_AddSession g fd = Inr (i, g') \<and> i \<notin> dom M \<and> mSessionID s = i \<and> mSessionFD s = fd
      \<and> table_inv g' (M(i \<mapsto> s)) \<and> mMaxSession g' = mMaxSession g" if "int (card (dom M)) < mMaxSession g"
    using table_add[OF inv that, of fd] by (metis Session_ctor_simps)
  show "\<exists>g'. SessionGroup_DeleteSession g i = Inr (True, g') \<and> table_inv g' (M(i := None))
      \<and> mMaxSession g' = mMaxSession g" if "i \<in> dom M"
    using table_delete[OF inv] that by blast
  show "\<exists>p. SessionGroup_GetSession g i = Inr (Some p) \<and> session_at g p = Inr s" if "M i = Some s"
    using table_get[OF inv that] by blast
qed


lemma table_history_append:
  "table_history add del g live (xs @ ys) =
     bindr (table_history add del g live xs) (\<lambda>(g', live'). table_history add del g' live' ys)"
proof (induction add del g live xs rule: table_history.induct)
  case (2 add del g live fd ops)
  then show ?case by (cases "add g fd") (auto split: prod.splits)
next
  case (3 add del g live n ops)
  then show ?case by (cases "del g (fst (live ! n))") (auto split: prod.splits)
qed simp

lemma table_history_connects:
  "table_history add del g live (map Connect fds) = Inr (g', live') \<Longrightarrow> length live' = length live + length fds"
  by (induction fds arbitrary: g live) (fastforce simp: bindr_Inr_iff)+

lemma history_fits_connects: "history_fits cap n (map Connect fds) \<longleftrightarrow> n + length fds \<le> cap \<or> fds = []"
  by (induction fds arbitrary: n) auto

section \<open>Properties\<close>

text \<open>
  C17. The session table refines a map from identifiers to sessions. From a freshly constructed
  table, any history of connections and deletions of live sessions that never connects while all
  slots are taken runs without undefined behaviour; all live identifiers are different, and looking
  one up finds the session with that identifier and the descriptor it was added with.
\<close>

theorem SessionGroup_history_refines_map:
  assumes "0 < length storage" and "length storage < 65535" and "history_fits (length storage) 0 ops"
  shows "\<exists>g live. table_history SessionGroup_AddSession SessionGroup_DeleteSession
        (SessionGroup_ctor storage u) [] ops = Inr (g, live)
    \<and> distinct (map fst live)
    \<and> (\<forall>(i, fd) \<in> set live. \<exists>p s. SessionGroup_GetSession g i = Inr (Some p) \<and> session_at g p = Inr s
          \<and> mSessionID s = i \<and> mSessionFD s = fd)"
proof -
  have "table.live_map [] Map.empty" by (simp add: table.live_map_def)
  moreover have "history_fits (nat (mMaxSession (SessionGroup_ctor storage u))) (length []) ops"
    using assms(3) by (simp add: SessionGroup_ctor_def)
  ultimately show ?thesis
    using table.history_lookup[OF table_inv_ctor[OF assms(1,2)]] by blast
qed

theorem SessionGroup_history_refines_map_witness:
  "\<exists>g live. table_history SessionGroup_AddSession SessionGroup_DeleteSession
        (SessionGroup_ctor [session_ex, session_ex] 0) [] [Connect 8, Connect 9, Drop 0, Connect 10] = Inr (g, live)
    \<and> distinct (map fst live)
    \<and> (\<forall>(i, fd) \<in> set live. \<exists>p s. SessionGroup_GetSession g i = Inr (Some p) \<and> session_at g p = Inr s
          \<and> mSessionID s = i \<and> mSessionFD s = fd)"
  by (rule SessionGroup_history_refines_map) simp_all

text \<open>
  The table has no error path for a full table. The free-slot stack is filled with one index too
  many, so with every slot in use the next connection is given the index one past the end and
  constructs a session outside the vector.
\<close>

theorem SessionGroup_full_is_undefined:
  assumes "0 < length storage" and "length storage < 65535" and "length fds = length storage"
  shows "table_history SessionGroup_AddSession SessionGroup_DeleteSession (SessionGroup_ctor storage u) []
    (map Connect fds @ [Connect fd]) = Inl OutOfBounds"
proof -
  let ?g = "SessionGroup_ctor storage u"
  have "table.live_map [] Map.empty" by (simp add: table.live_map_def)
  moreover have "history_fits (nat (mMaxSession ?g)) (length []) (map Connect fds)"
    using assms(3) by (simp add: SessionGroup_ctor_def history_fits_connects)
  ultimately obtain g live M where
    h: "table_history SessionGroup_AddSession SessionGroup_DeleteSession ?g [] (map Connect fds) = Inr (g, live)"
      "table_inv g M" "table.live_map live M" "mMaxSession g = mMaxSession ?g"
    using table.history_spec[OF table_inv_ctor[OF assms(1,2)]] by blast
  have "int (card (dom M)) = mMaxSession g"
    using table_history_connects[OF h(1)] table.live_map_card[OF h(3)] h(4) assms(3)
    by (simp add: SessionGroup_ctor_def)
  then have "mSessionIndexPool g = [mMaxSession g]" using table_full[OF h(2)] by blast
  then have "SessionGroup_AddSession g fd = Inl OutOfBounds"
    using AddSession_index[of g "mMaxSession g" "[]" fd] h(2) by (simp add: table_inv_def)
  with h(1) show ?thesis by (simp add: table_history_append)
qed

theorem SessionGroup_full_is_undefined_witness:
  "table_history SessionGroup_AddSession SessionGroup_DeleteSession (SessionGroup_ctor [session_ex, session_ex] 0) []
    (map Connect [8, 9] @ [Connect 10]) = Inl OutOfBounds"
  by (rule SessionGroup_full_is_undefined) simp_all

text \<open>
  C31. Identifiers round-trip: for an index of 16 bits, \<open>GetIndex\<close> recovers the slot and
  \<open>GetUniqueNumber\<close> the low 16 bits of the counter, read as a signed number; so the identifiers of a
  slot repeat after 65536 sessions.
\<close>

theorem session_id_roundtrip:
  assumes "0 \<le> index" and "index < 2 ^ 16"
  shows "GetIndex (make_session_id u index) = index
    \<and> GetUniqueNumber (make_session_id u index) = signed_take_bit 15 u
    \<and> make_session_id (u + 2 ^ 16) index = make_session_id u index"
  using GetIndex_make_session_id[OF assms] GetUniqueNumber_make_session_id[OF assms] make_session_id_period by simp

theorem session_id_roundtrip_witness:
  "GetIndex (make_session_id 40000 4999) = 4999
    \<and> GetUniqueNumber (make_session_id 40000 4999) = signed_take_bit 15 40000
    \<and> make_session_id (40000 + 2 ^ 16) 4999 = make_session_id 40000 4999"
  by (rule session_id_roundtrip) simp_all

lemma make_session_id_next: "0 \<le> k \<Longrightarrow> k < 2 ^ 16 \<Longrightarrow> make_session_id (u + 1) k \<noteq> make_session_id u k"
proof
  assume k: "0 \<le> k" "k < 2 ^ 16" and eq: "make_session_id (u + 1) k = make_session_id u k"
  have "bit (make_session_id w k) 48 = odd w" for w :: Int64
    using word_of_int_high_bits[OF k, of 48]
    by (simp add: make_session_id_def bit_or_iff bit_push_bit_iff bit_0)
  then have "odd (u + 1) = odd u" using eq by metis
  then show False by simp
qed

text \<open>
  Deleting a session twice corrupts the table. A deleted identifier is still found by
  \<open>GetSession\<close>, a second deletion of it succeeds and frees its slot again, and the next two
  connections then share the slot: the second one overwrites the first, whose identifier is no
  longer found although it was just handed out.
\<close>

theorem SessionGroup_double_delete_aliases:
  assumes inv: "table_inv g M" and live: "M i = Some s"
  shows "\<exists>g1 g2 a g3 b g4. SessionGroup_DeleteSession g i = Inr (True, g1)
    \<and> SessionGroup_GetSession g1 i = Inr (Some (GetIndex i))
    \<and> SessionGroup_DeleteSession g1 i = Inr (True, g2)
    \<and> SessionGroup_AddSession g2 fd1 = Inr (a, g3) \<and> SessionGroup_AddSession g3 fd2 = Inr (b, g4)
    \<and> GetIndex a = GetIndex i \<and> GetIndex b = GetIndex i \<and> a \<noteq> b
    \<and> SessionGroup_GetSession g4 a = Inr None"
proof -
  note l = table_inv_live[OF inv live]
  define k where "k = GetIndex i"
  define u where "u = sUniqueNumber g"
  have k: "0 \<le> k" "k < 2 ^ 16" using l inv by (auto simp: k_def table_inv_def)
  have len: "0 \<le> k" "k < int (length (mSessionVector g))" using l by (simp_all add: k_def)
  define g2 where "g2 = g\<lparr>mSessionIndexPool := k # k # mSessionIndexPool g\<rparr>"
  note del = SessionGroup_DeleteSession_def SessionGroup_GetSession_def session_at_def
    SessionGroup_FreeSession_def Session_GetSessionID_def
  have "SessionGroup_DeleteSession g i = Inr (True, g\<lparr>mSessionIndexPool := k # mSessionIndexPool g\<rparr>)"
    "SessionGroup_GetSession (g\<lparr>mSessionIndexPool := k # mSessionIndexPool g\<rparr>) i = Inr (Some (GetIndex i))"
    "SessionGroup_DeleteSession (g\<lparr>mSessionIndexPool := k # mSessionIndexPool g\<rparr>) i = Inr (True, g2)"
    using l by (simp_all add: del k_def g2_def Let_def)
  moreover have pool: "mSessionIndexPool g2 = k # k # mSessionIndexPool g" by (simp add: g2_def)
  moreover obtain g3 where g3: "SessionGroup_AddSession g2 fd1 = Inr (make_session_id u k, g3)"
      "mSessionIndexPool g3 = k # mSessionIndexPool g" "sUniqueNumber g3 = u + 1"
      "length (mSessionVector g3) = length (mSessionVector g)"
    using AddSession_index[OF pool, of fd1] len by (simp add: g2_def u_def)
  moreover obtain g4 where g4: "SessionGroup_AddSession g3 fd2 = Inr (make_session_id (u + 1) k, g4)"
      "mSessionVector g4 = (mSessionVector g3)[nat k := Session_ctor (mSessionVector g3 ! nat k) (make_session_id (u + 1) k) fd2]"
    using AddSession_index[OF g3(2), of fd2] g3(3,4) len by simp
  moreover have "SessionGroup_GetSession g4 (make_session_id u k) = Inr None"
    using g4(2) g3(4) len GetIndex_make_session_id[OF k] make_session_id_next[OF k, of u]
    by (simp add: SessionGroup_GetSession_def session_at_def Session_GetSessionID_def)
  ultimately show ?thesis
    using GetIndex_make_session_id[OF k] make_session_id_next[OF k, of u] by (metis k_def)
qed

theorem SessionGroup_double_delete_aliases_witness:
  "\<exists>g M i s g1 g2 a g3 b g4. table_inv g M \<and> M i = Some s
    \<and> SessionGroup_DeleteSession g i = Inr (True, g1)
    \<and> SessionGroup_GetSession g1 i = Inr (Some (GetIndex i))
    \<and> SessionGroup_DeleteSession g1 i = Inr (True, g2)
    \<and> SessionGroup_AddSession g2 8 = Inr (a, g3) \<and> SessionGroup_AddSession g3 9 = Inr (b, g4)
    \<and> a \<noteq> b \<and> SessionGroup_GetSession g4 a = Inr None"
proof -
  have "table_inv (SessionGroup_ctor [session_ex, session_ex] 0) Map.empty"
    by (rule table_inv_ctor) simp_all
  moreover have "int (card (dom (Map.empty :: SessionID \<rightharpoonup> Session))) < mMaxSession (SessionGroup_ctor [session_ex, session_ex] 0)"
    by (simp add: SessionGroup_ctor_def)
  ultimately obtain i s g where "table_inv g (Map.empty(i \<mapsto> s))"
    using table_add[of "SessionGroup_ctor [session_ex, session_ex] 0" Map.empty 7] by blast
  moreover have "(Map.empty(i \<mapsto> s)) i = Some s" by simp
  ultimately show ?thesis
    using SessionGroup_double_delete_aliases[of g "Map.empty(i \<mapsto> s)" i s 8 9] by blast
qed

text \<open>
  C30. A new session inherits the receive buffer of the session that used its slot before. Neither the
  session's nor the buffer's constructor resets the indices, so bytes the earlier client had sent
  and the application had not used are shown to the application as the first bytes of the new one.
\<close>

theorem SessionGroup_slot_reuse_leaks_bytes:
  assumes "mSessionIndexPool g = k # rest" and "session_at g k = Inr old"
    and "RecvBuffer_inv (recv_buffer old)" and "RecvBuffer_contents (recv_buffer old) \<noteq> []"
  shows "\<exists>i g' s s' es bs tail. SessionGroup_AddSession g fd = Inr (i, g') \<and> session_at g' k = Inr s
    \<and> mSessionID s = i \<and> mSessionFD s = fd
    \<and> RecvJob_deliver (TestServer_OnRecv srv k buffer answers) s = Inr (s', CallOnRecv i bs # es)
    \<and> bs \<noteq> [] \<and> RecvBuffer_contents (recv_buffer old) = bs @ tail"
proof -
  have k: "0 \<le> k" "k < int (length (mSessionVector g))" "mSessionVector g ! nat k = old"
    using assms(2) by (auto simp: session_at_def split: if_splits)
  define i where "i = make_session_id (sUniqueNumber g) k"
  define s where "s = Session_ctor old i fd"
  have buf: "recv_buffer s = recv_buffer old"
    by (simp add: s_def Session_ctor_def RecvJob_ctor_def RecvBuffer_ctor_def)
  obtain g' where g': "SessionGroup_AddSession g fd = Inr (i, g')" "session_at g' k = Inr s"
    using AddSession_index[OF assms(1), of fd] k by (simp add: session_at_def i_def s_def)
  obtain s' es where d: "RecvJob_deliver (TestServer_OnRecv srv k buffer answers) s = Inr (s', es)"
    using echo.deliver_spec[of s srv k buffer answers] assms(3) buf by auto
  from RecvJob_deliver_calls[OF d] assms(3,4) buf d g' show ?thesis
    by (auto simp: s_def)
qed

theorem SessionGroup_slot_reuse_leaks_bytes_witness:
  "\<exists>i g' s s' es bs tail. SessionGroup_AddSession (SessionGroup_ctor [set_recv_buffer session_ex
          \<lparr>mFront = 0, mRear = 2, mBuffer = (\<lambda>_. 65)\<rparr>] 0) 8 = Inr (i, g') \<and> session_at g' 0 = Inr s
    \<and> mSessionID s = i \<and> mSessionFD s = 8
    \<and> RecvJob_deliver (TestServer_OnRecv fds_ex 0 4096 []) s = Inr (s', CallOnRecv i bs # es)
    \<and> bs \<noteq> [] \<and> RecvBuffer_contents \<lparr>mFront = 0, mRear = 2, mBuffer = (\<lambda>_. 65)\<rparr> = bs @ tail"
proof -
  let ?old = "Session_default_ctor (set_recv_buffer session_ex \<lparr>mFront = 0, mRear = 2, mBuffer = (\<lambda>_. 65)\<rparr>)"
  let ?g = "SessionGroup_ctor [set_recv_buffer session_ex \<lparr>mFront = 0, mRear = 2, mBuffer = (\<lambda>_. 65)\<rparr>] 0"
  have b: "recv_buffer ?old = \<lparr>mFront = 0, mRear = 2, mBuffer = (\<lambda>_. 65)\<rparr>"
    by (simp add: Session_default_ctor_def RecvJob_ctor_def RecvBuffer_ctor_def set_recv_buffer_def)
  have "mSessionIndexPool ?g = 0 # [1]" "session_at ?g 0 = Inr ?old"
    by (simp_all add: SessionGroup_ctor_def session_at_def)
  moreover have "RecvBuffer_inv (recv_buffer ?old)" "RecvBuffer_contents (recv_buffer ?old) \<noteq> []"
    unfolding b by (simp_all add: RecvBuffer_inv_def BUFFER_SIZE_def RecvBuffer_contents_def bytes_at_def)
  ultimately show ?thesis
    using SessionGroup_slot_reuse_leaks_bytes[of ?g 0 "[1]" ?old 8 fds_ex 4096 "[]"] unfolding b by blast
qed

end
