(* ===== verification/Worker_Pool.thy ===== *)
theory Worker_Pool
  imports Cxx_Prelude
begin

text \<open>
  The worker threads, \<^verbatim>\<open>class WorkerThreadPool\<close> of \<^verbatim>\<open>src/src/lib-core/src/WorkerThreadPool.hpp\<close> and
  \<^verbatim>\<open>WorkerThreadPool.cpp\<close>. The first part has one definition per member function, as a single thread
  runs it. The second part is the pool as a concurrent system: the member functions cut at the
  points where another thread can run (the ends of the critical sections of the two mutexes, the
  unlocked test of the idle stack, the reads and writes of the event descriptors), a state with a
  program counter per thread, and the states reachable under any schedule.
\<close>

section \<open>The member functions\<close>

record ThreadContext =
  mThreadHandle :: nat
  mEventFD :: int

record 'j WorkerThreadPool =
  pool_mIsRunning :: bool
  mWorkerThreads :: "ThreadContext list"
  mIdleThreads :: "ThreadContext list"
  mJobQueue :: "'j list"

text \<open>
  \<^verbatim>\<open>Start\<close>: the vector is resized first; thread \<open>i\<close> then gets an event descriptor and is created.
  \<open>answers i\<close> is what the kernel says to the calls for thread \<open>i\<close>: the descriptor of \<^verbatim>\<open>eventfd\<close> and the
  result of \<^verbatim>\<open>pthread_create\<close> (0 is success). The handle of a created thread is its number.
\<close>

fun start_threads :: "nat \<Rightarrow> ThreadContext list \<Rightarrow> (nat \<Rightarrow> int \<times> int) \<Rightarrow> bool \<times> ThreadContext list" where
  "start_threads i [] answers = (True, [])"
| "start_threads i (c # cs) answers =
     (let (fd, ret) = answers i; c' = c\<lparr>mEventFD := fd\<rparr> in
      if ret \<noteq> 0 then (False, c' # cs)
      else let (ok, cs') = start_threads (Suc i) cs answers in (ok, c'\<lparr>mThreadHandle := i\<rparr> # cs'))"

definition WorkerThreadPool_ctor :: "'j WorkerThreadPool" where
  "WorkerThreadPool_ctor = \<lparr>pool_mIsRunning = False, mWorkerThreads = [], mIdleThreads = [], mJobQueue = []\<rparr>"

definition WorkerThreadPool_Start ::
  "'j WorkerThreadPool \<Rightarrow> nat \<Rightarrow> (nat \<Rightarrow> int \<times> int) \<Rightarrow> bool \<times> 'j WorkerThreadPool" where
  "WorkerThreadPool_Start p workerThreadCount answers =
     (let resized = take workerThreadCount (mWorkerThreads p) @
            replicate (workerThreadCount - length (mWorkerThreads p)) \<lparr>mThreadHandle = 0, mEventFD = 0\<rparr>;
          (ok, threads) = start_threads 0 resized answers
      in (ok, p\<lparr>pool_mIsRunning := True, mWorkerThreads := threads\<rparr>))"

text \<open>\<^verbatim>\<open>Stop\<close> also returns the requests it makes, in order.\<close>

datatype pool_request = WriteEvent int | Join nat

definition WorkerThreadPool_Stop :: "'j WorkerThreadPool \<Rightarrow> 'j WorkerThreadPool \<times> pool_request list" where
  "WorkerThreadPool_Stop p =
     (p\<lparr>pool_mIsRunning := False, mWorkerThreads := []\<rparr>,
      concat (map (\<lambda>c. [WriteEvent (mEventFD c), Join (mThreadHandle c)]) (mWorkerThreads p)))"

definition push_job :: "'j WorkerThreadPool \<Rightarrow> 'j \<Rightarrow> 'j WorkerThreadPool" where
  "push_job p job = p\<lparr>mJobQueue := mJobQueue p @ [job]\<rparr>"

text \<open>The critical section of \<^verbatim>\<open>WakeOneThread\<close>: \<^verbatim>\<open>top()\<close> and \<^verbatim>\<open>pop()\<close>, undefined on an empty stack.\<close>

definition take_idle :: "'j WorkerThreadPool \<Rightarrow> (ThreadContext \<times> 'j WorkerThreadPool) cxx" where
  "take_idle p = (case mIdleThreads p of [] \<Rightarrow> Inl EmptyContainer | c # cs \<Rightarrow> Inr (c, p\<lparr>mIdleThreads := cs\<rparr>))"

definition WorkerThreadPool_WakeOneThread ::
  "'j WorkerThreadPool \<Rightarrow> ('j WorkerThreadPool \<times> pool_request list) cxx" where
  "WorkerThreadPool_WakeOneThread p =
     (if mIdleThreads p = [] then Inr (p, [])
      else bindr (take_idle p) (\<lambda>(c, p'). Inr (p', [WriteEvent (mEventFD c)])))"

definition WorkerThreadPool_AddJob ::
  "'j WorkerThreadPool \<Rightarrow> 'j \<Rightarrow> ('j WorkerThreadPool \<times> pool_request list) cxx" where
  "WorkerThreadPool_AddJob p job = WorkerThreadPool_WakeOneThread (push_job p job)"

definition WorkerThreadPool_PopJob :: "'j WorkerThreadPool \<Rightarrow> 'j option \<times> 'j WorkerThreadPool" where
  "WorkerThreadPool_PopJob p =
     (case mJobQueue p of [] \<Rightarrow> (None, p) | job # rest \<Rightarrow> (Some job, p\<lparr>mJobQueue := rest\<rparr>))"

text \<open>The critical section of \<^verbatim>\<open>Idle\<close>; the blocking read that follows is a step of its own below.\<close>

definition push_idle :: "'j WorkerThreadPool \<Rightarrow> ThreadContext \<Rightarrow> 'j WorkerThreadPool" where
  "push_idle p context = p\<lparr>mIdleThreads := context # mIdleThreads p\<rparr>"

lemmas pool_defs = push_job_def take_idle_def WorkerThreadPool_PopJob_def push_idle_def

section \<open>The pool as a concurrent system\<close>

text \<open>
  A worker is at the loop head of \<^verbatim>\<open>PollEvents\<close>, has found no job and is about to enter \<^verbatim>\<open>Idle\<close>, is
  blocked in the read of its event descriptor, executes a job, or has left the loop. A thread that
  calls \<^verbatim>\<open>AddJob\<close> is outside of it, has pushed its job, has seen a non-empty idle stack without the
  lock, or has taken a context and is about to write to its event descriptor.
\<close>

datatype 'j worker_pc = WLoop | WNull | WRead | WExec 'j | WDone

datatype adder_pc = AOut | ACheck | ALocked | AWrite ThreadContext

record 'j pool_sys =
  pool :: "'j WorkerThreadPool"
  evfd :: "int \<Rightarrow> nat"
  wpc :: "nat \<Rightarrow> 'j worker_pc"
  apc :: "nat \<Rightarrow> adder_pc"
  crashed :: bool
  added :: "'j list"
  popped :: "'j list"

datatype 'j pool_event =
    AddPush nat 'j | WakeCheck nat | WakeTake nat | WakeWrite nat
  | Pop nat | IdlePush nat | IdleRead nat | ExecDone nat
  | StopFlag | StopWrite nat

definition context_of :: "'j pool_sys \<Rightarrow> nat \<Rightarrow> ThreadContext" where
  "context_of s w = mWorkerThreads (pool s) ! w"

text \<open>
  One step of one thread; \<open>None\<close> when the thread cannot take this step now. Workers are numbered by
  their position in \<^verbatim>\<open>mWorkerThreads\<close>, the adding threads by any number. \<open>added\<close> and \<open>popped\<close> record
  the jobs pushed to and popped from the queue.
\<close>

fun pool_exec :: "'j pool_sys \<Rightarrow> 'j pool_event \<Rightarrow> 'j pool_sys option" where
  "pool_exec s (AddPush a j) =
     (if apc s a = AOut
      then Some (s\<lparr>pool := push_job (pool s) j, apc := (apc s)(a := ACheck), added := added s @ [j]\<rparr>)
      else None)"
| "pool_exec s (WakeCheck a) =
     (if apc s a = ACheck
      then Some (s\<lparr>apc := (apc s)(a := (if mIdleThreads (pool s) = [] then AOut else ALocked))\<rparr>)
      else None)"
| "pool_exec s (WakeTake a) =
     (if apc s a = ALocked
      then (case take_idle (pool s) of
              Inl _ \<Rightarrow> Some (s\<lparr>crashed := True\<rparr>)
            | Inr (c, p) \<Rightarrow> Some (s\<lparr>pool := p, apc := (apc s)(a := AWrite c)\<rparr>))
      else None)"
| "pool_exec s (WakeWrite a) =
     (case apc s a of
        AWrite c \<Rightarrow> Some (s\<lparr>evfd := (evfd s)(mEventFD c := Suc (evfd s (mEventFD c))), apc := (apc s)(a := AOut)\<rparr>)
      | _ \<Rightarrow> None)"
| "pool_exec s (Pop w) =
     (if w < length (mWorkerThreads (pool s)) \<and> wpc s w = WLoop
      then if pool_mIsRunning (pool s)
           then (case WorkerThreadPool_PopJob (pool s) of
                   (None, p) \<Rightarrow> Some (s\<lparr>pool := p, wpc := (wpc s)(w := WNull)\<rparr>)
                 | (Some j, p) \<Rightarrow> Some (s\<lparr>pool := p, wpc := (wpc s)(w := WExec j), popped := popped s @ [j]\<rparr>))
           else Some (s\<lparr>wpc := (wpc s)(w := WDone)\<rparr>)
      else None)"
| "pool_exec s (IdlePush w) =
     (if wpc s w = WNull
      then Some (s\<lparr>pool := push_idle (pool s) (context_of s w), wpc := (wpc s)(w := WRead)\<rparr>)
      else None)"
| "pool_exec s (IdleRead w) =
     (if wpc s w = WRead \<and> evfd s (mEventFD (context_of s w)) > 0
      then Some (s\<lparr>evfd := (evfd s)(mEventFD (context_of s w) := 0), wpc := (wpc s)(w := WLoop)\<rparr>)
      else None)"
| "pool_exec s (ExecDone w) =
     (case wpc s w of WExec j \<Rightarrow> Some (s\<lparr>wpc := (wpc s)(w := WLoop)\<rparr>) | _ \<Rightarrow> None)"
| "pool_exec s StopFlag = Some (s\<lparr>pool := (pool s)\<lparr>pool_mIsRunning := False\<rparr>\<rparr>)"
| "pool_exec s (StopWrite w) =
     (if w < length (mWorkerThreads (pool s)) \<and> \<not> pool_mIsRunning (pool s)
      then Some (s\<lparr>evfd := (evfd s)(mEventFD (context_of s w) := Suc (evfd s (mEventFD (context_of s w))))\<rparr>)
      else None)"

fun pool_schedule :: "'j pool_sys \<Rightarrow> 'j pool_event list \<Rightarrow> 'j pool_sys option" where
  "pool_schedule s [] = Some s"
| "pool_schedule s (e # es) = (case pool_exec s e of None \<Rightarrow> None | Some t \<Rightarrow> pool_schedule t es)"

definition pool_init :: "ThreadContext list \<Rightarrow> 'j pool_sys" where
  "pool_init threads =
     \<lparr>pool = \<lparr>pool_mIsRunning = True, mWorkerThreads = threads, mIdleThreads = [], mJobQueue = []\<rparr>,
      evfd = (\<lambda>_. 0), wpc = (\<lambda>_. WLoop), apc = (\<lambda>_. AOut), crashed = False, added = [], popped = []\<rparr>"

inductive pool_reachable :: "ThreadContext list \<Rightarrow> 'j pool_sys \<Rightarrow> bool" for threads where
  init: "pool_reachable threads (pool_init threads)"
| step: "pool_reachable threads s \<Longrightarrow> pool_exec s e = Some t \<Longrightarrow> pool_reachable threads t"

lemma pool_reachable_schedule:
  "pool_reachable threads s \<Longrightarrow> pool_schedule s es = Some t \<Longrightarrow> pool_reachable threads t"
  by (induction es arbitrary: s) (auto split: option.splits intro: pool_reachable.step)


section \<open>First in, first out\<close>

lemma pool_exec_fifo:
  assumes "pool_exec s e = Some t" and "popped s @ mJobQueue (pool s) = added s"
  shows "popped t @ mJobQueue (pool t) = added t"
  using assms
  by (cases e) (auto simp: pool_defs split: if_splits list.splits worker_pc.splits adder_pc.splits)

lemma pool_exec_threads:
  assumes "pool_exec s e = Some t"
  shows "mWorkerThreads (pool t) = mWorkerThreads (pool s)"
    and "pool_mIsRunning (pool t) \<Longrightarrow> pool_mIsRunning (pool s)"
  using assms
  by (cases e; auto simp: pool_defs split: if_splits list.splits worker_pc.splits adder_pc.splits)+

lemma pool_reachable_threads: "pool_reachable threads s \<Longrightarrow> mWorkerThreads (pool s) = threads"
  by (induction rule: pool_reachable.induct) (auto simp: pool_init_def pool_exec_threads(1))

section \<open>Wake-up tokens\<close>

text \<open>
  A worker blocked in \<^verbatim>\<open>Idle\<close> is owed exactly one wake-up token: its context is on the idle stack, or
  in the hands of one thread that is about to write, or its event descriptor has been written once.
  A worker that is not blocked is owed none.
\<close>

definition writers :: "'j pool_sys \<Rightarrow> ThreadContext \<Rightarrow> nat set" where
  "writers s c = {a. apc s a = AWrite c}"

definition tokens :: "'j pool_sys \<Rightarrow> nat \<Rightarrow> nat" where
  "tokens s w = count_list (mIdleThreads (pool s)) (context_of s w) + card (writers s (context_of s w))
     + evfd s (mEventFD (context_of s w))"

definition token_inv :: "'j pool_sys \<Rightarrow> bool" where
  "token_inv s \<longleftrightarrow> finite {a. apc s a \<noteq> AOut} \<and>
     (pool_mIsRunning (pool s) \<longrightarrow>
       (\<forall>w < length (mWorkerThreads (pool s)). tokens s w = (if wpc s w = WRead then 1 else 0)))"

lemma writers_finite: "token_inv s \<Longrightarrow> finite (writers s c)"
  by (rule finite_subset[of _ "{a. apc s a \<noteq> AOut}"]) (auto simp: writers_def token_inv_def)

lemma active_finite:
  assumes "finite {a. f a \<noteq> AOut}"
  shows "finite {a. (f(b := x)) a \<noteq> AOut}"
  by (rule finite_subset[of _ "insert b {a. f a \<noteq> AOut}"]) (use assms in auto)

lemma context_of_inj:
  assumes "distinct (map mEventFD (mWorkerThreads (pool s)))"
    and "w < length (mWorkerThreads (pool s))" and "v < length (mWorkerThreads (pool s))"
  shows "mEventFD (context_of s w) = mEventFD (context_of s v) \<longleftrightarrow> w = v"
    and "context_of s w = context_of s v \<longleftrightarrow> w = v"
  using assms by (auto simp: context_of_def distinct_conv_nth) (metis nth_map length_map)+

text \<open>The stacked and the held contexts are those of workers.\<close>

definition contexts_inv :: "'j pool_sys \<Rightarrow> bool" where
  "contexts_inv s \<longleftrightarrow>
     set (mIdleThreads (pool s)) \<subseteq> set (mWorkerThreads (pool s)) \<and>
     (\<forall>a c. apc s a = AWrite c \<longrightarrow> c \<in> set (mWorkerThreads (pool s))) \<and>
     (\<forall>w. wpc s w \<noteq> WLoop \<longrightarrow> w < length (mWorkerThreads (pool s)))"

lemma pool_exec_contexts_inv:
  assumes "pool_exec s e = Some t" and "contexts_inv s"
  shows "contexts_inv t"
  using assms
  by (cases e) (auto simp: pool_defs contexts_inv_def context_of_def
      split: if_splits list.splits worker_pc.splits adder_pc.splits)

lemma pool_exec_apc: "pool_exec s e = Some t \<Longrightarrow> apc t = apc s \<or> (\<exists>a x. apc t = (apc s)(a := x))"
  by (cases e; auto simp del: fun_upd_apply simp: take_idle_def WorkerThreadPool_PopJob_def
      split: if_splits list.splits worker_pc.splits adder_pc.splits; blast)

lemma token_invI:
  assumes "pool_exec s e = Some t" and "token_inv s"
    and "\<And>w. pool_mIsRunning (pool s) \<Longrightarrow> w < length (mWorkerThreads (pool s)) \<Longrightarrow>
      tokens s w = (if wpc s w = WRead then 1 else 0) \<Longrightarrow> tokens t w = (if wpc t w = WRead then 1 else 0)"
  shows "token_inv t"
proof -
  have "finite {b. apc t b \<noteq> AOut}"
    using pool_exec_apc[OF assms(1)] active_finite[of "apc s"] assms(2)
    by (auto simp: token_inv_def simp del: fun_upd_apply)
  moreover have "tokens t w = (if wpc t w = WRead then 1 else 0)"
    if "pool_mIsRunning (pool t)" "w < length (mWorkerThreads (pool t))" for w
    using that assms(2,3) pool_exec_threads[OF assms(1)] by (auto simp: token_inv_def)
  ultimately show ?thesis by (simp add: token_inv_def)
qed

lemma tokens_cong:
  assumes "mIdleThreads (pool t) = mIdleThreads (pool s)" and "mWorkerThreads (pool t) = mWorkerThreads (pool s)"
    and "evfd t = evfd s" and "\<And>c. writers t c = writers s c"
  shows "tokens t w = tokens s w"
  using assms by (simp add: tokens_def context_of_def)

text \<open>Steps that touch neither the idle stack nor a held context nor an event descriptor.\<close>

lemma token_inv_quiet:
  assumes "token_inv s" and "pool_exec s e = Some t"
    and "e \<in> {AddPush a j, WakeCheck a, Pop v, ExecDone v, StopFlag}"
  shows "token_inv t"
proof (rule token_invI[OF assms(2,1)])
  fix w
  assume w: "tokens s w = (if wpc s w = WRead then 1 else 0)"
  have "writers t c = writers s c" for c
    using assms(2,3) by (auto simp: writers_def pool_defs split: if_splits list.splits worker_pc.splits)
  moreover have "mIdleThreads (pool t) = mIdleThreads (pool s)" "evfd t = evfd s"
      "wpc t w = WRead \<longleftrightarrow> wpc s w = WRead"
    using assms(2,3) by (auto simp: pool_defs split: if_splits list.splits worker_pc.splits)
  ultimately show "tokens t w = (if wpc t w = WRead then 1 else 0)"
    using w tokens_cong[of t s w] pool_exec_threads(1)[OF assms(2)] by simp
qed

lemma token_inv_WakeTake:
  assumes "token_inv s" and ex: "pool_exec s (WakeTake a) = Some t"
  shows "token_inv t"
proof (rule token_invI[OF ex assms(1)])
  fix w
  assume w: "tokens s w = (if wpc s w = WRead then 1 else 0)"
  show "tokens t w = (if wpc t w = WRead then 1 else 0)"
  proof (cases "mIdleThreads (pool s)")
    case Nil
    with ex w show ?thesis
      by (auto simp: take_idle_def tokens_def writers_def context_of_def split: if_splits)
  next
    case (Cons c cs)
    with ex have a: "apc s a = ALocked"
      and t: "t = s\<lparr>pool := (pool s)\<lparr>mIdleThreads := cs\<rparr>, apc := (apc s)(a := AWrite c)\<rparr>"
      by (auto simp: take_idle_def split: if_splits)
    have "writers t d = (if d = c then insert a (writers s d) else writers s d)" for d
      using a by (auto simp: t writers_def)
    moreover have "a \<notin> writers s d" for d using a by (simp add: writers_def)
    ultimately have "card (writers t d) = card (writers s d) + (if d = c then 1 else 0)" for d
      using writers_finite[OF assms(1)] by simp
    then have "tokens t w = tokens s w"
      using Cons by (simp add: tokens_def) (simp add: t context_of_def)
    with w t show ?thesis by simp
  qed
qed

lemma token_inv_WakeWrite:
  assumes inv: "token_inv s" and ctx: "contexts_inv s" and d: "distinct (map mEventFD (mWorkerThreads (pool s)))"
    and ex: "pool_exec s (WakeWrite a) = Some t"
  shows "token_inv t"
proof (rule token_invI[OF ex inv])
  fix w
  assume len: "w < length (mWorkerThreads (pool s))" and w: "tokens s w = (if wpc s w = WRead then 1 else 0)"
  from ex obtain c where a: "apc s a = AWrite c"
    and t: "t = s\<lparr>evfd := (evfd s)(mEventFD c := Suc (evfd s (mEventFD c))), apc := (apc s)(a := AOut)\<rparr>"
    by (auto split: adder_pc.splits)
  have "c \<in> set (mWorkerThreads (pool s))" using ctx a by (auto simp: contexts_inv_def)
  then obtain v where v: "v < length (mWorkerThreads (pool s))" "c = context_of s v"
    by (auto simp: context_of_def in_set_conv_nth)
  have "writers t e = (if e = c then writers s e - {a} else writers s e)" for e
    using a by (auto simp: t writers_def)
  moreover have "Suc (card (writers s c - {a})) = card (writers s c)"
    using writers_finite[OF inv, of c] a by (intro card_Suc_Diff1) (auto simp: writers_def)
  ultimately have wr: "card (writers t e) + (if e = c then 1 else 0) = card (writers s e)" for e
    by simp
  have fd: "mEventFD (context_of s w) = mEventFD c \<longleftrightarrow> w = v" "context_of s w = c \<longleftrightarrow> w = v"
    using context_of_inj[OF d len v(1)] v(2) by auto
  have "context_of t w = context_of s w" by (simp add: context_of_def t)
  moreover have "evfd t (mEventFD (context_of s w)) = evfd s (mEventFD (context_of s w)) + (if w = v then 1 else 0)"
    using fd v(2) by (auto simp: t)
  ultimately have "tokens t w = tokens s w"
    using wr[of "context_of s w"] fd by (simp add: tokens_def) (simp add: t)
  with w t show "tokens t w = (if wpc t w = WRead then 1 else 0)" by simp
qed

lemma token_inv_IdlePush:
  assumes inv: "token_inv s" and ctx: "contexts_inv s" and d: "distinct (map mEventFD (mWorkerThreads (pool s)))"
    and ex: "pool_exec s (IdlePush v) = Some t"
  shows "token_inv t"
proof (rule token_invI[OF ex inv])
  fix w
  assume len: "w < length (mWorkerThreads (pool s))" and w: "tokens s w = (if wpc s w = WRead then 1 else 0)"
  from ex have v: "wpc s v = WNull"
    and t: "t = s\<lparr>pool := push_idle (pool s) (context_of s v), wpc := (wpc s)(v := WRead)\<rparr>"
    by (auto split: if_splits)
  have "v < length (mWorkerThreads (pool s))" using ctx v by (simp add: contexts_inv_def)
  from context_of_inj(2)[OF d this len] v w show "tokens t w = (if wpc t w = WRead then 1 else 0)"
    by (auto simp: tokens_def t push_idle_def writers_def context_of_def)
qed

lemma token_inv_IdleRead:
  assumes inv: "token_inv s" and ctx: "contexts_inv s" and d: "distinct (map mEventFD (mWorkerThreads (pool s)))"
    and ex: "pool_exec s (IdleRead v) = Some t"
  shows "token_inv t"
proof (rule token_invI[OF ex inv])
  fix w
  assume run: "pool_mIsRunning (pool s)" and len: "w < length (mWorkerThreads (pool s))"
    and w: "tokens s w = (if wpc s w = WRead then 1 else 0)"
  from ex have v: "wpc s v = WRead" "evfd s (mEventFD (context_of s v)) > 0"
    and t: "t = s\<lparr>evfd := (evfd s)(mEventFD (context_of s v) := 0), wpc := (wpc s)(v := WLoop)\<rparr>"
    by (auto split: if_splits)
  have vlen: "v < length (mWorkerThreads (pool s))" using ctx v by (simp add: contexts_inv_def)
  have "tokens s v = 1" using inv run vlen v by (simp add: token_inv_def)
  with context_of_inj(1)[OF d vlen len] v w show "tokens t w = (if wpc t w = WRead then 1 else 0)"
    by (auto simp: tokens_def t writers_def context_of_def)
qed

lemma pool_exec_token_inv:
  assumes "token_inv s" and "contexts_inv s" and "distinct (map mEventFD (mWorkerThreads (pool s)))"
    and ex: "pool_exec s e = Some t"
  shows "token_inv t"
proof (cases e)
  case (AddPush a j)
  then show ?thesis using token_inv_quiet[OF assms(1) ex, of a j] by simp
next
  case (WakeCheck a)
  then show ?thesis using token_inv_quiet[OF assms(1) ex, of a] by simp
next
  case (WakeTake a)
  then show ?thesis using token_inv_WakeTake[OF assms(1)] ex by simp
next
  case (WakeWrite a)
  then show ?thesis using token_inv_WakeWrite[OF assms(1-3)] ex by simp
next
  case (Pop v)
  then show ?thesis using token_inv_quiet[OF assms(1) ex, of _ _ v] by simp
next
  case (IdlePush v)
  then show ?thesis using token_inv_IdlePush[OF assms(1-3)] ex by simp
next
  case (IdleRead v)
  then show ?thesis using token_inv_IdleRead[OF assms(1-3)] ex by simp
next
  case (ExecDone v)
  then show ?thesis using token_inv_quiet[OF assms(1) ex, of _ _ v] by simp
next
  case StopFlag
  then show ?thesis using token_inv_quiet[OF assms(1) ex] by simp
next
  case (StopWrite w)
  with ex have "\<not> pool_mIsRunning (pool s)" by (simp split: if_splits)
  then show ?thesis by (intro token_invI[OF ex assms(1)]) simp
qed

lemma pool_reachable_invs:
  assumes "pool_reachable threads s" and "distinct (map mEventFD threads)"
  shows "token_inv s \<and> contexts_inv s"
  using assms(1)
proof (induction rule: pool_reachable.induct)
  case init
  show ?case by (simp add: token_inv_def contexts_inv_def pool_init_def tokens_def writers_def)
next
  case (step s e t)
  with pool_exec_token_inv[of s e t] pool_exec_contexts_inv[of s e t] pool_reachable_threads[of threads s] assms(2)
  show ?case by simp
qed


section \<open>One adding thread\<close>

fun adder_of :: "'j pool_event \<Rightarrow> nat option" where
  "adder_of (AddPush a j) = Some a"
| "adder_of (WakeCheck a) = Some a"
| "adder_of (WakeTake a) = Some a"
| "adder_of (WakeWrite a) = Some a"
| "adder_of _ = None"

definition single_adder_inv :: "nat \<Rightarrow> 'j pool_sys \<Rightarrow> bool" where
  "single_adder_inv a s \<longleftrightarrow> \<not> crashed s \<and> (apc s a = ALocked \<longrightarrow> mIdleThreads (pool s) \<noteq> [])"

lemma pool_exec_single_adder:
  assumes "pool_exec s e = Some t" and "adder_of e \<in> {None, Some a}" and "single_adder_inv a s"
  shows "single_adder_inv a t"
  using assms
  by (cases e) (auto simp: single_adder_inv_def pool_defs
      split: if_splits list.splits worker_pc.splits adder_pc.splits)

lemma pool_schedule_single_adder:
  "pool_schedule s es = Some t \<Longrightarrow> \<forall>e \<in> set es. adder_of e \<in> {None, Some a} \<Longrightarrow> single_adder_inv a s
    \<Longrightarrow> single_adder_inv a t"
  by (induction es arbitrary: s) (auto split: option.splits dest: pool_exec_single_adder)

section \<open>Properties\<close>

text \<open>
  C20. The job queue is first in, first out and loses nothing: under every schedule, the jobs popped
  so far followed by the jobs still queued are exactly the jobs added, in the order of their pushes.
\<close>

theorem pool_fifo:
  assumes "pool_reachable threads s"
  shows "popped s @ mJobQueue (pool s) = added s"
  using assms
proof (induction rule: pool_reachable.induct)
  case init
  show ?case by (simp add: pool_init_def)
next
  case (step s e t)
  then show ?case by (blast intro: pool_exec_fifo)
qed

definition threads_ex :: "ThreadContext list" where
  "threads_ex = [\<lparr>mThreadHandle = 0, mEventFD = 10\<rparr>]"

lemmas pool_eval = pool_init_def threads_ex_def pool_defs context_of_def

text \<open>Three schedules of one worker: a job that is run, a wake-up that is missed, a stack that is emptied twice.\<close>

definition run_ex :: "nat pool_event list" where
  "run_ex = [AddPush 0 5, WakeCheck 0, Pop 0, ExecDone 0]"

definition lost_ex :: "nat pool_event list" where
  "lost_ex = [Pop 0, AddPush 0 5, WakeCheck 0, IdlePush 0]"

definition race_ex :: "nat pool_event list" where
  "race_ex = [Pop 0, IdlePush 0, AddPush 0 5, AddPush 1 6, WakeCheck 0, WakeCheck 1, WakeTake 0, WakeTake 1]"

theorem pool_fifo_witness:
  "popped (the (pool_schedule (pool_init threads_ex) run_ex)) @
     mJobQueue (pool (the (pool_schedule (pool_init threads_ex) run_ex))) = [5]"
proof -
  have "\<exists>t. pool_schedule (pool_init threads_ex) run_ex = Some t \<and> added t = [5]"
    by (simp add: run_ex_def pool_eval)
  then obtain t where t: "pool_schedule (pool_init threads_ex) run_ex = Some t" "added t = [5]" by blast
  have "pool_reachable threads_ex t" by (rule pool_reachable_schedule[OF pool_reachable.init t(1)])
  from pool_fifo[OF this] t show ?thesis by simp
qed

text \<open>
  C21. While the pool is running, a worker that waits in \<open>Idle\<close> is owed exactly one wake-up: under every
  schedule its context is on the idle stack, or held by exactly one thread that is about to write
  to its event descriptor, or that descriptor has been written once and not yet read. A worker that
  does not wait is owed none. So no worker is forgotten and none is woken twice for one wait.
\<close>

theorem pool_wakeup_tokens:
  assumes "pool_reachable threads s" and "distinct (map mEventFD threads)"
    and "pool_mIsRunning (pool s)" and "w < length threads"
  shows "count_list (mIdleThreads (pool s)) (threads ! w) + card {a. apc s a = AWrite (threads ! w)}
      + evfd s (mEventFD (threads ! w)) = (if wpc s w = WRead then 1 else 0)"
  using pool_reachable_invs[OF assms(1,2)] pool_reachable_threads[OF assms(1)] assms(3,4)
  by (simp add: token_inv_def tokens_def writers_def context_of_def)

theorem pool_wakeup_tokens_witness:
  "\<exists>t. pool_schedule (pool_init threads_ex) lost_ex = Some t
    \<and> count_list (mIdleThreads (pool t)) (threads_ex ! 0) + card {a. apc t a = AWrite (threads_ex ! 0)}
      + evfd t (mEventFD (threads_ex ! 0)) = (if wpc t 0 = WRead then 1 else 0)"
proof -
  have "\<exists>t. pool_schedule (pool_init threads_ex) lost_ex = Some t \<and> pool_mIsRunning (pool t)"
    by (simp add: lost_ex_def pool_eval)
  then obtain t where t: "pool_schedule (pool_init threads_ex) lost_ex = Some t" "pool_mIsRunning (pool t)" by blast
  have "pool_reachable threads_ex t" by (rule pool_reachable_schedule[OF pool_reachable.init t(1)])
  from pool_wakeup_tokens[OF this _ t(2), of 0] t(1) show ?thesis by (simp add: threads_ex_def)
qed

text \<open>
  A wake-up can be lost. If a job is added after a worker found the queue empty and before it
  entered the idle stack, the adder sees no idle thread, and the worker goes to sleep: a reachable
  state has a queued job, its only worker blocked with nothing to read, and no thread that could
  take any further step of its own; only another addition (or the shutdown) can get the job run.
\<close>

theorem pool_lost_wakeup:
  "\<exists>s :: nat pool_sys. pool_reachable threads_ex s \<and> mJobQueue (pool s) = [5] \<and> \<not> crashed s
    \<and> wpc s 0 = WRead \<and> evfd s 10 = 0 \<and> (\<forall>a. apc s a = AOut)
    \<and> (\<forall>e. pool_exec s e \<noteq> None \<longrightarrow> (\<exists>a j. e = AddPush a j) \<or> e = StopFlag)"
proof -
  define s :: "nat pool_sys" where
    "s = \<lparr>pool = \<lparr>pool_mIsRunning = True, mWorkerThreads = threads_ex, mIdleThreads = threads_ex, mJobQueue = [5]\<rparr>,
      evfd = (\<lambda>_. 0), wpc = (\<lambda>_. WLoop)(0 := WRead), apc = (\<lambda>_. AOut), crashed = False, added = [5], popped = []\<rparr>"
  have "pool_schedule (pool_init threads_ex) lost_ex = Some s"
    by (simp add: lost_ex_def pool_eval s_def fun_eq_iff)
  from pool_reachable_schedule[OF pool_reachable.init this] have r: "pool_reachable threads_ex s" .
  have "(\<exists>a j. e = AddPush a j) \<or> e = StopFlag" if "pool_exec s e \<noteq> None" for e
    using that by (cases e) (auto simp: s_def context_of_def threads_ex_def split: if_splits)
  with r show ?thesis
    by (intro exI[of _ s]) (auto simp: s_def)
qed

text \<open>
  The event under which the last theorem is exploited, and its hypothesis, are concrete: the final
  clause quantifies over the events of the system, so a use of it names one.
\<close>

theorem pool_lost_wakeup_witness:
  "\<exists>s :: nat pool_sys. pool_reachable threads_ex s \<and> mJobQueue (pool s) = [5] \<and> pool_exec s (Pop 0) = None"
  using pool_lost_wakeup by blast

text \<open>
  Two threads that add jobs at the same time can break the idle stack: both see one idle thread
  without holding the lock, the first takes it, and the second calls \<^verbatim>\<open>top()\<close> and \<^verbatim>\<open>pop()\<close> on the
  empty stack. The state in which that has happened is reachable with one worker.
\<close>

theorem pool_wake_race:
  "\<exists>s :: nat pool_sys. pool_reachable threads_ex s \<and> crashed s"
proof -
  have "\<exists>t. pool_schedule (pool_init threads_ex) race_ex = Some t \<and> crashed t"
    by (simp add: race_ex_def pool_eval)
  then show ?thesis using pool_reachable_schedule[OF pool_reachable.init] by blast
qed

text \<open>
  With a single adding thread the idle stack is never popped when empty: no schedule in which all
  additions are made by one thread reaches the undefined pop.
\<close>

theorem pool_single_adder_safe:
  assumes "pool_schedule (pool_init threads) es = Some t" and "\<forall>e \<in> set es. adder_of e \<in> {None, Some a}"
  shows "\<not> crashed t"
  using pool_schedule_single_adder[OF assms] by (simp add: single_adder_inv_def pool_init_def)

theorem pool_single_adder_safe_witness:
  "\<not> crashed (the (pool_schedule (pool_init threads_ex) lost_ex))"
proof -
  obtain t where t: "pool_schedule (pool_init threads_ex) lost_ex = Some t"
    by (simp add: lost_ex_def pool_eval)
  have "\<forall>e \<in> set lost_ex. adder_of e \<in> {None, Some 0}" by (simp add: lost_ex_def)
  from pool_single_adder_safe[OF t this] t show ?thesis by simp
qed

text \<open>
  Shutdown reaches every worker: once the running flag is cleared and the worker's event
  descriptor has been written, a worker that is not inside a job gets to the end of its thread in at
  most three steps of its own, wherever it was in the loop; the wake-up cannot be missed.
\<close>

theorem pool_stop_reaches_worker:
  assumes "\<not> pool_mIsRunning (pool s)" and "w < length (mWorkerThreads (pool s))"
    and "evfd s (mEventFD (context_of s w)) > 0" and "wpc s w \<in> {WLoop, WNull, WRead}"
  shows "\<exists>es t. pool_schedule s es = Some t \<and> wpc t w = WDone \<and> length es \<le> 3
    \<and> set es \<subseteq> {Pop w, IdlePush w, IdleRead w}"
proof -
  have loop: "\<exists>t. pool_schedule s' [Pop w] = Some t \<and> wpc t w = WDone"
    if "wpc s' w = WLoop" "\<not> pool_mIsRunning (pool s')" "w < length (mWorkerThreads (pool s'))" for s' :: "'a pool_sys"
    using that by simp
  consider "wpc s w = WLoop" | "wpc s w = WRead" | "wpc s w = WNull" using assms(4) by blast
  then show ?thesis
  proof cases
    case 1
    with loop[OF 1 assms(1,2)] show ?thesis by (intro exI[of _ "[Pop w]"]) auto
  next
    case 2
    with assms show ?thesis by (intro exI[of _ "[IdleRead w, Pop w]"]) auto
  next
    case 3
    with assms show ?thesis
      by (intro exI[of _ "[IdlePush w, IdleRead w, Pop w]"]) (auto simp: push_idle_def context_of_def)
  qed
qed

definition stopped_ex :: "nat pool_sys" where
  "stopped_ex = (pool_init threads_ex)\<lparr>pool := \<lparr>pool_mIsRunning = False, mWorkerThreads = threads_ex,
     mIdleThreads = [], mJobQueue = []\<rparr>, evfd := (\<lambda>_. 1), wpc := (\<lambda>_. WNull)\<rparr>"

theorem pool_stop_reaches_worker_witness:
  "\<exists>es t. pool_schedule stopped_ex es = Some t \<and> wpc t 0 = WDone \<and> length es \<le> 3
    \<and> set es \<subseteq> {Pop 0, IdlePush 0, IdleRead 0}"
  by (rule pool_stop_reaches_worker) (simp_all add: stopped_ex_def threads_ex_def)

text \<open>
  The cut into steps is the code: the steps of one call of \<open>AddJob\<close>, run without interruption,
  have the effect of the sequential member function, on the pool and on the event descriptors.
\<close>

theorem AddJob_steps_refine:
  assumes "apc s a = AOut"
  shows "\<exists>es t p reqs. WorkerThreadPool_AddJob (pool s) j = Inr (p, reqs)
    \<and> pool_schedule s es = Some t \<and> set es \<subseteq> {AddPush a j, WakeCheck a, WakeTake a, WakeWrite a}
    \<and> pool t = p \<and> apc t = apc s \<and> wpc t = wpc s \<and> crashed t = crashed s
    \<and> evfd t = (\<lambda>fd. evfd s fd + (if reqs = [WriteEvent fd] then 1 else 0))"
proof (cases "mIdleThreads (pool s)")
  case Nil
  with assms show ?thesis
    by (intro exI[of _ "[AddPush a j, WakeCheck a]"])
      (auto simp: WorkerThreadPool_AddJob_def WorkerThreadPool_WakeOneThread_def push_job_def fun_eq_iff)
next
  case (Cons c cs)
  with assms show ?thesis
    by (intro exI[of _ "[AddPush a j, WakeCheck a, WakeTake a, WakeWrite a]"])
      (auto simp: WorkerThreadPool_AddJob_def WorkerThreadPool_WakeOneThread_def take_idle_def push_job_def fun_eq_iff)
qed

theorem AddJob_steps_refine_witness:
  "\<exists>es t p reqs. WorkerThreadPool_AddJob (pool (pool_init threads_ex :: nat pool_sys)) (5 :: nat) = Inr (p, reqs)
    \<and> pool_schedule (pool_init threads_ex :: nat pool_sys) es = Some t
    \<and> set es \<subseteq> {AddPush 0 5, WakeCheck 0, WakeTake 0, WakeWrite 0}
    \<and> pool t = p \<and> apc t = apc (pool_init threads_ex :: nat pool_sys) \<and> wpc t = wpc (pool_init threads_ex :: nat pool_sys)
    \<and> crashed t = crashed (pool_init threads_ex :: nat pool_sys)
    \<and> evfd t = (\<lambda>fd. evfd (pool_init threads_ex :: nat pool_sys) fd + (if reqs = [WriteEvent fd] then 1 else 0))"
  by (rule AddJob_steps_refine) (simp add: pool_init_def)

end
