(* ===== verification/Endpoint.thy ===== *)
theory Endpoint
  imports Cxx_Prelude
begin

text \<open>
  Socket addresses, \<^verbatim>\<open>class Endpoint\<close> of \<^verbatim>\<open>src/src/lib-core/include/core/Network/Endpoint.hpp\<close> and
  \<^verbatim>\<open>src/src/lib-core/src/Network/Endpoint.cpp\<close>: the bytes of a \<^verbatim>\<open>sockaddr_storage\<close> as Linux lays
  them out on a little-endian machine, the two constructors, and the queries. \<^verbatim>\<open>inet_pton\<close> and
  \<^verbatim>\<open>inet_ntop\<close> belong to the C library; they are arguments of the definitions that call them.
\<close>

unbundle bit_operations_syntax

section \<open>Address bytes\<close>

text \<open>A UInt16 in memory has its low byte first; network order has its high byte first.\<close>

definition load16 :: "arr \<Rightarrow> int \<Rightarrow> UInt16" where
  "load16 m off = ucast (m off) OR push_bit 8 (ucast (m (off + 1)))"

definition store16 :: "arr \<Rightarrow> int \<Rightarrow> UInt16 \<Rightarrow> arr" where
  "store16 m off w = m(off := ucast w, off + 1 := ucast (drop_bit 8 w))"

definition htons :: "UInt16 \<Rightarrow> UInt16" where
  "htons w = push_bit 8 w OR drop_bit 8 w"

definition ntohs :: "UInt16 \<Rightarrow> UInt16" where
  "ntohs w = push_bit 8 w OR drop_bit 8 w"

definition store_bytes :: "arr \<Rightarrow> int \<Rightarrow> Byte list \<Rightarrow> arr" where
  "store_bytes m off bs = (\<lambda>k. if off \<le> k \<and> k < off + int (length bs) then bs ! nat (k - off) else m k)"

definition AF_UNSPEC :: UInt16 where "AF_UNSPEC = 0"
definition AF_INET :: UInt16 where "AF_INET = 2"
definition AF_INET6 :: UInt16 where "AF_INET6 = 10"

text \<open>
  Layout: the family at offset 0, the port at offset 2 in both forms; the address at offset 4 of a
  \<^verbatim>\<open>sockaddr_in\<close> (16 bytes in all) and at offset 8 of a \<^verbatim>\<open>sockaddr_in6\<close> (28 bytes in all).
\<close>

definition sizeof_sockaddr_in :: int where "sizeof_sockaddr_in = 16"
definition sizeof_sockaddr_in6 :: int where "sizeof_sockaddr_in6 = 28"

definition sa_family :: "arr \<Rightarrow> UInt16" where "sa_family m = load16 m 0"
definition sa_port :: "arr \<Rightarrow> UInt16" where "sa_port m = load16 m 2"

section \<open>Endpoint\<close>

datatype eIPVersion = NONE | IPv4 | IPv6

record Endpoint =
  mAddress :: arr

text \<open>
  The member is not initialised: a constructor starts from what the storage held and copies or
  writes only the bytes its code touches.
\<close>

definition Endpoint_of_sockaddr :: "arr \<Rightarrow> arr \<Rightarrow> Endpoint" where
  "Endpoint_of_sockaddr storage addr =
     (if sa_family addr = AF_INET
      then \<lparr>mAddress = (\<lambda>k. if 0 \<le> k \<and> k < sizeof_sockaddr_in then addr k else storage k)\<rparr>
      else if sa_family addr = AF_INET6
      then \<lparr>mAddress = (\<lambda>k. if 0 \<le> k \<and> k < sizeof_sockaddr_in6 then addr k else storage k)\<rparr>
      else \<lparr>mAddress = storage\<rparr>)"

text \<open>
  \<open>inet_pton family text\<close> is \<open>Some bytes\<close> when the C function returns 1, having written the bytes at
  the address it was given, and \<open>None\<close> for every other result.
\<close>

definition Endpoint_ctor ::
  "(UInt16 \<Rightarrow> string \<Rightarrow> Byte list option) \<Rightarrow> arr \<Rightarrow> eIPVersion \<Rightarrow> string \<Rightarrow> UInt16 \<Rightarrow> Endpoint" where
  "Endpoint_ctor inet_pton storage ipVersion ipAddress port =
     (if ipVersion = NONE then \<lparr>mAddress = storage\<rparr>
      else
        let addressFamily = (if ipVersion = IPv4 then AF_INET else AF_INET6) in
        case inet_pton addressFamily ipAddress of
          None \<Rightarrow> \<lparr>mAddress = storage\<rparr>
        | Some bytes \<Rightarrow>
            let m = store_bytes storage (if addressFamily = AF_INET then 4 else 8) bytes in
            \<lparr>mAddress = store16 (store16 m 0 addressFamily) 2 (htons port)\<rparr>)"

definition Endpoint_GetIPVersion :: "Endpoint \<Rightarrow> eIPVersion" where
  "Endpoint_GetIPVersion e =
     (if sa_family (mAddress e) = AF_INET then IPv4
      else if sa_family (mAddress e) = AF_INET6 then IPv6
      else NONE)"

definition Endpoint_GetPort :: "Endpoint \<Rightarrow> UInt16" where
  "Endpoint_GetPort e =
     (if sa_family (mAddress e) = AF_INET then ntohs (sa_port (mAddress e))
      else if sa_family (mAddress e) = AF_INET6 then ntohs (sa_port (mAddress e))
      else 0)"

text \<open>The address of the member, as the system calls take it: here the bytes it points to.\<close>

definition Endpoint_GetAddress :: "Endpoint \<Rightarrow> arr" where
  "Endpoint_GetAddress e = mAddress e"

declare Endpoint_GetAddress_def [simp]

text \<open>
  The result code with the text written to the caller's buffer; \<open>inet_ntop family bytes len\<close> is
  \<open>None\<close> when the C function returns a null pointer.
\<close>

definition Endpoint_GetIPAddressString ::
  "(UInt16 \<Rightarrow> Byte list \<Rightarrow> nat \<Rightarrow> string option) \<Rightarrow> Endpoint \<Rightarrow> nat \<Rightarrow> int \<times> string option" where
  "Endpoint_GetIPAddressString inet_ntop e bufferLen =
     (if sa_family (mAddress e) = AF_INET then
        (case inet_ntop AF_INET (bytes_at (mAddress e) 4 4) bufferLen of
           None \<Rightarrow> (-1, None) | Some t \<Rightarrow> (0, Some t))
      else if sa_family (mAddress e) = AF_INET6 then
        (case inet_ntop AF_INET6 (bytes_at (mAddress e) 8 16) bufferLen of
           None \<Rightarrow> (-1, None) | Some t \<Rightarrow> (0, Some t))
      else (-1, None))"

section \<open>Lemmas\<close>

lemma ntohs_htons [simp]: "ntohs (htons w) = w"
  by (rule bit_word_eqI) (auto simp: ntohs_def htons_def bit_simps)

lemma load16_store16 [simp]: "load16 (store16 m off w) off = w"
  by (rule bit_word_eqI) (auto simp: load16_def store16_def bit_simps)

lemma load16_other:
  "off' + 1 < off \<or> off + 1 < off' \<Longrightarrow> load16 (store16 m off w) off' = load16 m off'"
  by (auto simp: load16_def store16_def)

lemma families_differ [simp]: "AF_INET \<noteq> AF_INET6" "AF_INET6 \<noteq> AF_INET"
  by (simp_all add: AF_INET_def AF_INET6_def)

lemmas sockaddr_defs = sa_family_def sa_port_def sizeof_sockaddr_in_def sizeof_sockaddr_in6_def

lemma bytes_at_store_bytes:
  "bytes_at (store_bytes m off bs) off (int (length bs)) = bs"
  by (rule nth_equalityI) (auto simp: bytes_at_def store_bytes_def)

lemma bytes_at_store16:
  "off + 1 < o' \<Longrightarrow> bytes_at (store16 m off w) o' n = bytes_at m o' n"
  by (rule bytes_at_cong) (auto simp: store16_def)

section \<open>Properties\<close>



text \<open>
  An endpoint copied from a socket address of a known family has that family's version and the
  address's port, and agrees with it on every byte of the form; one copied from any other family, or
  built from text the C library rejects, is the untouched storage.
\<close>

theorem Endpoint_copy:
  "(sa_family addr = AF_INET \<longrightarrow>
      Endpoint_GetIPVersion (Endpoint_of_sockaddr storage addr) = IPv4
      \<and> Endpoint_GetPort (Endpoint_of_sockaddr storage addr) = ntohs (sa_port addr)
      \<and> bytes_at (mAddress (Endpoint_of_sockaddr storage addr)) 0 16 = bytes_at addr 0 16)
   \<and> (sa_family addr = AF_INET6 \<longrightarrow>
      Endpoint_GetIPVersion (Endpoint_of_sockaddr storage addr) = IPv6
      \<and> Endpoint_GetPort (Endpoint_of_sockaddr storage addr) = ntohs (sa_port addr)
      \<and> bytes_at (mAddress (Endpoint_of_sockaddr storage addr)) 0 28 = bytes_at addr 0 28)
   \<and> (sa_family addr \<notin> {AF_INET, AF_INET6} \<longrightarrow> mAddress (Endpoint_of_sockaddr storage addr) = storage)
   \<and> (inet_pton (if v = IPv4 then AF_INET else AF_INET6) ip = None \<longrightarrow>
      mAddress (Endpoint_ctor inet_pton storage v ip port) = storage)"
  by (auto simp: Endpoint_of_sockaddr_def Endpoint_ctor_def Endpoint_GetIPVersion_def Endpoint_GetPort_def
      sockaddr_defs load16_def bytes_at_def)

definition sockaddr_ex :: arr where
  "sockaddr_ex = store16 (store16 (\<lambda>_. 0) 0 AF_INET) 2 (htons 80)"

theorem Endpoint_copy_witness:
  "Endpoint_GetIPVersion (Endpoint_of_sockaddr (\<lambda>_. 7) sockaddr_ex) = IPv4
    \<and> Endpoint_GetPort (Endpoint_of_sockaddr (\<lambda>_. 7) sockaddr_ex) = 80"
proof -
  have "sa_family sockaddr_ex = AF_INET" "sa_port sockaddr_ex = htons 80"
    by (simp_all add: sockaddr_ex_def sockaddr_defs load16_other)
  with Endpoint_copy[of sockaddr_ex "\<lambda>_. 7" "\<lambda>_ _. None" IPv4 "[]" 0] show ?thesis
    by simp
qed

end
