(* ===== verification/Server_Jobs.thy ===== *)
theory Server_Jobs
  imports Session_Group Worker_Pool Endpoint
begin

text \<open>
  The server object and the jobs that drive it: \<^verbatim>\<open>class Server\<close>
  (\<^verbatim>\<open>src/src/lib-core/include/core/Server.hpp\<close>, \<^verbatim>\<open>src/src/lib-core/src/Server.cpp\<close>) and
  \<^verbatim>\<open>PollJob\<close>, \<^verbatim>\<open>SendPollJob\<close>, \<^verbatim>\<open>AcceptJob\<close> of \<^verbatim>\<open>src/src/lib-core/src/ServerJob.cpp\<close>. The server owns
  the session table and the worker pool through pointers; its member functions pass them on.
\<close>

section \<open>State\<close>

record Server = ServerFds +
  mIsRunning :: bool
  mWorkerThreadPool :: "job_ref WorkerThreadPool ptr"
  mSessionGroup :: "SessionGroup ptr"
  mPollJob :: "job_ref ptr"
  mAcceptJob :: "job_ref ptr"

datatype server_effect =
    Net effect | PoolReq pool_request | Socket UInt16
  | Bind SocketFD "Byte list" | Listen SocketFD

section \<open>Sessions and jobs of a running server\<close>

definition Server_AddJob :: "Server \<Rightarrow> job_ref \<Rightarrow> (Server \<times> server_effect list) cxx" where
  "Server_AddJob srv job =
     bindr (deref (mWorkerThreadPool srv)) (\<lambda>threadPool.
       bindr (WorkerThreadPool_AddJob threadPool job) (\<lambda>(p, reqs).
         Inr (srv\<lparr>mWorkerThreadPool := Ptr p\<rparr>, map PoolReq reqs)))"

definition Server_AddSession :: "Server \<Rightarrow> SocketFD \<Rightarrow> (SessionID \<times> Server) cxx" where
  "Server_AddSession srv clientFD =
     bindr (deref (mSessionGroup srv)) (\<lambda>sessionGroup.
       bindr (SessionGroup_AddSession sessionGroup clientFD) (\<lambda>(i, g).
         Inr (i, srv\<lparr>mSessionGroup := Ptr g\<rparr>)))"

definition Server_DeleteSession :: "Server \<Rightarrow> SessionID \<Rightarrow> (bool \<times> Server) cxx" where
  "Server_DeleteSession srv sessionID =
     bindr (deref (mSessionGroup srv)) (\<lambda>sessionGroup.
       bindr (SessionGroup_DeleteSession sessionGroup sessionID) (\<lambda>(r, g).
         Inr (r, srv\<lparr>mSessionGroup := Ptr g\<rparr>)))"

text \<open>A change of the session that a pointer into the session vector refers to.\<close>

definition set_session :: "SessionGroup \<Rightarrow> int \<Rightarrow> Session \<Rightarrow> SessionGroup" where
  "set_session g index s = g\<lparr>mSessionVector := (mSessionVector g)[nat index := s]\<rparr>"

definition Server_Send ::
  "Server \<Rightarrow> SessionID \<Rightarrow> int \<Rightarrow> int \<Rightarrow> writev_answer list \<Rightarrow> (Server \<times> effect list) cxx" where
  "Server_Send srv sessionID buffer bufferSize answers =
     bindr (deref (mSessionGroup srv)) (\<lambda>sessionGroup.
       bindr (SessionGroup_GetSession sessionGroup sessionID) (\<lambda>session.
         case session of
           None \<Rightarrow> Inr (srv, [])
         | Some index \<Rightarrow>
             bindr (session_at sessionGroup index) (\<lambda>s.
               let (s', es) = Session_Send srv index s buffer bufferSize answers
               in Inr (srv\<lparr>mSessionGroup := Ptr (set_session sessionGroup index s')\<rparr>, es))))"

section \<open>The poll jobs\<close>

definition sMAX_EVENTS :: int where
  "sMAX_EVENTS = 126"

text \<open>
  The answer of \<^verbatim>\<open>epoll_wait\<close>: the pointers of the ready events, at most \<^verbatim>\<open>sMAX_EVENTS\<close> of them, or an
  error. The loop around the call runs once: its condition is false, and \<^verbatim>\<open>continue\<close> goes there.
\<close>

datatype epoll_wait_answer = Ready "job_ref list" | WaitErr errno

fun ready_jobs :: "epoll_wait_answer \<Rightarrow> job_ref list" where
  "ready_jobs (Ready events) = events"
| "ready_jobs (WaitErr _) = []"

fun add_jobs :: "Server \<Rightarrow> job_ref list \<Rightarrow> (Server \<times> server_effect list) cxx" where
  "add_jobs srv [] = Inr (srv, [])"
| "add_jobs srv (j # js) =
     bindr (Server_AddJob srv j) (\<lambda>(srv1, es1).
       bindr (add_jobs srv1 js) (\<lambda>(srv2, es2). Inr (srv2, es1 @ es2)))"

definition PollJob_Execute :: "Server \<Rightarrow> epoll_wait_answer \<Rightarrow> (bool \<times> Server \<times> server_effect list) cxx" where
  "PollJob_Execute srv answer =
     bindr (case answer of WaitErr _ \<Rightarrow> Inr (srv, []) | Ready events \<Rightarrow> add_jobs srv events) (\<lambda>(srv1, es1).
       bindr (Server_AddJob srv1 PollJobRef) (\<lambda>(srv2, es2). Inr (True, srv2, es1 @ es2)))"

text \<open>\<open>self\<close> is the address of the job: no member of the server refers to a job of this class.\<close>

definition SendPollJob_Execute ::
  "job_ref \<Rightarrow> Server \<Rightarrow> epoll_wait_answer \<Rightarrow> (bool \<times> Server \<times> server_effect list) cxx" where
  "SendPollJob_Execute self srv answer =
     bindr (case answer of
              WaitErr _ \<Rightarrow> Inr (srv, [])
            | Ready events \<Rightarrow> add_jobs srv (filter (\<lambda>j. j \<noteq> NullJob) events)) (\<lambda>(srv1, es1).
       bindr (Server_AddJob srv1 self) (\<lambda>(srv2, es2). Inr (True, srv2, es1 @ es2)))"

section \<open>The accept job\<close>

datatype accept_answer = Accepted SocketFD arr | AcceptErr errno

text \<open>
  The virtual functions of the application are arguments: \<open>OnAccepeted\<close> decides on the endpoint of
  the client, \<open>OnConnected\<close> may use the server. \<open>stack\<close> is what the memory of the local endpoint held.
\<close>

type_synonym on_connected = "SessionID \<Rightarrow> Server \<Rightarrow> (Server \<times> server_effect list) cxx"

definition accept_one ::
  "on_connected \<Rightarrow> int \<Rightarrow> Server \<Rightarrow> SocketFD \<Rightarrow> (Server \<times> server_effect list) cxx" where
  "accept_one OnConnected epollFD srv clientFD =
     bindr (Server_AddSession srv clientFD) (\<lambda>(clientSession, srv1).
       bindr (deref (mSessionGroup srv1)) (\<lambda>sessionGroup.
         bindr (SessionGroup_GetSession sessionGroup clientSession) (\<lambda>session.
           case session of
             None \<Rightarrow> Inl NullDeref
           | Some index \<Rightarrow>
               bindr (OnConnected clientSession srv1) (\<lambda>(srv2, es).
                 Inr (srv2,
                   [Net (SetNonBlock clientFD), Net (SetSockOpt clientFD SOL_SOCKET TCP_NODELAY),
                    Net (EpollCtl (Server_GetSendPollFD srv1) EPOLL_CTL_ADD clientFD
                           (Some (NullJob, [EPOLLOUT, EPOLLONESHOT]))),
                    Net (EpollCtl epollFD EPOLL_CTL_ADD clientFD
                           (Some (Session_GetRecvJob index, [EPOLLONESHOT, EPOLLIN, EPOLLET]))),
                    Net (CallOnConnected clientSession)] @ es)))))"

fun accept_loop ::
  "(Endpoint \<Rightarrow> bool) \<Rightarrow> on_connected \<Rightarrow> int \<Rightarrow> arr \<Rightarrow> Server \<Rightarrow> accept_answer list \<Rightarrow>
   (Server \<times> server_effect list) cxx" where
  "accept_loop OnAccepeted OnConnected epollFD stack srv [] = Inr (srv, [])"
| "accept_loop OnAccepeted OnConnected epollFD stack srv (AcceptErr e # rest) =
     (if e = EAGAIN then Inr (srv, [])
      else if e = EINTR then accept_loop OnAccepeted OnConnected epollFD stack srv rest
      else Inr (srv, []))"
| "accept_loop OnAccepeted OnConnected epollFD stack srv (Accepted clientFD clientAddress # rest) =
     (if \<not> OnAccepeted (Endpoint_of_sockaddr stack clientAddress)
      then bindr (accept_loop OnAccepeted OnConnected epollFD stack srv rest)
             (\<lambda>(srv2, es2). Inr (srv2, Net (CloseFD clientFD) # es2))
      else bindr (accept_one OnConnected epollFD srv clientFD) (\<lambda>(srv1, es1).
             bindr (accept_loop OnAccepeted OnConnected epollFD stack srv1 rest)
               (\<lambda>(srv2, es2). Inr (srv2, es1 @ es2))))"

definition AcceptJob_Execute ::
  "(Endpoint \<Rightarrow> bool) \<Rightarrow> on_connected \<Rightarrow> arr \<Rightarrow> Server \<Rightarrow> accept_answer list \<Rightarrow>
   (bool \<times> Server \<times> server_effect list) cxx" where
  "AcceptJob_Execute OnAccepeted OnConnected stack srv answers =
     bindr (accept_loop OnAccepeted OnConnected (Server_GetEpollFD srv) stack srv answers)
       (\<lambda>(srv', es). Inr (True, srv', es))"

definition AcceptJob_Complete :: "Server \<Rightarrow> server_effect list" where
  "AcceptJob_Complete srv =
     [Net (EpollCtl (Server_GetEpollFD srv) EPOLL_CTL_MOD (Server_GetListenSocket srv)
             (Some (AcceptJobRef, [EPOLLONESHOT, EPOLLIN, EPOLLET])))]"

section \<open>The job queue under the poll job\<close>

lemma Server_AddJob_Ptr:
  assumes "mWorkerThreadPool srv = Ptr p"
  shows "Server_AddJob srv j =
    Inr (srv\<lparr>mWorkerThreadPool := Ptr (p\<lparr>mJobQueue := mJobQueue p @ [j], mIdleThreads := drop 1 (mIdleThreads p)\<rparr>)\<rparr>,
         map (\<lambda>c. PoolReq (WriteEvent (mEventFD c))) (take 1 (mIdleThreads p)))"
  using assms
  by (cases "mIdleThreads p")
    (simp_all add: Server_AddJob_def WorkerThreadPool_AddJob_def WorkerThreadPool_WakeOneThread_def
      push_job_def take_idle_def)

lemma add_jobs_Ptr:
  assumes "mWorkerThreadPool srv = Ptr p"
  shows "add_jobs srv js =
    Inr (srv\<lparr>mWorkerThreadPool := Ptr (p\<lparr>mJobQueue := mJobQueue p @ js,
            mIdleThreads := drop (length js) (mIdleThreads p)\<rparr>)\<rparr>,
         map (\<lambda>c. PoolReq (WriteEvent (mEventFD c))) (take (length js) (mIdleThreads p)))"
  using assms
proof (induction js arbitrary: srv p)
  case Nil
  then show ?case by simp
next
  case (Cons j js)
  let ?p = "p\<lparr>mJobQueue := mJobQueue p @ [j], mIdleThreads := drop 1 (mIdleThreads p)\<rparr>"
  have "mWorkerThreadPool (srv\<lparr>mWorkerThreadPool := Ptr ?p\<rparr>) = Ptr ?p" by simp
  note ih = Cons.IH[OF this]
  have wakes: "map f (take (Suc (length js)) xs) = map f (take 1 xs) @ map f (take (length js) (drop 1 xs))"
    for f :: "ThreadContext \<Rightarrow> server_effect" and xs
    by (cases xs) simp_all
  show ?case
    by (simp add: Server_AddJob_Ptr[OF Cons.prems] ih wakes del: One_nat_def) simp
qed

lemma add_jobs_append:
  "add_jobs srv (xs @ ys) = bindr (add_jobs srv xs) (\<lambda>(srv1, es1).
     bindr (add_jobs srv1 ys) (\<lambda>(srv2, es2). Inr (srv2, es1 @ es2)))"
proof (induction xs arbitrary: srv)
  case Nil
  show ?case by (cases "add_jobs srv ys") auto
next
  case (Cons x xs)
  then show ?case
    by (cases "Server_AddJob srv x") (auto simp: bindr_def split: sum.splits)
qed

lemma PollJob_Execute_Ptr:
  assumes "mWorkerThreadPool srv = Ptr p"
  shows "PollJob_Execute srv answer =
    Inr (True, srv\<lparr>mWorkerThreadPool := Ptr (p\<lparr>mJobQueue := mJobQueue p @ ready_jobs answer @ [PollJobRef],
                mIdleThreads := drop (Suc (length (ready_jobs answer))) (mIdleThreads p)\<rparr>)\<rparr>,
         map (\<lambda>c. PoolReq (WriteEvent (mEventFD c))) (take (Suc (length (ready_jobs answer))) (mIdleThreads p)))"
proof -
  have "PollJob_Execute srv answer = bindr (add_jobs srv (ready_jobs answer @ [PollJobRef])) (\<lambda>(srv2, es2). Inr (True, srv2, es2))"
    using assms
    by (cases answer)
      (simp_all add: PollJob_Execute_def add_jobs_append add_jobs_Ptr Server_AddJob_Ptr)
  then show ?thesis
    using add_jobs_Ptr[OF assms, of "ready_jobs answer @ [PollJobRef]"] by simp
qed

section \<open>The session table under the server\<close>

lemma table_set_session:
  assumes "table_inv g M" and "M i = Some s" and "mSessionID s' = i"
  shows "table_inv (set_session g (GetIndex i) s') (M(i \<mapsto> s'))"
proof -
  note l = table_inv_live[OF assms(1,2)]
  have other: "nat (GetIndex j) \<noteq> nat (GetIndex i)" if "M j = Some t" "j \<noteq> i" for j t
    using table_inv_inj[OF assms(1)] that assms(2) l(1) table_inv_live(1)[OF assms(1) that(1)]
    by (auto simp: inj_on_def dom_def)
  have img: "GetIndex ` dom (M(i \<mapsto> s')) = GetIndex ` dom M" using assms(2) by auto
  have entry: "mSessionVector (set_session g (GetIndex i) s') ! nat (GetIndex j) = t \<and> mSessionID t = j"
    if "(M(i \<mapsto> s')) j = Some t" for j t
  proof (cases "j = i")
    case True
    with that l assms(3) show ?thesis by (auto simp: set_session_def)
  next
    case False
    with that other[of j t] table_inv_live(4,5)[OF assms(1), of j t] show ?thesis
      by (simp add: set_session_def)
  qed
  have frame: "mMaxSession (set_session g k t) = mMaxSession g"
    "length (mSessionVector (set_session g k t)) = length (mSessionVector g)"
    "mSessionIndexPool (set_session g k t) = mSessionIndexPool g" for k t
    by (simp_all add: set_session_def)
  show ?thesis
    unfolding table_inv_def img frame using assms(1) entry unfolding table_inv_def by blast
qed

lemma Server_AddSession_room:
  assumes "mSessionGroup srv = Ptr g" and "table_inv g M" and "int (card (dom M)) < mMaxSession g"
  shows "\<exists>i s g'. Server_AddSession srv fd = Inr (i, srv\<lparr>mSessionGroup := Ptr g'\<rparr>) \<and> i \<notin> dom M
    \<and> s = Session_ctor (mSessionVector g ! nat (GetIndex i)) i fd
    \<and> table_inv g' (M(i \<mapsto> s)) \<and> mMaxSession g' = mMaxSession g"
  using table_add[OF assms(2,3), of fd] assms(1) by (auto simp: Server_AddSession_def)

text \<open>
  The connections one run of the accept job handles: those answered before the first error other
  than EINTR, each with the decision of the application.
\<close>

fun handled :: "(Endpoint \<Rightarrow> bool) \<Rightarrow> arr \<Rightarrow> accept_answer list \<Rightarrow> (SocketFD \<times> bool) list" where
  "handled OnAccepeted stack [] = []"
| "handled OnAccepeted stack (AcceptErr e # rest) = (if e = EINTR then handled OnAccepeted stack rest else [])"
| "handled OnAccepeted stack (Accepted fd addr # rest) =
     (fd, OnAccepeted (Endpoint_of_sockaddr stack addr)) # handled OnAccepeted stack rest"

text \<open>The requests for one handled connection, given the identifier of its session if it was kept.\<close>

fun accept_log :: "int \<Rightarrow> int \<Rightarrow> SocketFD \<times> SessionID option \<Rightarrow> server_effect list" where
  "accept_log epollFD sendPollFD (fd, None) = [Net (CloseFD fd)]"
| "accept_log epollFD sendPollFD (fd, Some i) =
     [Net (SetNonBlock fd), Net (SetSockOpt fd SOL_SOCKET TCP_NODELAY),
      Net (EpollCtl sendPollFD EPOLL_CTL_ADD fd (Some (NullJob, [EPOLLOUT, EPOLLONESHOT]))),
      Net (EpollCtl epollFD EPOLL_CTL_ADD fd (Some (RecvJobRef (GetIndex i), [EPOLLONESHOT, EPOLLIN, EPOLLET]))),
      Net (CallOnConnected i)]"

text \<open>
  The part of the application's contract that concerns new connections: \<open>OnConnected\<close> returns, makes
  no requests the log has to show, and keeps the server's descriptors and its table, each session
  up to the relation \<open>evolves\<close>.
\<close>

locale connect_app =
  fixes OnConnected :: on_connected and evolves :: "Session \<Rightarrow> Session \<Rightarrow> bool"
  assumes evolves_refl: "evolves s s"
    and evolves_trans: "evolves s s' \<Longrightarrow> evolves s' s'' \<Longrightarrow> evolves s s''"
    and on_connected: "mSessionGroup srv = Ptr g \<Longrightarrow> table_inv g M \<Longrightarrow> i \<in> dom M \<Longrightarrow>
      \<exists>g' M'. OnConnected i srv = Inr (srv\<lparr>mSessionGroup := Ptr g'\<rparr>, []) \<and> table_inv g' M'
        \<and> dom M' = dom M \<and> mMaxSession g' = mMaxSession g
        \<and> (\<forall>j\<in>dom M. evolves (the (M j)) (the (M' j)))"
begin

lemma accept_one_spec:
  assumes "mSessionGroup srv = Ptr g" and "table_inv g M" and "int (card (dom M)) < mMaxSession g"
  shows "\<exists>i s g' M'. accept_one OnConnected epollFD srv fd
      = Inr (srv\<lparr>mSessionGroup := Ptr g'\<rparr>, accept_log epollFD (mSendPollFD srv) (fd, Some i))
    \<and> i \<notin> dom M \<and> dom M' = insert i (dom M) \<and> table_inv g' M' \<and> mMaxSession g' = mMaxSession g
    \<and> s = Session_ctor (mSessionVector g ! nat (GetIndex i)) i fd
    \<and> evolves s (the (M' i)) \<and> (\<forall>j\<in>dom M. evolves (the (M j)) (the (M' j)))"
proof -
  obtain i s g1 where a: "Server_AddSession srv fd = Inr (i, srv\<lparr>mSessionGroup := Ptr g1\<rparr>)" "i \<notin> dom M"
      "s = Session_ctor (mSessionVector g ! nat (GetIndex i)) i fd"
      "table_inv g1 (M(i \<mapsto> s))" "mMaxSession g1 = mMaxSession g"
    using Server_AddSession_room[OF assms, of fd] by blast
  let ?srv1 = "srv\<lparr>mSessionGroup := Ptr g1\<rparr>"
  have get: "SessionGroup_GetSession g1 i = Inr (Some (GetIndex i))"
    using table_get(1)[OF a(4), of i s] by simp
  have "mSessionGroup ?srv1 = Ptr g1" by simp
  from on_connected[OF this a(4), of i] obtain g' M' where
    c: "OnConnected i ?srv1 = Inr (srv\<lparr>mSessionGroup := Ptr g'\<rparr>, [])" "table_inv g' M'"
      "dom M' = insert i (dom M)" "mMaxSession g' = mMaxSession g1"
      "\<forall>j\<in>insert i (dom M). evolves (the ((M(i \<mapsto> s)) j)) (the (M' j))" by auto
  have "accept_one OnConnected epollFD srv fd
      = Inr (srv\<lparr>mSessionGroup := Ptr g'\<rparr>, accept_log epollFD (mSendPollFD srv) (fd, Some i))"
    using a(1) get c(1) by (simp add: accept_one_def Server_GetSendPollFD_def Session_GetRecvJob_def)
  moreover have "evolves s (the (M' i))" "\<forall>j\<in>dom M. evolves (the (M j)) (the (M' j))"
    using c(5) a(2) by (auto split: if_splits)
  ultimately show ?thesis
    using a(2,3,5) c(2-4)
    by (intro exI[of _ i] exI[of _ s] exI[of _ g'] exI[of _ M'] conjI) (simp_all del: accept_log.simps)
qed

lemma accept_loop_spec:
  assumes "mSessionGroup srv = Ptr g" and "table_inv g M"
    and "int (card (dom M)) + int (length (filter snd (handled OnAccepeted stack answers))) \<le> mMaxSession g"
  shows "\<exists>g' M' cs. accept_loop OnAccepeted OnConnected epollFD stack srv answers
      = Inr (srv\<lparr>mSessionGroup := Ptr g'\<rparr>, concat (map (accept_log epollFD (mSendPollFD srv)) cs))
    \<and> map (\<lambda>(fd, i). (fd, i \<noteq> None)) cs = handled OnAccepeted stack answers
    \<and> table_inv g' M' \<and> mMaxSession g' = mMaxSession g
    \<and> distinct (List.map_filter snd cs) \<and> dom M' = dom M \<union> set (List.map_filter snd cs)
    \<and> dom M \<inter> set (List.map_filter snd cs) = {}
    \<and> (\<forall>j\<in>dom M. evolves (the (M j)) (the (M' j)))
    \<and> (\<forall>fd i. (fd, Some i) \<in> set cs \<longrightarrow> (\<exists>st. evolves (Session_ctor st i fd) (the (M' i))))"
  using assms
proof (induction OnAccepeted stack answers arbitrary: srv g M rule: handled.induct)
  case (1 OnAccepeted stack)
  then show ?case
    by (intro exI[of _ g] exI[of _ M] exI[of _ "[]"]) (simp add: List.map_filter_simps evolves_refl)
next
  case (2 OnAccepeted stack e rest)
  show ?case
  proof (cases "e = EINTR")
    case True
    with 2 show ?thesis by simp
  next
    case False
    with "2.prems" show ?thesis
      by (intro exI[of _ g] exI[of _ M] exI[of _ "[]"]) (simp add: List.map_filter_simps evolves_refl)
  qed
next
  case (3 OnAccepeted stack fd addr rest)
  show ?case
  proof (cases "OnAccepeted (Endpoint_of_sockaddr stack addr)")
    case False
    with "3.IH"[OF "3.prems"(1,2)] "3.prems"(3) obtain g' M' cs where
      r: "accept_loop OnAccepeted OnConnected epollFD stack srv rest
          = Inr (srv\<lparr>mSessionGroup := Ptr g'\<rparr>, concat (map (accept_log epollFD (mSendPollFD srv)) cs))"
        "map (\<lambda>(fd, i). (fd, i \<noteq> None)) cs = handled OnAccepeted stack rest"
        "table_inv g' M'" "mMaxSession g' = mMaxSession g" "distinct (List.map_filter snd cs)"
        "dom M' = dom M \<union> set (List.map_filter snd cs)" "dom M \<inter> set (List.map_filter snd cs) = {}"
        "\<forall>j\<in>dom M. evolves (the (M j)) (the (M' j))"
        "\<forall>fd i. (fd, Some i) \<in> set cs \<longrightarrow> (\<exists>st. evolves (Session_ctor st i fd) (the (M' i)))" by auto
    with False show ?thesis
      by (intro exI[of _ g'] exI[of _ M'] exI[of _ "(fd, None) # cs"]) (simp add: List.map_filter_simps)
  next
    case True
    then have "int (card (dom M)) < mMaxSession g" using "3.prems"(3) by simp
    from accept_one_spec[OF "3.prems"(1,2) this, of epollFD fd] obtain i s g1 M1 where
      a: "accept_one OnConnected epollFD srv fd
          = Inr (srv\<lparr>mSessionGroup := Ptr g1\<rparr>, accept_log epollFD (mSendPollFD srv) (fd, Some i))"
        "i \<notin> dom M" "dom M1 = insert i (dom M)" "table_inv g1 M1" "mMaxSession g1 = mMaxSession g"
        "s = Session_ctor (mSessionVector g ! nat (GetIndex i)) i fd" "evolves s (the (M1 i))"
        "\<forall>j\<in>dom M. evolves (the (M j)) (the (M1 j))" by blast
    let ?srv1 = "srv\<lparr>mSessionGroup := Ptr g1\<rparr>"
    have "finite (dom M)" using table_inv_finite[OF "3.prems"(2)] .
    then have "int (card (dom M1)) + int (length (filter snd (handled OnAccepeted stack rest))) \<le> mMaxSession g1"
      using "3.prems"(3) True a(2,3,5) by simp
    with "3.IH"[of ?srv1 g1 M1] a(4) obtain g' M' cs where
      r: "accept_loop OnAccepeted OnConnected epollFD stack ?srv1 rest
          = Inr (srv\<lparr>mSessionGroup := Ptr g'\<rparr>, concat (map (accept_log epollFD (mSendPollFD srv)) cs))"
        "map (\<lambda>(fd, i). (fd, i \<noteq> None)) cs = handled OnAccepeted stack rest"
        "table_inv g' M'" "mMaxSession g' = mMaxSession g1" "distinct (List.map_filter snd cs)"
        "dom M' = dom M1 \<union> set (List.map_filter snd cs)" "dom M1 \<inter> set (List.map_filter snd cs) = {}"
        "\<forall>j\<in>dom M1. evolves (the (M1 j)) (the (M' j))"
        "\<forall>fd i. (fd, Some i) \<in> set cs \<longrightarrow> (\<exists>st. evolves (Session_ctor st i fd) (the (M' i)))" by auto
    have "\<exists>st. evolves (Session_ctor st i fd) (the (M' i))"
      using a(3,6,7) r(8) evolves_trans by blast
    moreover have "\<forall>j\<in>dom M. evolves (the (M j)) (the (M' j))"
      using a(3,8) r(8) evolves_trans by blast
    ultimately show ?thesis
      using True a r by (intro exI[of _ g'] exI[of _ M'] exI[of _ "(fd, Some i) # cs"])
        (auto simp: List.map_filter_simps)
  qed
qed

end

text \<open>\<^verbatim>\<open>TestServer\<close> of \<^verbatim>\<open>src/tests/performance/test_server.cpp\<close> only prints a line.\<close>

definition TestServer_OnConnected :: on_connected where
  "TestServer_OnConnected sessionID srv = Inr (srv, [])"

interpretation quiet: connect_app TestServer_OnConnected "(=)"
proof
  fix srv :: Server and g M and i :: SessionID
  assume "mSessionGroup srv = Ptr g" "table_inv g M"
  then show "\<exists>g' M'. TestServer_OnConnected i srv = Inr (srv\<lparr>mSessionGroup := Ptr g'\<rparr>, []) \<and> table_inv g' M'
      \<and> dom M' = dom M \<and> mMaxSession g' = mMaxSession g \<and> (\<forall>j\<in>dom M. the (M j) = the (M' j))"
    by (intro exI[of _ g] exI[of _ M]) (simp add: TestServer_OnConnected_def)
qed simp_all

section \<open>Properties\<close>

text \<open>
  C18. One run of the accept job handles every pending connection. With room in the table for the
  connections the application accepts, the loop ends without undefined behaviour, whatever errors
  interrupt it: each refused connection is closed, each accepted one gets a session under a new
  identifier that is found afterwards with its descriptor, is made non-blocking and registered once
  with each of the two epoll descriptors, the receive event carrying the session's own receive job,
  and is reported after that. The sessions that were there before are untouched.
\<close>

theorem AcceptJob_Execute_registers:
  assumes "mSessionGroup srv = Ptr g" and "table_inv g M"
    and "int (card (dom M)) + int (length (filter snd (handled OnAccepeted stack answers))) \<le> mMaxSession g"
  shows "\<exists>g' cs. AcceptJob_Execute OnAccepeted TestServer_OnConnected stack srv answers
      = Inr (True, srv\<lparr>mSessionGroup := Ptr g'\<rparr>, concat (map (accept_log (mEpollFD srv) (mSendPollFD srv)) cs))
    \<and> map (\<lambda>(fd, i). (fd, i \<noteq> None)) cs = handled OnAccepeted stack answers
    \<and> distinct (List.map_filter snd cs)
    \<and> (\<forall>fd i. (fd, Some i) \<in> set cs \<longrightarrow> i \<notin> dom M
         \<and> (\<exists>p s. SessionGroup_GetSession g' i = Inr (Some p) \<and> session_at g' p = Inr s
               \<and> mSessionID s = i \<and> mSessionFD s = fd \<and> mIsRecving s \<and> \<not> mIsSending s \<and> mPackets s = []))
    \<and> (\<forall>i s. M i = Some s \<longrightarrow> SessionGroup_GetSession g' i = Inr (Some (GetIndex i))
         \<and> session_at g' (GetIndex i) = Inr s)"
proof -
  obtain g' M' cs where
    r: "accept_loop OnAccepeted TestServer_OnConnected (mEpollFD srv) stack srv answers
        = Inr (srv\<lparr>mSessionGroup := Ptr g'\<rparr>, concat (map (accept_log (mEpollFD srv) (mSendPollFD srv)) cs))"
      "map (\<lambda>(fd, i). (fd, i \<noteq> None)) cs = handled OnAccepeted stack answers"
      "table_inv g' M'" "distinct (List.map_filter snd cs)"
      "dom M' = dom M \<union> set (List.map_filter snd cs)" "dom M \<inter> set (List.map_filter snd cs) = {}"
      "\<forall>j\<in>dom M. the (M j) = the (M' j)"
      "\<forall>fd i. (fd, Some i) \<in> set cs \<longrightarrow> (\<exists>st. Session_ctor st i fd = the (M' i))"
    using quiet.accept_loop_spec[OF assms, of "mEpollFD srv"] by blast
  have new: "i \<in> set (List.map_filter snd cs)" if "(fd, Some i) \<in> set cs" for fd i
    using that by (force simp: List.map_filter_def)
  have "\<exists>p s. SessionGroup_GetSession g' i = Inr (Some p) \<and> session_at g' p = Inr s
      \<and> mSessionID s = i \<and> mSessionFD s = fd \<and> mIsRecving s \<and> \<not> mIsSending s \<and> mPackets s = []"
    if "(fd, Some i) \<in> set cs" for fd i
  proof -
    from r(8) that have "\<exists>st. Session_ctor st i fd = the (M' i)" by blast
    then obtain st where "the (M' i) = Session_ctor st i fd" by metis
    moreover have "i \<in> dom M'" using new[OF that] r(5) by simp
    ultimately have "M' i = Some (Session_ctor st i fd)" by auto
    from table_get[OF r(3) this] show ?thesis by (auto simp: Session_ctor_def)
  qed
  moreover have "M' i = Some s" if "M i = Some s" for i s
  proof -
    have "i \<in> dom M'" "the (M' i) = s" using r(5,7) that by force+
    then show ?thesis by auto
  qed
  ultimately show ?thesis
    using r new table_get[OF r(3)]
    by (intro exI[of _ g'] exI[of _ cs]) (auto simp: AcceptJob_Execute_def Server_GetEpollFD_def)
qed

definition server_ex :: Server where
  "server_ex = \<lparr>mListenFD = 3, mEpollFD = 4, mSendPollFD = 5, mIsRunning = True,
     mWorkerThreadPool = Ptr \<lparr>pool_mIsRunning = True, mWorkerThreads = threads_ex, mIdleThreads = threads_ex, mJobQueue = []\<rparr>,
     mSessionGroup = Ptr (SessionGroup_ctor [session_ex, session_ex] 0),
     mPollJob = Ptr PollJobRef, mAcceptJob = Ptr AcceptJobRef\<rparr>"

theorem AcceptJob_Execute_registers_witness:
  "\<exists>g' cs. AcceptJob_Execute (\<lambda>e. Endpoint_GetPort e = 80) TestServer_OnConnected (\<lambda>_. 0) server_ex
        [Accepted 8 sockaddr_ex, AcceptErr EINTR, Accepted 9 (\<lambda>_. 0), AcceptErr EAGAIN]
      = Inr (True, server_ex\<lparr>mSessionGroup := Ptr g'\<rparr>, concat (map (accept_log 4 5) cs))
    \<and> map (\<lambda>(fd, i). (fd, i \<noteq> None)) cs
      = handled (\<lambda>e. Endpoint_GetPort e = 80) (\<lambda>_. 0) [Accepted 8 sockaddr_ex, AcceptErr EINTR, Accepted 9 (\<lambda>_. 0), AcceptErr EAGAIN]"
proof -
  let ?g = "SessionGroup_ctor [session_ex, session_ex] 0"
  have "table_inv ?g Map.empty" by (rule table_inv_ctor) simp_all
  moreover have "int (card (dom (Map.empty :: SessionID \<rightharpoonup> Session))) + int (length (filter snd (handled (\<lambda>e. Endpoint_GetPort e = 80) (\<lambda>_. 0)
      [Accepted 8 sockaddr_ex, AcceptErr EINTR, Accepted 9 (\<lambda>_. 0), AcceptErr EAGAIN]))) \<le> mMaxSession ?g"
    by (simp add: SessionGroup_ctor_def)
  moreover have "mSessionGroup server_ex = Ptr ?g" by (simp add: server_ex_def)
  ultimately show ?thesis
    using AcceptJob_Execute_registers[of server_ex ?g Map.empty "\<lambda>e. Endpoint_GetPort e = 80" "\<lambda>_. 0"
        "[Accepted 8 sockaddr_ex, AcceptErr EINTR, Accepted 9 (\<lambda>_. 0), AcceptErr EAGAIN]"]
    by (simp only: server_ex_def Server.simps ServerFds.simps) blast
qed

text \<open>
  The poll job never gets lost and never drops an event: whatever \<^verbatim>\<open>epoll_wait\<close> answers, its run
  appends the ready jobs in order and then itself to the queue, and wakes one idle worker per job
  added, as far as there are any, most recently idle first.
\<close>

theorem PollJob_Execute_requeues:
  assumes "mWorkerThreadPool srv = Ptr p"
  shows "PollJob_Execute srv answer =
    Inr (True, srv\<lparr>mWorkerThreadPool := Ptr (p\<lparr>mJobQueue := mJobQueue p @ ready_jobs answer @ [PollJobRef],
                mIdleThreads := drop (Suc (length (ready_jobs answer))) (mIdleThreads p)\<rparr>)\<rparr>,
         map (\<lambda>c. PoolReq (WriteEvent (mEventFD c))) (take (Suc (length (ready_jobs answer))) (mIdleThreads p)))"
  using assms by (rule PollJob_Execute_Ptr)

theorem PollJob_Execute_requeues_witness:
  "PollJob_Execute server_ex (Ready [AcceptJobRef, RecvJobRef 1]) =
    Inr (True, server_ex\<lparr>mWorkerThreadPool := Ptr \<lparr>pool_mIsRunning = True, mWorkerThreads = threads_ex,
            mIdleThreads = [], mJobQueue = [AcceptJobRef, RecvJobRef 1, PollJobRef]\<rparr>\<rparr>,
         map (\<lambda>c. PoolReq (WriteEvent (mEventFD c))) threads_ex)"
  using PollJob_Execute_requeues[of server_ex _ "Ready [AcceptJobRef, RecvJobRef 1]"]
  by (simp add: server_ex_def threads_ex_def)

text \<open>
  Sending through the server acts on exactly the addressed session: for a live identifier the
  result is the one of \<open>Session::Send\<close> on its session, and every other live session stays as it is.
\<close>

theorem Server_Send_routes:
  assumes "mSessionGroup srv = Ptr g" and "table_inv g M" and "M i = Some s"
  shows "\<exists>g' s' es. Server_Send srv i buffer sz answers = Inr (srv\<lparr>mSessionGroup := Ptr g'\<rparr>, es)
    \<and> Session_Send srv (GetIndex i) s buffer sz answers = (s', es)
    \<and> table_inv g' (M(i \<mapsto> s'))"
proof -
  obtain s' es where se: "Session_Send srv (GetIndex i) s buffer sz answers = (s', es)" by fastforce
  have "mSessionID s' = i"
    using Session_Send_frame[OF se] table_inv_live(5)[OF assms(2,3)] by (simp add: send_frame_def same_receiver_def)
  from table_set_session[OF assms(2,3) this] show ?thesis
    using se table_get[OF assms(2,3)] assms(1) by (auto simp: Server_Send_def)
qed

text \<open>A table with one session, and a server that owns it.\<close>

definition table_ex :: SessionGroup where
  "table_ex = \<lparr>mMaxSession = 2, mSessionVector = [session_ex, session_ex], mSessionIndexPool = [1, 2], sUniqueNumber = 1\<rparr>"

lemma GetIndex_0 [simp]: "GetIndex 0 = 0"
  by (simp add: GetIndex_def to_int32_def)

lemma table_ex_inv: "table_inv table_ex [0 \<mapsto> session_ex]"
  by (auto simp: table_inv_def table_ex_def session_ex_def)

theorem Server_Send_routes_witness:
  "\<exists>g' s' es. Server_Send (server_ex\<lparr>mSessionGroup := Ptr table_ex\<rparr>) 0 4096 10 [WriteDone 10]
      = Inr (server_ex\<lparr>mSessionGroup := Ptr g'\<rparr>, es)
    \<and> Session_Send (server_ex\<lparr>mSessionGroup := Ptr table_ex\<rparr>) (GetIndex 0) session_ex 4096 10 [WriteDone 10] = (s', es)
    \<and> table_inv g' ([0 \<mapsto> session_ex](0 \<mapsto> s'))"
  using Server_Send_routes[of "server_ex\<lparr>mSessionGroup := Ptr table_ex\<rparr>" table_ex "[0 \<mapsto> session_ex]" 0 session_ex
      4096 10 "[WriteDone 10]"] table_ex_inv
  by (simp del: fun_upd_upd)

text \<open>
  An identifier whose slot part lies outside the table makes \<open>Send\<close> and \<open>DeleteSession\<close> read
  outside the session vector: the identifier is not checked before it is used as an index.
\<close>

theorem Server_bad_id_undefined:
  assumes "mSessionGroup srv = Ptr g" and "table_inv g M" and "mMaxSession g \<le> GetIndex i"
  shows "Server_Send srv i buffer sz answers = Inl OutOfBounds \<and> Server_DeleteSession srv i = Inl OutOfBounds"
  using assms
  by (simp add: Server_Send_def Server_DeleteSession_def SessionGroup_GetSession_def
      SessionGroup_DeleteSession_def session_at_def table_inv_def)

theorem Server_bad_id_undefined_witness:
  "Server_Send (server_ex\<lparr>mSessionGroup := Ptr table_ex\<rparr>) 7 4096 10 [WriteDone 10] = Inl OutOfBounds
    \<and> Server_DeleteSession (server_ex\<lparr>mSessionGroup := Ptr table_ex\<rparr>) 7 = Inl OutOfBounds"
proof -
  have "mMaxSession table_ex \<le> GetIndex 7"
    by (simp add: table_ex_def GetIndex_def sSessionIndexMask_def to_int32_def)
  with Server_bad_id_undefined[of "server_ex\<lparr>mSessionGroup := Ptr table_ex\<rparr>" table_ex "[0 \<mapsto> session_ex]" 7
      4096 10 "[WriteDone 10]"] table_ex_inv
  show ?thesis by simp
qed

end
