(* ===== verification/Epoll.thy ===== *)
theory Epoll
  imports Server_Jobs
begin

text \<open>
  The epoll instance the server waits on, as the kernel keeps it: for each descriptor the job stored
  with it, the flags, and whether it is armed. The requests in the logs of the model
  (\<open>EpollCtl\<close>, \<open>CloseFD\<close>) are given their effect on it, and the operations of a session are shown to
  own their registration: they leave it alone, or remove it together with the descriptor. Theory
  \<open>Reactor\<close> puts it together with the queue and the workers.
\<close>

section \<open>The interest list\<close>

record registration =
  reg_job :: job_ref
  reg_flags :: "epoll_flag list"
  armed :: bool

type_synonym interest = "int \<Rightarrow> registration option"

text \<open>
  \<^verbatim>\<open>EPOLL_CTL_ADD\<close> of a descriptor that is registered, \<^verbatim>\<open>EPOLL_CTL_MOD\<close> of one that is not, and requests
  for a negative descriptor fail and change nothing. Closing a descriptor removes it.
\<close>

fun epoll_apply :: "int \<Rightarrow> effect \<Rightarrow> interest \<Rightarrow> interest" where
  "epoll_apply epollFD (EpollCtl e op fd event) I =
     (if e \<noteq> epollFD \<or> fd < 0 then I
      else case op of
        EPOLL_CTL_DEL \<Rightarrow> I(fd := None)
      | EPOLL_CTL_ADD \<Rightarrow>
          (case event of
             Some (job, flags) \<Rightarrow> if I fd = None then I(fd \<mapsto> \<lparr>reg_job = job, reg_flags = flags, armed = True\<rparr>) else I
           | None \<Rightarrow> I)
      | EPOLL_CTL_MOD \<Rightarrow>
          (case event of
             Some (job, flags) \<Rightarrow> if I fd = None then I else I(fd \<mapsto> \<lparr>reg_job = job, reg_flags = flags, armed = True\<rparr>)
           | None \<Rightarrow> I))"
| "epoll_apply epollFD (CloseFD fd) I = I(fd := None)"
| "epoll_apply epollFD _ I = I"

definition epoll_log :: "int \<Rightarrow> effect list \<Rightarrow> interest \<Rightarrow> interest" where
  "epoll_log epollFD es I = fold (epoll_apply epollFD) es I"

lemma epoll_log_simps [simp]:
  "epoll_log E [] I = I"
  "epoll_log E (e # es) I = epoll_log E es (epoll_apply E e I)"
  "epoll_log E (es @ es') I = epoll_log E es' (epoll_log E es I)"
  by (simp_all add: epoll_log_def)

fun net_effects :: "server_effect list \<Rightarrow> effect list" where
  "net_effects [] = []"
| "net_effects (Net e # es) = e # net_effects es"
| "net_effects (_ # es) = net_effects es"

lemma net_effects_append [simp]: "net_effects (es @ es') = net_effects es @ net_effects es'"
  by (induction es rule: net_effects.induct) simp_all

text \<open>
  \<^verbatim>\<open>epoll_wait\<close> reports some of the armed descriptors, each once and not more than the array of the
  call holds. A descriptor registered with \<^verbatim>\<open>EPOLLONESHOT\<close> is disarmed by that.
\<close>

definition may_report :: "int list \<Rightarrow> interest \<Rightarrow> bool" where
  "may_report fds I \<longleftrightarrow> distinct fds \<and> int (length fds) \<le> sMAX_EVENTS
     \<and> (\<forall>fd\<in>set fds. case I fd of None \<Rightarrow> False | Some rg \<Rightarrow> armed rg)"

definition reported_jobs :: "int list \<Rightarrow> interest \<Rightarrow> job_ref list" where
  "reported_jobs fds I = map (\<lambda>fd. reg_job (the (I fd))) fds"

definition epoll_report :: "int list \<Rightarrow> interest \<Rightarrow> interest" where
  "epoll_report fds I =
     (\<lambda>fd. if fd \<in> set fds then map_option (\<lambda>rg. rg\<lparr>armed := EPOLLONESHOT \<notin> set (reg_flags rg)\<rparr>) (I fd) else I fd)"

text \<open>The registration of the receive job of the session at a position.\<close>

definition recv_registration :: "int \<Rightarrow> registration" where
  "recv_registration k = \<lparr>reg_job = RecvJobRef k, reg_flags = [EPOLLONESHOT, EPOLLIN, EPOLLET], armed = True\<rparr>"

text \<open>
  A descriptor returned by \<^verbatim>\<open>accept\<close> is not open: it is not registered, and not one that the same run
  has accepted and kept. The number of a refused connection may come again, as it has been closed.
\<close>

fun fresh_fds :: "int set \<Rightarrow> (SocketFD \<times> bool) list \<Rightarrow> bool" where
  "fresh_fds used [] \<longleftrightarrow> True"
| "fresh_fds used ((fd, kept) # rest) \<longleftrightarrow>
     0 \<le> fd \<and> fd \<notin> used \<and> fresh_fds (if kept then insert fd used else used) rest"

section \<open>Accepted connections\<close>

lemma fresh_fds_kept:
  "fresh_fds used cs \<Longrightarrow> (fd, True) \<in> set cs \<Longrightarrow> 0 \<le> fd \<and> fd \<notin> used"
  by (induction used cs rule: fresh_fds.induct) (auto split: if_splits)

lemma accept_registers:
  assumes "fresh_fds used (map (\<lambda>(fd, i). (fd, i \<noteq> None)) cs)" and "dom I \<subseteq> used" and "S \<noteq> E"
  shows "((fd, Some i) \<in> set cs \<longrightarrow> epoll_log E (net_effects (concat (map (accept_log E S) cs))) I fd
            = Some (recv_registration (GetIndex i)))
    \<and> ((\<forall>i. (fd, Some i) \<notin> set cs) \<longrightarrow> epoll_log E (net_effects (concat (map (accept_log E S) cs))) I fd = I fd)"
  using assms(1,2)
proof (induction cs arbitrary: I used i)
  case (Cons c cs)
  obtain x v where c: "c = (x, v)" by (cases c)
  let ?J = "epoll_log E (net_effects (accept_log E S c)) I"
  let ?K = "epoll_log E (net_effects (concat (map (accept_log E S) cs))) ?J"
  have x: "0 \<le> x" "I x = None" using Cons.prems(1,2) c by (auto simp: domIff)
  have J: "?J = (case v of None \<Rightarrow> I | Some i \<Rightarrow> I(x \<mapsto> recv_registration (GetIndex i)))"
    using x assms(3) by (cases v) (auto simp: c recv_registration_def)
  let ?used = "if v = None then used else insert x used"
  have fr: "fresh_fds ?used (map (\<lambda>(fd, i). (fd, i \<noteq> None)) cs)" using Cons.prems(1) c by (auto split: if_splits)
  have dom: "dom ?J \<subseteq> ?used" using Cons.prems(2) by (auto simp: J split: option.splits)
  note ih = Cons.IH[OF fr dom]
  have once: "(x, Some j) \<notin> set cs" if "v \<noteq> None" for j
    using fresh_fds_kept[OF fr, of x] that by (force simp: image_iff)
  have "?K fd = Some (recv_registration (GetIndex i))" if "(fd, Some i) \<in> set (c # cs)"
  proof (cases "(fd, Some i) \<in> set cs")
    case True
    with ih show ?thesis by blast
  next
    case False
    then have v: "x = fd" "v = Some i" using that c by auto
    then have "?K fd = ?J fd" using ih once by blast
    then show ?thesis using v by (simp add: J)
  qed
  moreover have "?K fd = I fd" if "\<forall>i. (fd, Some i) \<notin> set (c # cs)"
  proof -
    have "?K fd = ?J fd" using ih that by auto
    also have "?J fd = I fd" unfolding J using that c by (auto split: option.splits)
    finally show ?thesis .
  qed
  ultimately show ?case by simp
qed simp

section \<open>Sessions own their registration\<close>

text \<open>
  A stretch of execution of a session that starts with descriptor \<open>fd\<close> and ends with \<open>fd'\<close> keeps the
  descriptor and the interest list, or gives up both the descriptor and its registration.
\<close>

definition releases :: "int \<Rightarrow> SocketFD \<Rightarrow> effect list \<Rightarrow> SocketFD \<Rightarrow> bool" where
  "releases E fd es fd' \<longleftrightarrow>
     (fd' = fd \<and> epoll_log E es = id) \<or>
     (fd' = sINVALID_SOCKET_FD \<and> fd \<noteq> sINVALID_SOCKET_FD \<and> epoll_log E es = (\<lambda>I. I(fd := None)))"

lemma releases_refl [simp]: "releases E fd [] fd"
  by (simp add: releases_def fun_eq_iff)

lemma releases_trans: "releases E a es b \<Longrightarrow> releases E b es' c \<Longrightarrow> releases E a (es @ es') c"
  by (auto simp: releases_def fun_eq_iff)

lemma releases_log:
  assumes "releases E fd es fd'"
  shows "fd' = fd \<and> epoll_log E es I = I \<or> fd' = sINVALID_SOCKET_FD \<and> fd \<noteq> sINVALID_SOCKET_FD \<and> epoll_log E es I = I(fd := None)"
  using assms by (auto simp: releases_def)

lemma releases_quiet [simp]:
  "releases E fd (Writev x vs # es) fd' = releases E fd es fd'"
  "releases E fd (CallOnRecv i bs # es) fd' = releases E fd es fd'"
  by (simp_all add: releases_def fun_eq_iff)

lemma Session_Disconnect_releases:
  assumes "Session_Disconnect srv s = (s', es)"
  shows "releases E (mSessionFD s) es (mSessionFD s')"
  using assms by (auto simp: Session_Disconnect_def Let_def releases_def fun_eq_iff split: if_splits)

lemma send_event_releases:
  "mSendPollFD srv \<noteq> mEpollFD srv \<Longrightarrow> releases (mEpollFD srv) fd [send_event srv self s] fd"
  by (simp add: releases_def send_event_def Server_GetSendPollFD_def fun_eq_iff)

lemma after_writev_releases:
  assumes "mSendPollFD srv \<noteq> mEpollFD srv" and "after_writev srv self s vs t r = (s', es)"
  shows "releases (mEpollFD srv) (mSessionFD s) es (mSessionFD s')"
  using assms(2) send_event_releases[OF assms(1)]
  by (auto simp: after_writev_def Let_def split: if_splits prod.splits)

lemma writev_loop_releases:
  "mSendPollFD srv \<noteq> mEpollFD srv \<Longrightarrow> writev_loop srv self s vs t answers = (s', es)
    \<Longrightarrow> releases (mEpollFD srv) (mSessionFD s) es (mSessionFD s')"
proof (induction srv self s vs t answers arbitrary: s' es rule: writev_loop.induct)
  case (1 srv self s vs t answers)
  have dis: "releases (mEpollFD srv) (mSessionFD s) es1 (mSessionFD s1)"
    if "Session_Disconnect srv (s\<lparr>mIsSending := False\<rparr>) = (s1, es1)" for s1 es1
    using Session_Disconnect_releases[OF that] by simp
  have after: "releases (mEpollFD srv) (mSessionFD s1) es1 (mSessionFD s2)"
    if "after_writev srv self s1 vs t r = (s2, es1)" for s1 s2 es1 r
    using "1.prems"(1) that by (rule after_writev_releases)
  show ?case
    using "1.prems" dis after "1.IH"
    by (subst (asm) writev_loop.simps)
      (auto simp: Let_def intro: releases_trans[OF _ after]
        split: if_splits list.splits writev_answer.splits errno.splits prod.splits)
qed

lemma Session_DoSend_releases:
  "mSendPollFD srv \<noteq> mEpollFD srv \<Longrightarrow> Session_DoSend srv self s answers = (s', es)
    \<Longrightarrow> releases (mEpollFD srv) (mSessionFD s) es (mSessionFD s')"
  using writev_loop_releases[of srv self "s\<lparr>mPackets := []\<rparr>"]
  by (auto simp: Session_DoSend_def Let_def split: if_splits)

lemma Session_Send_releases:
  assumes "mSendPollFD srv \<noteq> mEpollFD srv" and "Session_Send srv self s buffer sz answers = (s', es)"
  shows "releases (mEpollFD srv) (mSessionFD s) es (mSessionFD s')"
proof -
  have "releases (mEpollFD srv) (mSessionFD s) es1 (mSessionFD s1)"
    if "Session_DoSend srv self (s\<lparr>mPackets := p, mIsSending := True\<rparr>) answers = (s1, es1)" for s1 es1 p
    using Session_DoSend_releases[OF assms(1) that] by simp
  with assms(2) show ?thesis
    by (auto simp: Session_Send_def Let_def intro!: releases_trans send_event_releases[OF assms(1)]
        split: if_splits prod.splits)
qed

lemma stop_receiving_spec:
  assumes "stop_receiving srv s = (r, s', es)"
  shows "\<not> r \<and> s' = s\<lparr>mIsRecving := False, mSessionFD := sINVALID_SOCKET_FD\<rparr> \<and> releases E (mSessionFD s) es sINVALID_SOCKET_FD"
proof -
  have d: "Session_Disconnect srv (s\<lparr>mIsRecving := False\<rparr>) = (s', es)" and r: "\<not> r"
    using assms by (auto simp: stop_receiving_def Session_SetReceiveState_def split: prod.splits)
  note st = Session_Disconnect_state[OF d]
  have "releases E (mSessionFD s) es (mSessionFD s')" using Session_Disconnect_releases[OF d, of E] by simp
  with st r show ?thesis by simp
qed

lemma RecvJob_Execute_spec:
  "RecvJob_Execute srv s answers = Inr (r, s', es) \<Longrightarrow>
    releases E (mSessionFD s) es (mSessionFD s') \<and> mSessionID s' = mSessionID s \<and> (r \<or> mSessionFD s' = sINVALID_SOCKET_FD)"
proof (induction srv s answers arbitrary: r s' es rule: RecvJob_Execute.induct)
  case (1 srv s answers)
  define ok where "ok q s1 es1 \<longleftrightarrow> releases E (mSessionFD s) es1 (mSessionFD s1) \<and> mSessionID s1 = mSessionID s
    \<and> (q \<or> mSessionFD s1 = sINVALID_SOCKET_FD)" for q es1 and s1 :: Session
  have stop: "ok q s1 es1" if "stop_receiving srv s = (q, s1, es1)" for q s1 es1
    using stop_receiving_spec[OF that, of E] by (simp add: ok_def)
  have stay: "ok True s []" by (simp add: ok_def)
  have ih_data: "ok r s' es"
    if "Session_GetSocketFD s \<noteq> sINVALID_SOCKET_FD" "answers = RecvData bs # rest" "bs \<noteq> []"
      "recv_store (recv_buffer s) bs = Inr b" "RecvJob_Execute srv (set_recv_buffer s b) rest = Inr (r, s', es)" for bs rest b
    using "1.IH"(1)[OF that(1,2) refl that(3,5)] by (simp add: ok_def)
  have ih_intr: "ok r s' es"
    if "Session_GetSocketFD s \<noteq> sINVALID_SOCKET_FD" "answers = RecvErr EINTR # rest"
      "RecvJob_Execute srv s rest = Inr (r, s', es)" for rest
    using "1.IH"(2)[OF that(1,2) refl _ refl that(3)] by (simp add: ok_def)
  have "ok r s' es"
    using "1.prems" stop stay ih_data ih_intr
    by (subst (asm) RecvJob_Execute.simps) (auto simp: bindr_Inr_iff split: if_splits list.splits recv_answer.splits)
  then show ?case by (simp add: ok_def)
qed

text \<open>What the server expects of \<^verbatim>\<open>OnRecv\<close> for that: it reaches the session through \<^verbatim>\<open>Send\<close> at most.\<close>

locale epoll_app =
  fixes srv :: "'a ServerFds_scheme" and OnRecv :: on_recv
  assumes keeps_registration: "mSendPollFD srv \<noteq> mEpollFD srv \<Longrightarrow> OnRecv i bs s = (k, s', es) \<Longrightarrow>
      releases (mEpollFD srv) (mSessionFD s) es (mSessionFD s') \<and> mSessionID s' = mSessionID s"
begin

lemma deliver_releases:
  assumes "mSendPollFD srv \<noteq> mEpollFD srv" and "RecvJob_deliver OnRecv s = Inr (s', es)"
  shows "releases (mEpollFD srv) (mSessionFD s) es (mSessionFD s') \<and> mSessionID s' = mSessionID s"
  using assms(2)
  by (auto simp: RecvJob_deliver_def Let_def bindr_Inr_iff set_recv_buffer_def
      dest!: keeps_registration[OF assms(1)] split: if_splits prod.splits)

text \<open>
  A run of the receive job: the session keeps its descriptor and its registration is armed again, or
  it gives up both. \<open>ctlOk\<close> is the kernel's answer if it is true exactly when the descriptor the
  session ends with is registered.
\<close>

lemma run_rearms:
  assumes two: "mSendPollFD srv \<noteq> mEpollFD srv"
    and run: "RecvJob_run srv self OnRecv s answers ctlOk = Inr (s', es)"
    and reg: "mSessionFD s \<noteq> sINVALID_SOCKET_FD \<Longrightarrow> 0 \<le> mSessionFD s \<and> I (mSessionFD s) \<noteq> None"
    and ctl: "ctlOk \<longleftrightarrow> epoll_log (mEpollFD srv) es I (mSessionFD s') \<noteq> None"
    and none: "I sINVALID_SOCKET_FD = None"
  shows "mSessionID s' = mSessionID s \<and>
    (mSessionFD s' = sINVALID_SOCKET_FD \<and> epoll_log (mEpollFD srv) es I = I(mSessionFD s := None)
     \<or> mSessionFD s' = mSessionFD s \<and> mSessionFD s \<noteq> sINVALID_SOCKET_FD
       \<and> epoll_log (mEpollFD srv) es I = I(mSessionFD s \<mapsto> recv_registration self))"
proof -
  let ?E = "mEpollFD srv" and ?fd = "mSessionFD s"
  let ?ev = "\<lambda>fd. EpollCtl ?E EPOLL_CTL_MOD fd (Some (RecvJobRef self, [EPOLLONESHOT, EPOLLIN, EPOLLET]))"
  have id: "I(?fd := None) = I" if "?fd = sINVALID_SOCKET_FD" using that none by auto
  obtain r s1 es1 where x: "RecvJob_Execute srv s answers = Inr (r, s1, es1)"
    using run by (auto simp: RecvJob_run_def bindr_Inr_iff)
  note e1 = RecvJob_Execute_spec[OF x, of ?E]
  show ?thesis
  proof (cases r)
    case False
    then have "s' = s1" "es = es1" using run x by (auto simp: RecvJob_run_def)
    moreover have "mSessionFD s1 = sINVALID_SOCKET_FD" using False e1 by simp
    ultimately show ?thesis using releases_log[OF conjunct1[OF e1], of I] e1 id by auto
  next
    case True
    with run x obtain es2 where c: "RecvJob_Complete srv self OnRecv s1 ctlOk = Inr (s', es2)" "es = es1 @ es2"
      by (auto simp: RecvJob_run_def bindr_Inr_iff)
    then obtain s2 es3 where d: "RecvJob_deliver OnRecv s1 = Inr (s2, es3)"
      by (auto simp: RecvJob_Complete_def bindr_Inr_iff)
    note e3 = deliver_releases[OF two d]
    have rel: "releases ?E ?fd (es1 @ es3) (mSessionFD s2)" using e1 e3 releases_trans by blast
    show ?thesis
    proof (cases "mSessionFD s2 = sINVALID_SOCKET_FD")
      case True
      have gone: "epoll_log ?E (es1 @ es3) I = I(?fd := None)"
        using releases_log[OF rel, of I] True id by auto
      then have "epoll_log ?E (es1 @ es3) I sINVALID_SOCKET_FD = None" using none by simp
      have out: "mSessionFD s' = sINVALID_SOCKET_FD \<and> mSessionID s' = mSessionID s2
          \<and> (\<exists>es4. es2 = es3 @ ?ev sINVALID_SOCKET_FD # es4 \<and> epoll_log ?E es4 = id)"
        using c(1) d True
        by (auto simp: RecvJob_Complete_def Let_def Session_GetSocketFD_def Session_GetRecvJob_def Server_GetEpollFD_def
            Session_Disconnect_def Session_SetReceiveState_def fun_eq_iff split: if_splits)
      then show ?thesis
        using gone c(2) e1 e3 by (auto simp: sINVALID_SOCKET_FD_def)
    next
      case False
      then have same: "mSessionFD s2 = ?fd" "epoll_log ?E (es1 @ es3) I = I" "?fd \<noteq> sINVALID_SOCKET_FD"
        using releases_log[OF rel, of I] by auto
      have "s' = s2" "es2 = es3 @ [?ev (mSessionFD s2)]"
        using c(1) d False
        by (auto simp: RecvJob_Complete_def Let_def Session_GetSocketFD_def Session_GetRecvJob_def Server_GetEpollFD_def
            split: if_splits)
      then show ?thesis
        using same c(2) e1 e3 reg[OF same(3)] by (auto simp: recv_registration_def)
    qed
  qed
qed

end

interpretation echo_epoll: epoll_app srv "TestServer_OnRecv srv self buffer answers"
proof
  fix i bs s k s' es
  assume "mSendPollFD srv \<noteq> mEpollFD srv" "TestServer_OnRecv srv self buffer answers i bs s = (k, s', es)"
  then show "releases (mEpollFD srv) (mSessionFD s) es (mSessionFD s') \<and> mSessionID s' = mSessionID s"
    using Session_Send_releases[of srv self s buffer "int (length bs)" answers s' es]
      Session_Send_frame[of srv self s buffer "int (length bs)" answers s' es]
    by (auto simp: TestServer_OnRecv_def Let_def send_frame_def same_receiver_def split: prod.splits)
qed

end
