(* ===== verification/Job_Places.thy ===== *)
theory Job_Places
  imports Epoll
begin

text \<open>
  Where the jobs of a server are: in the queue, in the hands of a worker, or armed with epoll. The
  lemmas say how the steps of the server move a job between these places; theory \<open>Reactor\<close> applies
  them to the code's steps. \<open>F\<close> is the map from positions of the session table to descriptors, \<open>I\<close> the
  interest list, \<open>q\<close> the queue and \<open>ws\<close> the jobs the workers run.
\<close>

section \<open>Where a job is\<close>

text \<open>
  A job can be in the queue, in the hands of a worker, and armed with epoll. \<open>places\<close> counts them.
\<close>

definition armed_at :: "interest \<Rightarrow> job_ref \<Rightarrow> bool" where
  "armed_at I j \<longleftrightarrow> (\<exists>fd rg. I fd = Some rg \<and> armed rg \<and> reg_job rg = j)"

definition places :: "job_ref list \<Rightarrow> job_ref option list \<Rightarrow> interest \<Rightarrow> job_ref \<Rightarrow> nat" where
  "places q ws I j = count_list q j + count_list ws (Some j) + (if armed_at I j then 1 else 0)"

lemma count_list_update:
  "w < length xs \<Longrightarrow>
    count_list (xs[w := x]) y + (if xs ! w = y then 1 else 0) = count_list xs y + (if x = y then 1 else 0)"
proof (induction xs arbitrary: w)
  case (Cons a xs)
  show ?case
  proof (cases w)
    case (Suc v)
    with Cons.prems Cons.IH[of v] show ?thesis by (simp split: if_splits)
  qed simp
qed simp

lemma count_list_two:
  "v < w \<Longrightarrow> w < length xs \<Longrightarrow> xs ! v = x \<Longrightarrow> xs ! w = x \<Longrightarrow> 2 \<le> count_list xs x"
proof (induction xs arbitrary: v w)
  case (Cons a xs)
  then obtain w' where w: "w = Suc w'" by (cases w) auto
  show ?case
  proof (cases v)
    case 0
    have "x \<in> set xs" using Cons.prems w 0 by (auto intro: nth_mem)
    then have "count_list xs x \<noteq> 0" by (simp add: count_list_0_iff)
    with Cons.prems 0 show ?thesis by simp
  next
    case (Suc v')
    with Cons.IH[of v' w'] Cons.prems w show ?thesis by auto
  qed
qed simp

lemma count_list_distinct: "distinct xs \<Longrightarrow> count_list xs y = (if y \<in> set xs then 1 else 0)"
  by (induction xs) auto

lemma places_take:
  assumes "w < length ws" and "ws ! w = None"
  shows "places q (ws[w := Some j]) I i = places (j # q) ws I i"
  using count_list_update[OF assms(1), of "Some j" "Some i"] assms(2) by (auto simp: places_def)

lemma places_done:
  assumes "w < length ws" and "ws ! w = Some j"
  shows "places q ws I i = places q (ws[w := None]) I i + (if i = j then 1 else 0)"
  using count_list_update[OF assms(1), of None "Some i"] assms(2) by (auto simp: places_def split: if_splits)

lemma places_queue: "places (q @ q') ws I j = places q ws I j + count_list q' j"
  by (simp add: places_def)

section \<open>The interest list\<close>

text \<open>
  \<open>F\<close> maps the position of a session to its descriptor. Every registration is that of the accept job
  at the listening socket or of a receive job at the descriptor of its session, with \<^verbatim>\<open>EPOLLONESHOT\<close>;
  the listening socket and every valid descriptor of a session are registered.
\<close>

definition reg_ok :: "int \<Rightarrow> (int \<rightharpoonup> SocketFD) \<Rightarrow> interest \<Rightarrow> bool" where
  "reg_ok L F I \<longleftrightarrow>
     (\<forall>fd rg. I fd = Some rg \<longrightarrow> 0 \<le> fd \<and> EPOLLONESHOT \<in> set (reg_flags rg)
        \<and> (fd = L \<and> reg_job rg = AcceptJobRef \<or> fd \<noteq> L \<and> (\<exists>k. reg_job rg = RecvJobRef k \<and> F k = Some fd)))
     \<and> I L \<noteq> None
     \<and> (\<forall>k fd. F k = Some fd \<longrightarrow> fd \<noteq> sINVALID_SOCKET_FD \<longrightarrow> (\<exists>rg. I fd = Some rg \<and> reg_job rg = RecvJobRef k))"

lemma reg_okD:
  assumes "reg_ok L F I"
  shows "I fd = Some rg \<Longrightarrow> 0 \<le> fd \<and> EPOLLONESHOT \<in> set (reg_flags rg)
      \<and> (fd = L \<and> reg_job rg = AcceptJobRef \<or> fd \<noteq> L \<and> (\<exists>k. reg_job rg = RecvJobRef k \<and> F k = Some fd))"
    and "\<exists>rg. I L = Some rg \<and> reg_job rg = AcceptJobRef"
    and "F k = Some fd \<Longrightarrow> fd \<noteq> sINVALID_SOCKET_FD \<Longrightarrow> \<exists>rg. I fd = Some rg \<and> reg_job rg = RecvJobRef k"
    and "I sINVALID_SOCKET_FD = None"
proof -
  show r: "0 \<le> fd \<and> EPOLLONESHOT \<in> set (reg_flags rg)
      \<and> (fd = L \<and> reg_job rg = AcceptJobRef \<or> fd \<noteq> L \<and> (\<exists>k. reg_job rg = RecvJobRef k \<and> F k = Some fd))"
    if "I fd = Some rg" for fd rg using assms that unfolding reg_ok_def by blast
  show "\<exists>rg. I L = Some rg \<and> reg_job rg = AcceptJobRef"
    using assms r unfolding reg_ok_def by blast
  show "F k = Some fd \<Longrightarrow> fd \<noteq> sINVALID_SOCKET_FD \<Longrightarrow> \<exists>rg. I fd = Some rg \<and> reg_job rg = RecvJobRef k"
    using assms unfolding reg_ok_def by blast
  show "I sINVALID_SOCKET_FD = None"
    using r[of sINVALID_SOCKET_FD] by (cases "I sINVALID_SOCKET_FD") (auto simp: sINVALID_SOCKET_FD_def)
qed

text \<open>A job is registered at one descriptor.\<close>

lemma reg_unique:
  assumes "reg_ok L F I" and "I a = Some ra" and "I b = Some rb" and "reg_job ra = reg_job rb"
  shows "a = b"
  using reg_okD(1)[OF assms(1,2)] reg_okD(1)[OF assms(1,3)] assms(4) by auto

lemma armed_at_accept:
  assumes "reg_ok L F I"
  shows "armed_at I AcceptJobRef \<longleftrightarrow> armed (the (I L))"
proof -
  obtain rg where "I L = Some rg" "reg_job rg = AcceptJobRef" using reg_okD(2)[OF assms] by blast
  then show ?thesis using reg_unique[OF assms] unfolding armed_at_def by fastforce
qed

lemma armed_at_poll: "reg_ok L F I \<Longrightarrow> \<not> armed_at I PollJobRef"
  using reg_okD(1) by (fastforce simp: armed_at_def)

lemma armed_at_recv:
  assumes "reg_ok L F I"
  shows "armed_at I (RecvJobRef k) \<longleftrightarrow> (\<exists>fd rg. F k = Some fd \<and> fd \<noteq> sINVALID_SOCKET_FD \<and> I fd = Some rg \<and> armed rg)"
proof
  assume "armed_at I (RecvJobRef k)"
  then obtain fd rg where "I fd = Some rg" "armed rg" "reg_job rg = RecvJobRef k" by (auto simp: armed_at_def)
  with reg_okD(1)[OF assms, of fd rg] show "\<exists>fd rg. F k = Some fd \<and> fd \<noteq> sINVALID_SOCKET_FD \<and> I fd = Some rg \<and> armed rg"
    by (auto simp: sINVALID_SOCKET_FD_def)
next
  assume "\<exists>fd rg. F k = Some fd \<and> fd \<noteq> sINVALID_SOCKET_FD \<and> I fd = Some rg \<and> armed rg"
  with reg_okD(3)[OF assms] show "armed_at I (RecvJobRef k)" unfolding armed_at_def by fastforce
qed

lemma epoll_report_keeps:
  "epoll_report fds I fd = Some rg \<Longrightarrow> \<exists>rg0. I fd = Some rg0 \<and> reg_job rg = reg_job rg0 \<and> reg_flags rg = reg_flags rg0"
  "I fd = Some rg0 \<Longrightarrow> \<exists>rg. epoll_report fds I fd = Some rg \<and> reg_job rg = reg_job rg0"
  by (auto simp: epoll_report_def split: if_splits)

lemma reg_ok_view:
  assumes "reg_ok L F I"
    and "\<And>fd rg'. I' fd = Some rg' \<Longrightarrow> \<exists>rg. I fd = Some rg \<and> reg_job rg' = reg_job rg \<and> EPOLLONESHOT \<in> set (reg_flags rg')"
    and "\<And>fd rg. I fd = Some rg \<Longrightarrow> \<exists>rg'. I' fd = Some rg' \<and> reg_job rg' = reg_job rg"
  shows "reg_ok L F I'"
proof -
  have "0 \<le> fd \<and> EPOLLONESHOT \<in> set (reg_flags rg)
      \<and> (fd = L \<and> reg_job rg = AcceptJobRef \<or> fd \<noteq> L \<and> (\<exists>k. reg_job rg = RecvJobRef k \<and> F k = Some fd))"
    if "I' fd = Some rg" for fd rg
    using assms(2)[OF that] reg_okD(1)[OF assms(1), of fd] by auto
  moreover have "I' L \<noteq> None" using reg_okD(2)[OF assms(1)] assms(3) by blast
  moreover have "\<exists>rg. I' fd = Some rg \<and> reg_job rg = RecvJobRef k" if "F k = Some fd" "fd \<noteq> sINVALID_SOCKET_FD" for k fd
    using reg_okD(3)[OF assms(1) that] assms(3)[of fd] by fastforce
  ultimately show ?thesis unfolding reg_ok_def by blast
qed

lemma reg_ok_report:
  assumes "reg_ok L F I"
  shows "reg_ok L F (epoll_report fds I)"
proof (rule reg_ok_view[OF assms])
  show "\<exists>rg. I fd = Some rg \<and> reg_job rg' = reg_job rg \<and> EPOLLONESHOT \<in> set (reg_flags rg')"
    if "epoll_report fds I fd = Some rg'" for fd rg'
    using epoll_report_keeps(1)[OF that] reg_okD(1)[OF assms, of fd] by auto
qed (rule epoll_report_keeps(2))

text \<open>What \<^verbatim>\<open>epoll_wait\<close> reports moves from the interest list to the queue.\<close>

lemma places_report:
  assumes "reg_ok L F I" and "may_report fds I"
  shows "places (q @ reported_jobs fds I) ws (epoll_report fds I) j = places q ws I j"
proof -
  have reg: "\<exists>rg. I fd = Some rg \<and> armed rg" if "fd \<in> set fds" for fd
    using assms(2) that by (fastforce simp: may_report_def split: option.splits)
  have once: "inj_on (\<lambda>fd. reg_job (the (I fd))) (set fds)"
  proof (rule inj_onI)
    fix a b assume "a \<in> set fds" "b \<in> set fds" and eq: "reg_job (the (I a)) = reg_job (the (I b))"
    then obtain ra rb where "I a = Some ra" "I b = Some rb" using reg by blast
    with eq reg_unique[OF assms(1)] show "a = b" by simp
  qed
  then have "distinct (reported_jobs fds I)"
    using assms(2) by (simp add: reported_jobs_def distinct_map may_report_def)
  then have cnt: "count_list (reported_jobs fds I) j = (if j \<in> set (reported_jobs fds I) then 1 else 0)"
    by (rule count_list_distinct)
  have rep: "epoll_report fds I fd = Some rg \<and> armed rg \<longleftrightarrow> I fd = Some rg \<and> armed rg \<and> fd \<notin> set fds" for fd rg
    using reg_okD(1)[OF assms(1), of fd] by (auto simp: epoll_report_def)
  have "armed_at (epoll_report fds I) j \<longleftrightarrow> (\<exists>fd rg. I fd = Some rg \<and> armed rg \<and> reg_job rg = j \<and> fd \<notin> set fds)"
    unfolding armed_at_def using rep by blast
  moreover have "j \<in> set (reported_jobs fds I) \<longleftrightarrow> (\<exists>fd rg. I fd = Some rg \<and> armed rg \<and> reg_job rg = j \<and> fd \<in> set fds)"
    using reg by (force simp: reported_jobs_def)
  moreover have "a = b" if "I a = Some ra" "reg_job ra = j" "I b = Some rb" "reg_job rb = j" for a b ra rb
    using reg_unique[OF assms(1)] that by blast
  ultimately have "(if armed_at I j then 1 else 0) = count_list (reported_jobs fds I) j + (if armed_at (epoll_report fds I) j then 1 else (0 :: nat))"
    unfolding cnt armed_at_def[of I] by (auto; blast)
  then show ?thesis by (simp add: places_def)
qed

section \<open>Every job is in one place\<close>

text \<open>
  The poll job and the accept job are in exactly one place; the receive job of a session is in at most
  one, and in exactly one as long as the session has its descriptor; there are no other jobs.
\<close>

definition count_ok :: "(int \<rightharpoonup> SocketFD) \<Rightarrow> (job_ref \<Rightarrow> nat) \<Rightarrow> bool" where
  "count_ok F c \<longleftrightarrow> c PollJobRef = 1 \<and> c AcceptJobRef = 1 \<and> c NullJob = 0 \<and> (\<forall>k. c (SendJobRef k) = 0)
     \<and> (\<forall>k. case F k of None \<Rightarrow> c (RecvJobRef k) = 0
          | Some fd \<Rightarrow> c (RecvJobRef k) \<le> 1 \<and> (fd \<noteq> sINVALID_SOCKET_FD \<longrightarrow> c (RecvJobRef k) = 1))"

lemma count_okD:
  assumes "count_ok F c"
  shows "F k = None \<Longrightarrow> c (RecvJobRef k) = 0"
    and "F k = Some fd \<Longrightarrow> c (RecvJobRef k) \<le> 1 \<and> (fd \<noteq> sINVALID_SOCKET_FD \<longrightarrow> c (RecvJobRef k) = 1)"
proof -
  have "case F k of None \<Rightarrow> c (RecvJobRef k) = 0
    | Some fd \<Rightarrow> c (RecvJobRef k) \<le> 1 \<and> (fd \<noteq> sINVALID_SOCKET_FD \<longrightarrow> c (RecvJobRef k) = 1)"
    using assms unfolding count_ok_def by blast
  then show "F k = None \<Longrightarrow> c (RecvJobRef k) = 0"
    and "F k = Some fd \<Longrightarrow> c (RecvJobRef k) \<le> 1 \<and> (fd \<noteq> sINVALID_SOCKET_FD \<longrightarrow> c (RecvJobRef k) = 1)" by simp_all
qed

definition core_inv :: "int \<Rightarrow> (int \<rightharpoonup> SocketFD) \<Rightarrow> interest \<Rightarrow> job_ref list \<Rightarrow> job_ref option list \<Rightarrow> bool" where
  "core_inv L F I q ws \<longleftrightarrow> reg_ok L F I \<and> count_ok F (places q ws I)"

lemma core_le:
  assumes "core_inv L F I q ws"
  shows "places q ws I j \<le> 1"
proof (cases j)
  case (RecvJobRef k)
  with assms count_okD[of F "places q ws I" k] show ?thesis
    by (cases "F k") (auto simp: core_inv_def)
qed (use assms in \<open>simp_all add: core_inv_def count_ok_def\<close>)

lemma core_take:
  "core_inv L F I (j # q) ws \<Longrightarrow> w < length ws \<Longrightarrow> ws ! w = None \<Longrightarrow> core_inv L F I q (ws[w := Some j])"
  by (simp add: core_inv_def count_ok_def places_take cong: option.case_cong)

lemma core_poll:
  assumes "core_inv L F I q ws" and "w < length ws" and "ws ! w = Some PollJobRef" and "may_report fds I"
  shows "core_inv L F (epoll_report fds I) (q @ reported_jobs fds I @ [PollJobRef]) (ws[w := None])"
proof -
  have reg: "reg_ok L F I" using assms(1) by (simp add: core_inv_def)
  have "places ((q @ reported_jobs fds I) @ [PollJobRef]) (ws[w := None]) (epoll_report fds I) j = places q ws I j" for j
    unfolding places_queue[of "q @ reported_jobs fds I"] places_report[OF reg assms(4)] places_done[OF assms(2,3)] by simp
  then show ?thesis
    using assms(1) reg_ok_report[OF reg] by (simp add: core_inv_def count_ok_def cong: option.case_cong)
qed

lemma core_poll_error:
  assumes "core_inv L F I q ws" and "w < length ws" and "ws ! w = Some PollJobRef"
  shows "core_inv L F I (q @ [PollJobRef]) (ws[w := None])"
proof -
  have "places (q @ [PollJobRef]) (ws[w := None]) I j = places q ws I j" for j
    unfolding places_queue places_done[OF assms(2,3)] by simp
  then show ?thesis using assms(1) by (simp add: core_inv_def count_ok_def cong: option.case_cong)
qed

text \<open>A job that a worker is running and that is armed again.\<close>

lemma core_rearm:
  assumes "core_inv L F I q ws" and "w < length ws" and "ws ! w = Some (reg_job rg)" and "I fd = Some rg"
    and "EPOLLONESHOT \<in> set fl"
  shows "core_inv L F (I(fd \<mapsto> \<lparr>reg_job = reg_job rg, reg_flags = fl, armed = True\<rparr>)) q (ws[w := None])"
proof -
  let ?I = "I(fd \<mapsto> \<lparr>reg_job = reg_job rg, reg_flags = fl, armed = True\<rparr>)" and ?j = "reg_job rg"
  have reg: "reg_ok L F I" and cnt: "count_ok F (places q ws I)" using assms(1) by (auto simp: core_inv_def)
  have "reg_ok L F ?I"
    using reg_okD(1)[OF reg] assms(4,5) by (intro reg_ok_view[OF reg]) (auto split: if_splits)
  moreover have "places q (ws[w := None]) ?I j = places q ws I j" for j
  proof -
    have "places q ws I ?j \<le> 1"
      using reg_okD(1)[OF reg assms(4)] cnt by (auto simp: count_ok_def split: option.splits)
    then have zero: "places q (ws[w := None]) I ?j = 0" and one: "places q ws I ?j = 1"
      using places_done[OF assms(2,3), of q I ?j] by auto
    have "?I x = Some ra \<and> armed ra \<and> reg_job ra = i \<longleftrightarrow> I x = Some ra \<and> armed ra \<and> reg_job ra = i" if "i \<noteq> ?j" for x ra i
      using that assms(4) by auto
    then have arm: "armed_at ?I i \<longleftrightarrow> armed_at I i" if "i \<noteq> ?j" for i
      using that unfolding armed_at_def by blast
    have "armed_at ?I ?j" unfolding armed_at_def by auto
    then show ?thesis
      using zero one arm places_done[OF assms(2,3), of q I j] by (cases "j = ?j") (auto simp: places_def split: if_splits)
  qed
  ultimately show ?thesis using cnt by (simp add: core_inv_def count_ok_def cong: option.case_cong)
qed

text \<open>A session gives up its descriptor and its registration.\<close>

lemma reg_ok_release:
  assumes reg: "reg_ok L F I" and k: "F k = Some fd"
  shows "reg_ok L (F(k \<mapsto> sINVALID_SOCKET_FD)) (I(fd := None))"
proof (cases "fd = sINVALID_SOCKET_FD")
  case True
  then have "F(k \<mapsto> sINVALID_SOCKET_FD) = F" "I(fd := None) = I" using k reg_okD(4)[OF reg] by auto
  with reg show ?thesis by simp
next
  case False
  from reg_okD(3)[OF reg k this] obtain rg where rg: "I fd = Some rg" "reg_job rg = RecvJobRef k" by blast
  have L: "fd \<noteq> L" using reg_okD(1)[OF reg rg(1)] rg(2) by auto
  have "F i = Some x \<and> i \<noteq> k" if "I x = Some rx" "x \<noteq> fd" "reg_job rx = RecvJobRef i" "F i = Some x" for i x rx
    using that k by auto
  moreover have "x \<noteq> fd" if "F i = Some x" "i \<noteq> k" "x \<noteq> sINVALID_SOCKET_FD" for i x
    using reg_okD(3)[OF reg that(1,3)] rg that(2) by auto
  ultimately show ?thesis
    using reg_okD[OF reg] L unfolding reg_ok_def by (auto split: if_splits) blast+
qed

lemma places_release:
  assumes reg: "reg_ok L F I" and k: "F k = Some fd"
  shows "places q ws (I(fd := None)) (RecvJobRef k) = count_list q (RecvJobRef k) + count_list ws (Some (RecvJobRef k))"
    and "j \<noteq> RecvJobRef k \<Longrightarrow> places q ws (I(fd := None)) j = places q ws I j"
proof -
  show "places q ws (I(fd := None)) (RecvJobRef k) = count_list q (RecvJobRef k) + count_list ws (Some (RecvJobRef k))"
    using armed_at_recv[OF reg_ok_release[OF assms], of k] by (simp add: places_def)
  have "reg_job rg = RecvJobRef k" if "I fd = Some rg" for rg
    using reg_okD(1,3)[OF reg] reg_okD(4)[OF reg] k that by (cases "fd = sINVALID_SOCKET_FD") fastforce+
  then have "(I(fd := None)) x = Some rg \<and> reg_job rg = j \<longleftrightarrow> I x = Some rg \<and> reg_job rg = j" if "j \<noteq> RecvJobRef k" for x rg
    using that by auto
  then have "armed_at (I(fd := None)) j \<longleftrightarrow> armed_at I j" if "j \<noteq> RecvJobRef k"
    using that unfolding armed_at_def by blast
  then show "j \<noteq> RecvJobRef k \<Longrightarrow> places q ws (I(fd := None)) j = places q ws I j" by (simp add: places_def)
qed

lemma count_ok_drop:
  assumes "count_ok F c" and "F k \<noteq> None" and "\<And>j. j \<noteq> RecvJobRef k \<Longrightarrow> c' j = c j"
    and "c' (RecvJobRef k) \<le> c (RecvJobRef k)"
  shows "count_ok (F(k \<mapsto> sINVALID_SOCKET_FD)) c'"
proof -
  have "c (RecvJobRef k) \<le> 1" using assms(1,2) by (auto simp: count_ok_def split: option.splits)
  with assms show ?thesis
    unfolding count_ok_def by (auto split: option.splits) (metis option.distinct(1) option.inject)+
qed

lemma core_release:
  assumes "core_inv L F I q ws" and "F k = Some fd"
  shows "core_inv L (F(k \<mapsto> sINVALID_SOCKET_FD)) (I(fd := None)) q ws"
proof -
  have reg: "reg_ok L F I" and cnt: "count_ok F (places q ws I)" using assms(1) by (auto simp: core_inv_def)
  have "places q ws (I(fd := None)) (RecvJobRef k) \<le> places q ws I (RecvJobRef k)"
    unfolding places_release(1)[OF reg assms(2)] by (simp add: places_def)
  then have "count_ok (F(k \<mapsto> sINVALID_SOCKET_FD)) (places q ws (I(fd := None)))"
    using assms(2) by (intro count_ok_drop[OF cnt]) (auto simp: places_release(2)[OF reg assms(2)])
  with reg_ok_release[OF reg assms(2)] show ?thesis by (simp add: core_inv_def)
qed

text \<open>The end of a job that is not armed again.\<close>

lemma core_done:
  assumes "core_inv L F I q ws" and "w < length ws" and "ws ! w = Some (RecvJobRef k)" and "F k = Some sINVALID_SOCKET_FD"
  shows "core_inv L F I q (ws[w := None])"
proof -
  have "count_ok (F(k \<mapsto> sINVALID_SOCKET_FD)) (places q (ws[w := None]) I)"
    using assms(1,4) places_done[OF assms(2,3), of q I]
    by (intro count_ok_drop[of F "places q ws I"]) (auto simp: core_inv_def)
  moreover have "F(k \<mapsto> sINVALID_SOCKET_FD) = F" using assms(4) by auto
  ultimately show ?thesis using assms(1) by (simp add: core_inv_def)
qed

text \<open>New sessions: \<open>N\<close> maps their positions to their descriptors.\<close>

lemma core_accept:
  assumes "core_inv L F I q ws" and disj: "dom F \<inter> dom N = {}"
    and new: "\<And>k fd. N k = Some fd \<Longrightarrow> 0 \<le> fd \<and> I fd = None \<and> I' fd = Some (recv_registration k)"
    and old: "\<And>fd. fd \<notin> ran N \<Longrightarrow> I' fd = I fd"
  shows "core_inv L (F ++ N) I' q ws"
proof -
  have reg: "reg_ok L F I" and cnt: "count_ok F (places q ws I)" using assms(1) by (auto simp: core_inv_def)
  have cases: "fd \<in> ran N \<and> (\<exists>k. N k = Some fd \<and> rg = recv_registration k) \<or> fd \<notin> ran N \<and> I fd = Some rg"
    if "I' fd = Some rg" for fd rg
    using that new old[of fd] by (cases "fd \<in> ran N") (auto simp: ran_def)
  have kept: "I' fd = Some rg" if "I fd = Some rg" for fd rg
    using that new old[of fd] by (cases "fd \<in> ran N") (auto simp: ran_def)
  have F: "(F ++ N) k = F k" if "F k \<noteq> None" for k using disj that by (auto simp: map_add_def split: option.splits)
  have L: "I L \<noteq> None" using reg_okD(2)[OF reg] by auto
  have "0 \<le> fd \<and> EPOLLONESHOT \<in> set (reg_flags rg)
      \<and> (fd = L \<and> reg_job rg = AcceptJobRef \<or> fd \<noteq> L \<and> (\<exists>k. reg_job rg = RecvJobRef k \<and> (F ++ N) k = Some fd))"
    if "I' fd = Some rg" for fd rg
    using cases[OF that]
  proof (elim disjE conjE exE)
    fix k assume "N k = Some fd" "rg = recv_registration k"
    then show ?thesis using new[of k fd] L by (auto simp: recv_registration_def)
  next
    assume "I fd = Some rg"
    from reg_okD(1)[OF reg this] F show ?thesis by fastforce
  qed
  moreover have "\<exists>rg. I' fd = Some rg \<and> reg_job rg = RecvJobRef k" if "(F ++ N) k = Some fd" "fd \<noteq> sINVALID_SOCKET_FD" for k fd
    using that reg_okD(3)[OF reg, of k fd] new[of k fd] kept by (fastforce simp: map_add_Some_iff recv_registration_def)
  moreover have "I' L \<noteq> None" using L kept by auto
  ultimately have reg': "reg_ok L (F ++ N) I'" unfolding reg_ok_def by blast
  have arm: "armed_at I' j \<longleftrightarrow> armed_at I j \<or> (\<exists>k\<in>dom N. j = RecvJobRef k)" for j
  proof
    assume "armed_at I' j"
    then obtain fd rg where "I' fd = Some rg" "armed rg" "reg_job rg = j" by (auto simp: armed_at_def)
    then show "armed_at I j \<or> (\<exists>k\<in>dom N. j = RecvJobRef k)"
      using cases[of fd rg] by (auto simp: armed_at_def recv_registration_def)
  next
    assume "armed_at I j \<or> (\<exists>k\<in>dom N. j = RecvJobRef k)"
    then show "armed_at I' j"
    proof
      assume "armed_at I j"
      then show ?thesis using kept unfolding armed_at_def by blast
    next
      assume "\<exists>k\<in>dom N. j = RecvJobRef k"
      then obtain k fd where "N k = Some fd" "j = RecvJobRef k" by blast
      with new[of k fd] show ?thesis
        unfolding armed_at_def by (intro exI[of _ fd] exI[of _ "recv_registration k"]) (simp add: recv_registration_def)
    qed
  qed
  have "count_ok (F ++ N) (places q ws I')"
    unfolding count_ok_def
  proof (intro conjI allI)
    show "places q ws I' PollJobRef = 1" "places q ws I' AcceptJobRef = 1"
      "places q ws I' NullJob = 0" "places q ws I' (SendJobRef k) = 0" for k
      using cnt arm by (simp_all add: count_ok_def places_def)
    fix k
    show "case (F ++ N) k of None \<Rightarrow> places q ws I' (RecvJobRef k) = 0
      | Some fd \<Rightarrow> places q ws I' (RecvJobRef k) \<le> 1 \<and> (fd \<noteq> sINVALID_SOCKET_FD \<longrightarrow> places q ws I' (RecvJobRef k) = 1)"
    proof (cases "N k")
      case None
      then have "places q ws I' (RecvJobRef k) = places q ws I (RecvJobRef k)" "(F ++ N) k = F k"
        using arm by (auto simp: places_def map_add_def)
      then show ?thesis using count_okD[OF cnt, of k] None by (cases "F k") (simp_all add: map_add_def)
    next
      case (Some fd)
      then have "F k = None" using disj by (auto simp: dom_def)
      then have "places q ws I (RecvJobRef k) = 0" by (rule count_okD(1)[OF cnt])
      moreover have "armed_at I' (RecvJobRef k)" using Some arm by blast
      ultimately have "places q ws I' (RecvJobRef k) = 1" by (simp add: places_def)
      with Some show ?thesis by (simp add: map_add_def)
    qed
  qed
  with reg' show ?thesis by (simp add: core_inv_def)
qed

end
