(* ===== verification/Server_Lifecycle.thy ===== *)
theory Server_Lifecycle
  imports Server_Jobs
begin

text \<open>
  Construction, start, stop and destruction of a server:
  \<^verbatim>\<open>CreateListenSocket\<close>, \<^verbatim>\<open>Server::Server\<close>, \<^verbatim>\<open>~Server\<close>, \<^verbatim>\<open>Start\<close>, \<^verbatim>\<open>Stop\<close> and \<^verbatim>\<open>CloseListenSocket\<close> of
  \<^verbatim>\<open>src/src/lib-core/src/Server.cpp\<close>. The answers of the kernel are records of return values, one
  field per call of the source.
\<close>

section \<open>The listening socket\<close>

record listen_answers =
  socket_ret :: int
  setsockopt_ret :: int
  bind_ret :: int
  listen_ret :: int

definition CreateListenSocket :: "Endpoint \<Rightarrow> listen_answers \<Rightarrow> SocketFD \<times> server_effect list" where
  "CreateListenSocket serverEndpoint k =
     (let v4 = (Endpoint_GetIPVersion serverEndpoint = IPv4);
          listenFD = socket_ret k;
          e0 = [Socket (if v4 then AF_INET else AF_INET6)];
          e1 = e0 @ [Net (SetSockOpt listenFD SOL_SOCKET SO_REUSEADDR)];
          e2 = e1 @ [Net (SetNonBlock listenFD),
                 Bind listenFD (bytes_at (Endpoint_GetAddress serverEndpoint) 0
                   (if v4 then sizeof_sockaddr_in else sizeof_sockaddr_in6))];
          e3 = e2 @ [Listen listenFD]
      in if listenFD = sINVALID_SOCKET_FD then (sINVALID_SOCKET_FD, e0)
         else if setsockopt_ret k < 0 then (sINVALID_SOCKET_FD, e1 @ [Net (CloseFD listenFD)])
         else if bind_ret k < 0 then (sINVALID_SOCKET_FD, e2 @ [Net (CloseFD listenFD)])
         else if listen_ret k < 0 then (sINVALID_SOCKET_FD, e3 @ [Net (CloseFD listenFD)])
         else (listenFD, e3))"

definition Server_CloseListenSocket :: "Server \<Rightarrow> Server \<times> server_effect list" where
  "Server_CloseListenSocket srv =
     (if mListenFD srv \<noteq> sINVALID_SOCKET_FD
      then (srv\<lparr>mListenFD := sINVALID_SOCKET_FD\<rparr>, [Net (CloseFD (mListenFD srv))])
      else (srv, []))"

section \<open>Construction and start\<close>

text \<open>Four members have no initialiser and keep what the memory of the object held.\<close>

definition Server_ctor :: "Server \<Rightarrow> Server" where
  "Server_ctor storage =
     storage\<lparr>mListenFD := sINVALID_SOCKET_FD, mIsRunning := False, mWorkerThreadPool := Null, mSessionGroup := Null\<rparr>"

record start_answers =
  epoll_ret :: int
  send_epoll_ret :: int
  thread_ret :: "nat \<Rightarrow> int \<times> int"
  listen_ans :: listen_answers

text \<open>
  \<open>storage\<close> is the memory the 5000 sessions are constructed in and \<open>unique\<close> the counter of
  identifiers at that moment. The results of the worker pool's \<^verbatim>\<open>Start\<close> and of \<^verbatim>\<open>epoll_ctl\<close> are not
  looked at.
\<close>

definition Server_Start ::
  "Server \<Rightarrow> Endpoint \<Rightarrow> nat \<Rightarrow> Session list \<Rightarrow> Int64 \<Rightarrow> start_answers \<Rightarrow> (bool \<times> Server \<times> server_effect list) cxx" where
  "Server_Start srv serverEndpoint workerThreadCount storage unique k =
     (let srv1 = srv\<lparr>mEpollFD := epoll_ret k\<rparr> in
      if mEpollFD srv1 = sINVALID_ID then Inr (False, srv1, [])
      else
        let srv2 = srv1\<lparr>mSendPollFD := send_epoll_ret k\<rparr> in
        if mSendPollFD srv2 = sINVALID_ID then Inr (False, srv2, [])
        else
          let sessionGroup = SessionGroup_ctor storage unique;
              (_, workerThreadPool) = WorkerThreadPool_Start WorkerThreadPool_ctor workerThreadCount (thread_ret k);
              (listenFD, es1) = CreateListenSocket serverEndpoint (listen_ans k);
              srv3 = srv2\<lparr>mSessionGroup := Ptr sessionGroup, mWorkerThreadPool := Ptr workerThreadPool,
                       mListenFD := listenFD, mIsRunning := True, mPollJob := Ptr PollJobRef\<rparr>
          in bindr (Server_AddJob srv3 PollJobRef) (\<lambda>(srv4, es2).
               Inr (True, srv4\<lparr>mAcceptJob := Ptr AcceptJobRef\<rparr>,
                 es1 @ es2 @ [Net (EpollCtl (mEpollFD srv4) EPOLL_CTL_ADD (mListenFD srv4)
                                (Some (AcceptJobRef, [EPOLLIN, EPOLLONESHOT, EPOLLET])))])))"

section \<open>Stop and destruction\<close>

definition close_epolls :: "Server \<Rightarrow> Server \<times> server_effect list" where
  "close_epolls srv =
     (let (srv1, es1) = (if mEpollFD srv \<noteq> sINVALID_ID
                         then (srv\<lparr>mEpollFD := sINVALID_ID\<rparr>, [Net (CloseFD (mEpollFD srv))]) else (srv, []));
          (srv2, es2) = (if mSendPollFD srv1 \<noteq> sINVALID_ID
                         then (srv1\<lparr>mSendPollFD := sINVALID_ID\<rparr>, [Net (CloseFD (mSendPollFD srv1))]) else (srv1, []))
      in (srv2, es1 @ es2))"

definition Server_Stop :: "Server \<Rightarrow> (Server \<times> server_effect list) cxx" where
  "Server_Stop srv =
     (if \<not> mIsRunning srv then Inr (srv, [])
      else
        let (srv1, es1) = Server_CloseListenSocket srv;
            srv2 = srv1\<lparr>mIsRunning := False\<rparr>;
            (srv3, es3) = (if mListenFD srv2 \<noteq> sINVALID_SOCKET_FD
                           then (srv2\<lparr>mListenFD := sINVALID_SOCKET_FD\<rparr>, [Net (CloseFD (mListenFD srv2))])
                           else (srv2, []));
            (srv4, es4) = close_epolls srv3
        in bindr (deref (mWorkerThreadPool srv4)) (\<lambda>threadPool.
             let (p, reqs) = WorkerThreadPool_Stop threadPool
             in Inr (srv4\<lparr>mWorkerThreadPool := Ptr p\<rparr>, es1 @ es3 @ es4 @ map PoolReq reqs)))"

text \<open>
  A comparison with null reads the pointer, so it is undefined for a member that was never
  assigned. The pointers have type \<^verbatim>\<open>void*\<close>: \<^verbatim>\<open>delete\<close> gives the memory back and runs no destructor.
\<close>

definition delete_ptr :: "'a ptr \<Rightarrow> 'a ptr cxx" where
  "delete_ptr p = (case p of Garbage \<Rightarrow> Inl Uninitialised | _ \<Rightarrow> Inr Null)"

definition Server_dtor :: "Server \<Rightarrow> (Server \<times> server_effect list) cxx" where
  "Server_dtor srv =
     bindr (Server_Stop srv) (\<lambda>(srv1, es).
       bindr (delete_ptr (mPollJob srv1)) (\<lambda>pj.
         bindr (delete_ptr (mAcceptJob srv1)) (\<lambda>aj.
           bindr (delete_ptr (mWorkerThreadPool srv1)) (\<lambda>wp.
             bindr (delete_ptr (mSessionGroup srv1)) (\<lambda>sg.
               Inr (srv1\<lparr>mPollJob := pj, mAcceptJob := aj, mWorkerThreadPool := wp, mSessionGroup := sg\<rparr>, es))))))"

section \<open>Lemmas\<close>

definition net_closes :: "int \<Rightarrow> server_effect list \<Rightarrow> nat" where
  "net_closes fd es = count_list es (Net (CloseFD fd))"

lemma net_closes_simps [simp]:
  "net_closes fd [] = 0"
  "net_closes fd (e # es) = (if e = Net (CloseFD fd) then Suc (net_closes fd es) else net_closes fd es)"
  "net_closes fd (es @ es') = net_closes fd es + net_closes fd es'"
  by (simp_all add: net_closes_def)

lemma net_closes_PoolReq [simp]: "net_closes fd (map PoolReq reqs) = 0"
  by (induction reqs) simp_all

text \<open>A started server: its descriptors are open, its two jobs exist, and no member is unassigned.\<close>

definition started :: "Server \<Rightarrow> bool" where
  "started srv \<longleftrightarrow> mIsRunning srv \<and> mEpollFD srv \<noteq> sINVALID_ID \<and> mSendPollFD srv \<noteq> sINVALID_ID
     \<and> mPollJob srv = Ptr PollJobRef \<and> mAcceptJob srv = Ptr AcceptJobRef
     \<and> (\<exists>g. mSessionGroup srv = Ptr g) \<and> (\<exists>p. mWorkerThreadPool srv = Ptr p)"

lemma CreateListenSocket_cases:
  assumes "CreateListenSocket e k = (fd, es)"
  shows "(fd = sINVALID_SOCKET_FD \<and> (\<forall>x. net_closes x es = (if x = socket_ret k \<and> x \<noteq> sINVALID_SOCKET_FD then 1 else 0)))
    \<or> (fd = socket_ret k \<and> fd \<noteq> sINVALID_SOCKET_FD \<and> (\<forall>x. net_closes x es = 0) \<and> Listen fd \<in> set es)"
  using assms by (auto simp: CreateListenSocket_def Let_def split: if_splits)

lemma Server_Start_ok:
  assumes "epoll_ret k \<noteq> sINVALID_ID" and "send_epoll_ret k \<noteq> sINVALID_ID"
    and "CreateListenSocket e (listen_ans k) = (fd, es1)"
    and "WorkerThreadPool_Start WorkerThreadPool_ctor n (thread_ret k) = (ok, p)"
  shows "\<exists>srv'. Server_Start srv e n storage u k
      = Inr (True, srv', es1 @ [Net (EpollCtl (epoll_ret k) EPOLL_CTL_ADD fd (Some (AcceptJobRef, [EPOLLIN, EPOLLONESHOT, EPOLLET])))])
    \<and> started srv' \<and> mListenFD srv' = fd \<and> mEpollFD srv' = epoll_ret k \<and> mSendPollFD srv' = send_epoll_ret k
    \<and> mWorkerThreadPool srv' = Ptr (p\<lparr>mJobQueue := [PollJobRef]\<rparr>) \<and> mSessionGroup srv' = Ptr (SessionGroup_ctor storage u)"
proof -
  have "mIdleThreads p = []" "mJobQueue p = []"
    using assms(4) by (auto simp: WorkerThreadPool_Start_def WorkerThreadPool_ctor_def Let_def split: prod.splits)
  with assms show ?thesis
    by (simp add: Server_Start_def Let_def Server_AddJob_Ptr started_def)
qed

lemma Server_Stop_started:
  assumes "started srv" and "mWorkerThreadPool srv = Ptr p"
  shows "Server_Stop srv =
    Inr (srv\<lparr>mIsRunning := False, mListenFD := sINVALID_SOCKET_FD, mEpollFD := sINVALID_ID,
            mSendPollFD := sINVALID_ID, mWorkerThreadPool := Ptr (fst (WorkerThreadPool_Stop p))\<rparr>,
         (if mListenFD srv = sINVALID_SOCKET_FD then [] else [Net (CloseFD (mListenFD srv))]) @
         [Net (CloseFD (mEpollFD srv)), Net (CloseFD (mSendPollFD srv))] @
         map PoolReq (snd (WorkerThreadPool_Stop p)))"
  using assms
  by (simp add: started_def Server_Stop_def Server_CloseListenSocket_def close_epolls_def Let_def
      split: prod.splits)

lemma Server_Stop_stopped: "\<not> mIsRunning srv \<Longrightarrow> Server_Stop srv = Inr (srv, [])"
  by (simp add: Server_Stop_def)

lemma filter_PoolReq: "filter (\<lambda>e. case e of PoolReq _ \<Rightarrow> True | _ \<Rightarrow> False) (map PoolReq rs) = map PoolReq rs"
  by (induction rs) simp_all

section \<open>Properties\<close>


text \<open>
  C26. Creating the listening socket succeeds exactly when the four system calls do. On success the
  descriptor is bound, listening and open; after a failure the descriptor of the socket has been
  closed exactly once and the invalid descriptor is returned. No path leaks it.
\<close>

theorem CreateListenSocket_no_leak:
  shows "(fst (CreateListenSocket e k) \<noteq> sINVALID_SOCKET_FD \<longleftrightarrow>
      socket_ret k \<noteq> sINVALID_SOCKET_FD \<and> 0 \<le> setsockopt_ret k \<and> 0 \<le> bind_ret k \<and> 0 \<le> listen_ret k)
    \<and> (if fst (CreateListenSocket e k) = sINVALID_SOCKET_FD
       then \<forall>x. net_closes x (snd (CreateListenSocket e k)) = (if x = socket_ret k \<and> x \<noteq> sINVALID_SOCKET_FD then 1 else 0)
       else fst (CreateListenSocket e k) = socket_ret k \<and> (\<forall>x. net_closes x (snd (CreateListenSocket e k)) = 0)
            \<and> Listen (socket_ret k) \<in> set (snd (CreateListenSocket e k)))"
  by (auto simp: CreateListenSocket_def Let_def)

text \<open>
  The failure of the listening socket is not reported. Whenever both epoll descriptors could be
  created, \<open>Start\<close> returns true; if one of the four calls for the listening socket failed, the server
  runs without one, has registered the invalid descriptor, and only its poll job is queued.
\<close>

theorem Server_Start_ignores_listen_failure:
  assumes "epoll_ret k \<noteq> sINVALID_ID" and "send_epoll_ret k \<noteq> sINVALID_ID"
    and "socket_ret (listen_ans k) = sINVALID_SOCKET_FD \<or> setsockopt_ret (listen_ans k) < 0
       \<or> bind_ret (listen_ans k) < 0 \<or> listen_ret (listen_ans k) < 0"
  shows "\<exists>srv' es p. Server_Start srv e n storage u k = Inr (True, srv', es) \<and> mIsRunning srv'
    \<and> mListenFD srv' = sINVALID_SOCKET_FD
    \<and> Net (EpollCtl (epoll_ret k) EPOLL_CTL_ADD sINVALID_SOCKET_FD (Some (AcceptJobRef, [EPOLLIN, EPOLLONESHOT, EPOLLET]))) \<in> set es
    \<and> mWorkerThreadPool srv' = Ptr p \<and> mJobQueue p = [PollJobRef]"
proof -
  obtain es1 where c: "CreateListenSocket e (listen_ans k) = (sINVALID_SOCKET_FD, es1)"
    using assms(3) by (fastforce simp: CreateListenSocket_def Let_def)
  obtain ok p where w: "WorkerThreadPool_Start WorkerThreadPool_ctor n (thread_ret k) = (ok, p :: job_ref WorkerThreadPool)"
    by fastforce
  from Server_Start_ok[OF assms(1,2) c w, of srv storage u] show ?thesis
    by (auto simp: started_def)
qed

definition start_ex :: start_answers where
  "start_ex = \<lparr>epoll_ret = 4, send_epoll_ret = 5, thread_ret = (\<lambda>i. (10 + int i, 0)),
     listen_ans = \<lparr>socket_ret = 3, setsockopt_ret = 0, bind_ret = -1, listen_ret = 0\<rparr>\<rparr>"

theorem Server_Start_ignores_listen_failure_witness:
  "\<exists>srv' es p. Server_Start server_ex \<lparr>mAddress = sockaddr_ex\<rparr> 12 [session_ex] 0 start_ex = Inr (True, srv', es) \<and> mIsRunning srv'
    \<and> mListenFD srv' = sINVALID_SOCKET_FD
    \<and> Net (EpollCtl 4 EPOLL_CTL_ADD sINVALID_SOCKET_FD (Some (AcceptJobRef, [EPOLLIN, EPOLLONESHOT, EPOLLET]))) \<in> set es
    \<and> mWorkerThreadPool srv' = Ptr p \<and> mJobQueue p = [PollJobRef]"
  using Server_Start_ignores_listen_failure[of start_ex server_ex "\<lparr>mAddress = sockaddr_ex\<rparr>" 12 "[session_ex]" 0]
  by (simp add: start_ex_def sINVALID_ID_def)


text \<open>
  A server that did not start cannot be destroyed safely. The constructor leaves the pointers to
  the two jobs unassigned: the destructor of a new server, and of one whose \<open>Start\<close> failed, reads an
  unassigned pointer. When the second epoll descriptor could not be created, the first one is kept
  and no \<open>Stop\<close> ever closes it.
\<close>

theorem Server_unstarted_dtor_undefined:
  assumes "mPollJob storage = Garbage"
  shows "Server_dtor (Server_ctor storage) = Inl Uninitialised
    \<and> (epoll_ret k \<noteq> sINVALID_ID \<longrightarrow> send_epoll_ret k = sINVALID_ID \<longrightarrow>
       (\<exists>srv'. Server_Start (Server_ctor storage) e n sessions u k = Inr (False, srv', [])
          \<and> mEpollFD srv' = epoll_ret k \<and> Server_Stop srv' = Inr (srv', [])
          \<and> Server_dtor srv' = Inl Uninitialised))"
  using assms by (simp add: Server_ctor_def Server_dtor_def Server_Stop_def delete_ptr_def Server_Start_def Let_def)

theorem Server_unstarted_dtor_undefined_witness:
  "\<exists>srv'. Server_Start (Server_ctor (server_ex\<lparr>mPollJob := Garbage\<rparr>)) \<lparr>mAddress = sockaddr_ex\<rparr> 12 [session_ex] 0
        (start_ex\<lparr>send_epoll_ret := -1\<rparr>) = Inr (False, srv', [])
    \<and> mEpollFD srv' = 4 \<and> Server_Stop srv' = Inr (srv', []) \<and> Server_dtor srv' = Inl Uninitialised"
  using Server_unstarted_dtor_undefined[of "server_ex\<lparr>mPollJob := Garbage\<rparr>" "start_ex\<lparr>send_epoll_ret := -1\<rparr>"
      "\<lparr>mAddress = sockaddr_ex\<rparr>" 12 "[session_ex]" 0]
  by (simp add: start_ex_def sINVALID_ID_def)

end
