(* ===== verification/Reactor.thy ===== *)
theory Reactor
  imports Job_Places Server_Lifecycle
begin

text \<open>
  The running server as one system: the session table and the job queue of \<^verbatim>\<open>class Server\<close>, the epoll
  instance it waits on, and the worker threads that take jobs from the queue and run them
  (\<^verbatim>\<open>WorkerThreadPool::PollEvents\<close>, \<^verbatim>\<open>PollJob\<close>, \<^verbatim>\<open>AcceptJob\<close>, \<^verbatim>\<open>RecvJob\<close>). A job runs in one step here;
  the steps of different workers and of threads that call \<^verbatim>\<open>Server::Send\<close> are in any order. Sessions
  are not deleted: the server has no call of \<^verbatim>\<open>DeleteSession\<close>, which is left to the application.
  The server is not stopped, so the loop of a worker goes on. An idle worker may look at the queue at
  any time: how it is woken, and that it may not be, is the subject of the theories \<open>Worker_Pool\<close> and
  \<open>Server_Workers\<close>.
\<close>

section \<open>State\<close>

record reactor =
  rserver :: Server
  interest :: interest
  running :: "job_ref option list"
  issued :: "SessionID list"

text \<open>
  A worker takes a job; a poll job has an answer of \<^verbatim>\<open>epoll_wait\<close>, the descriptors it reports or an
  error; an accept job and a receive job have the answers to their system calls; any thread sends.
\<close>

datatype reactor_event =
    TakeJob nat
  | RunPoll nat "int list"
  | PollError nat errno
  | RunAccept nat "accept_answer list"
  | RunRecv nat int "writev_answer list" "recv_answer list" bool
  | AppSend SessionID int int "writev_answer list"

type_synonym on_recv_app = "Server \<Rightarrow> int \<Rightarrow> int \<Rightarrow> writev_answer list \<Rightarrow> on_recv"

text \<open>The identifiers the application is told of.\<close>

fun connected_ids :: "server_effect list \<Rightarrow> SessionID list" where
  "connected_ids [] = []"
| "connected_ids (Net (CallOnConnected i) # es) = i # connected_ids es"
| "connected_ids (_ # es) = connected_ids es"

lemma connected_ids_append [simp]: "connected_ids (es @ es') = connected_ids es @ connected_ids es'"
  by (induction es rule: connected_ids.induct) simp_all

definition job_of :: "reactor \<Rightarrow> nat \<Rightarrow> job_ref option" where
  "job_of r w = (if w < length (running r) then running r ! w else None)"

definition job_done :: "nat \<Rightarrow> reactor \<Rightarrow> reactor" where
  "job_done w r = r\<lparr>running := (running r)[w := None]\<rparr>"

section \<open>Steps\<close>

text \<open>
  \<open>None\<close> means that the step is not possible in this state, \<open>Inl\<close> that it runs into undefined behaviour.
  The conditions are the kernel's: \<^verbatim>\<open>epoll_wait\<close> reports armed descriptors, \<^verbatim>\<open>accept\<close> returns
  descriptors that are not open, and re-arming succeeds exactly if the descriptor is registered.
\<close>

fun reactor_exec ::
  "(Endpoint \<Rightarrow> bool) \<Rightarrow> on_connected \<Rightarrow> on_recv_app \<Rightarrow> arr \<Rightarrow> reactor \<Rightarrow> reactor_event \<Rightarrow> reactor cxx option" where
  "reactor_exec OnAccepeted OnConnected OnRecv stack r (TakeJob w) =
     (if w < length (running r) \<and> running r ! w = None
      then (case mWorkerThreadPool (rserver r) of
              Ptr p \<Rightarrow>
                (case WorkerThreadPool_PopJob p of
                   (None, _) \<Rightarrow> None
                 | (Some job, p') \<Rightarrow>
                     Some (Inr (r\<lparr>rserver := (rserver r)\<lparr>mWorkerThreadPool := Ptr p'\<rparr>,
                                 running := (running r)[w := Some job]\<rparr>)))
            | _ \<Rightarrow> None)
      else None)"
| "reactor_exec OnAccepeted OnConnected OnRecv stack r (RunPoll w fds) =
     (if job_of r w = Some PollJobRef \<and> may_report fds (interest r)
      then Some (bindr (PollJob_Execute (rserver r) (Ready (reported_jobs fds (interest r)))) (\<lambda>(_, srv, _).
             Inr (job_done w (r\<lparr>rserver := srv, interest := epoll_report fds (interest r)\<rparr>))))
      else None)"
| "reactor_exec OnAccepeted OnConnected OnRecv stack r (PollError w e) =
     (if job_of r w = Some PollJobRef
      then Some (bindr (PollJob_Execute (rserver r) (WaitErr e)) (\<lambda>(_, srv, _). Inr (job_done w (r\<lparr>rserver := srv\<rparr>))))
      else None)"
| "reactor_exec OnAccepeted OnConnected OnRecv stack r (RunAccept w answers) =
     (if job_of r w = Some AcceptJobRef \<and> fresh_fds (dom (interest r)) (handled OnAccepeted stack answers)
      then Some (bindr (AcceptJob_Execute OnAccepeted OnConnected stack (rserver r) answers) (\<lambda>(ok, srv, es).
             let log = es @ (if ok then AcceptJob_Complete srv else [])
             in Inr (job_done w (r\<lparr>rserver := srv, interest := epoll_log (mEpollFD srv) (net_effects log) (interest r),
                                  issued := issued r @ connected_ids es\<rparr>))))
      else None)"
| "reactor_exec OnAccepeted OnConnected OnRecv stack r (RunRecv w buffer sends answers ctlOk) =
     (case job_of r w of
        Some (RecvJobRef k) \<Rightarrow>
          (case bindr (deref (mSessionGroup (rserver r))) (\<lambda>g. bindr (session_at g k) (\<lambda>s.
                  bindr (RecvJob_run (rserver r) k (OnRecv (rserver r) k buffer sends) s answers ctlOk)
                    (\<lambda>(s', es). Inr (set_session g k s', mSessionFD s', es)))) of
             Inl e \<Rightarrow> Some (Inl e)
           | Inr (g', fd, es) \<Rightarrow>
               (let I' = epoll_log (mEpollFD (rserver r)) es (interest r) in
                if ctlOk = (I' fd \<noteq> None)
                then Some (Inr (job_done w (r\<lparr>rserver := (rserver r)\<lparr>mSessionGroup := Ptr g'\<rparr>, interest := I'\<rparr>)))
                else None))
      | _ \<Rightarrow> None)"
| "reactor_exec OnAccepeted OnConnected OnRecv stack r (AppSend i buffer sz answers) =
     (if i \<in> set (issued r)
      then Some (bindr (Server_Send (rserver r) i buffer sz answers) (\<lambda>(srv, es).
             Inr (r\<lparr>rserver := srv, interest := epoll_log (mEpollFD (rserver r)) es (interest r)\<rparr>)))
      else None)"

text \<open>The state after \<^verbatim>\<open>Start\<close>, with \<open>n\<close> workers.\<close>

definition reactor_start :: "Server \<Rightarrow> server_effect list \<Rightarrow> nat \<Rightarrow> reactor" where
  "reactor_start srv es n =
     \<lparr>rserver = srv, interest = epoll_log (mEpollFD srv) (net_effects es) (\<lambda>_. None),
      running = replicate n None, issued = []\<rparr>"

inductive reactor_reachable ::
  "(Endpoint \<Rightarrow> bool) \<Rightarrow> on_connected \<Rightarrow> on_recv_app \<Rightarrow> arr \<Rightarrow> reactor \<Rightarrow> reactor \<Rightarrow> bool"
  for OnAccepeted OnConnected OnRecv stack r0 where
  start: "reactor_reachable OnAccepeted OnConnected OnRecv stack r0 r0"
| step: "reactor_reachable OnAccepeted OnConnected OnRecv stack r0 r \<Longrightarrow>
    reactor_exec OnAccepeted OnConnected OnRecv stack r e = Some (Inr r') \<Longrightarrow>
    reactor_reachable OnAccepeted OnConnected OnRecv stack r0 r'"

section \<open>The invariant\<close>

text \<open>The descriptors of the sessions the application has been told of, by position.\<close>

definition session_fds :: "SessionGroup \<Rightarrow> SessionID list \<Rightarrow> int \<rightharpoonup> SocketFD" where
  "session_fds g ids =
     (\<lambda>k. if k \<in> GetIndex ` set ids then Some (mSessionFD (mSessionVector g ! nat k)) else None)"

definition reactor_inv :: "reactor \<Rightarrow> bool" where
  "reactor_inv r \<longleftrightarrow>
     (\<exists>g p M. mSessionGroup (rserver r) = Ptr g \<and> mWorkerThreadPool (rserver r) = Ptr p
        \<and> table_inv g M \<and> dom M = set (issued r) \<and> mSendPollFD (rserver r) \<noteq> mEpollFD (rserver r)
        \<and> core_inv (mListenFD (rserver r)) (session_fds g (issued r)) (interest r) (mJobQueue p) (running r))"

lemma reactor_invE:
  assumes "reactor_inv r"
  obtains g p M where "mSessionGroup (rserver r) = Ptr g" "mWorkerThreadPool (rserver r) = Ptr p"
    "table_inv g M" "dom M = set (issued r)" "mSendPollFD (rserver r) \<noteq> mEpollFD (rserver r)"
    "core_inv (mListenFD (rserver r)) (session_fds g (issued r)) (interest r) (mJobQueue p) (running r)"
  using assms unfolding reactor_inv_def by blast

lemma session_fds_live:
  assumes "table_inv g M" and "M i = Some s" and "i \<in> set ids"
  shows "session_fds g ids (GetIndex i) = Some (mSessionFD s)"
  using assms table_inv_live(4)[OF assms(1,2)] by (simp add: session_fds_def)

lemma session_fds_Some:
  assumes "table_inv g M" and "set ids \<subseteq> dom M" and "session_fds g ids k = Some fd"
  obtains i s where "M i = Some s" "i \<in> set ids" "GetIndex i = k" "mSessionFD s = fd"
proof -
  obtain i where i: "i \<in> set ids" "k = GetIndex i" using assms(3) by (auto simp: session_fds_def split: if_splits)
  then obtain s where s: "M i = Some s" using assms(2) by blast
  have "mSessionFD s = fd" using session_fds_live[OF assms(1) s i(1)] assms(3) i(2) by simp
  with i s that show ?thesis by blast
qed

lemma session_fds_set_session:
  assumes "table_inv g M" and "dom M = set ids" and "M i = Some s"
  shows "session_fds (set_session g (GetIndex i) s') ids = (session_fds g ids)(GetIndex i \<mapsto> mSessionFD s')"
proof
  fix k
  show "session_fds (set_session g (GetIndex i) s') ids k = ((session_fds g ids)(GetIndex i \<mapsto> mSessionFD s')) k"
  proof (cases "k \<in> GetIndex ` set ids")
    case True
    then obtain j t where j: "k = GetIndex j" "M j = Some t" using assms(2) by blast
    have "nat k \<noteq> nat (GetIndex i)" if "k \<noteq> GetIndex i"
      using that j(1) table_inv_live(1)[OF assms(1) j(2)] table_inv_live(1)[OF assms(1,3)] by auto
    then show ?thesis
      using True table_inv_live(1,2)[OF assms(1,3)] by (auto simp: session_fds_def set_session_def)
  next
    case False
    then have "k \<noteq> GetIndex i" using assms(2,3) by auto
    with False show ?thesis by (simp add: session_fds_def)
  qed
qed

lemma connected_ids_accept: "connected_ids (concat (map (accept_log E S) cs)) = List.map_filter snd cs"
proof (induction cs)
  case (Cons c cs)
  then show ?case by (cases c; cases "snd c") (auto simp: List.map_filter_simps)
qed (simp add: List.map_filter_simps)

section \<open>The application\<close>

text \<open>A full table makes the accept job leave defined behaviour, so a run that ends had room for all it kept.\<close>

lemma Server_AddSession_full:
  assumes "mSessionGroup srv = Ptr g" and "table_inv g M" and "int (card (dom M)) = mMaxSession g"
  shows "Server_AddSession srv fd = Inl OutOfBounds"
  using assms AddSession_index[OF table_full[OF assms(2,3)], of fd]
  by (simp add: Server_AddSession_def table_inv_def)

context connect_app
begin

lemma accept_loop_room:
  assumes "mSessionGroup srv = Ptr g" and "table_inv g M"
    and "accept_loop OnAccepeted OnConnected epollFD stack srv answers = Inr (srv', es)"
  shows "int (card (dom M)) + int (length (filter snd (handled OnAccepeted stack answers))) \<le> mMaxSession g"
  using assms
proof (induction OnAccepeted stack answers arbitrary: srv g M es rule: handled.induct)
  case (1 OnAccepeted stack)
  then show ?case by (simp add: table_inv_card_le)
next
  case (2 OnAccepeted stack e rest)
  then show ?case by (cases "e = EINTR") (simp_all add: table_inv_card_le)
next
  case (3 OnAccepeted stack fd addr rest)
  show ?case
  proof (cases "OnAccepeted (Endpoint_of_sockaddr stack addr)")
    case False
    with 3 show ?thesis by (auto simp: bindr_Inr_iff)
  next
    case True
    with "3.prems"(3) obtain srv1 es1 es2 where one: "accept_one OnConnected epollFD srv fd = Inr (srv1, es1)"
        "accept_loop OnAccepeted OnConnected epollFD stack srv1 rest = Inr (srv', es2)"
      by (auto simp: bindr_Inr_iff)
    have "int (card (dom M)) \<noteq> mMaxSession g"
      using one(1) Server_AddSession_full[OF "3.prems"(1,2), of fd] by (auto simp: accept_one_def)
    then have room: "int (card (dom M)) < mMaxSession g"
      using table_inv_card_le[OF "3.prems"(2)] by simp
    from accept_one_spec[OF "3.prems"(1,2) room, of epollFD fd] one(1) obtain i g1 M1 where
      a: "srv1 = srv\<lparr>mSessionGroup := Ptr g1\<rparr>" "i \<notin> dom M" "dom M1 = insert i (dom M)" "table_inv g1 M1"
        "mMaxSession g1 = mMaxSession g" by auto
    have "finite (dom M)" using table_inv_finite[OF "3.prems"(2)] .
    then show ?thesis using "3.IH"[of srv1 g1 M1 es2] a one(2) True by simp
  qed
qed

end

text \<open>
  What the dispatch of the server needs of an application: its \<open>OnConnected\<close> keeps the descriptors of the
  sessions, and its \<open>OnRecv\<close> reaches a session's descriptor only through the session's own operations.
\<close>

locale reactor_app = connect_app OnConnected evolves
  for OnConnected :: on_connected and evolves :: "Session \<Rightarrow> Session \<Rightarrow> bool" +
  fixes OnRecv :: on_recv_app
  assumes evolves_fd: "evolves s s' \<Longrightarrow> mSessionFD s' = mSessionFD s"
    and callbacks: "epoll_app srv (OnRecv srv self buffer answers)"
begin

lemma run_rearms:
  "mSendPollFD srv \<noteq> mEpollFD srv \<Longrightarrow> RecvJob_run srv self (OnRecv srv self buffer sends) s answers ctlOk = Inr (s', es) \<Longrightarrow>
    (mSessionFD s \<noteq> sINVALID_SOCKET_FD \<Longrightarrow> 0 \<le> mSessionFD s \<and> I (mSessionFD s) \<noteq> None) \<Longrightarrow>
    ctlOk = (epoll_log (mEpollFD srv) es I (mSessionFD s') \<noteq> None) \<Longrightarrow> I sINVALID_SOCKET_FD = None \<Longrightarrow>
    mSessionID s' = mSessionID s \<and>
    (mSessionFD s' = sINVALID_SOCKET_FD \<and> epoll_log (mEpollFD srv) es I = I(mSessionFD s := None)
     \<or> mSessionFD s' = mSessionFD s \<and> mSessionFD s \<noteq> sINVALID_SOCKET_FD
       \<and> epoll_log (mEpollFD srv) es I = I(mSessionFD s \<mapsto> recv_registration self))"
  by (rule epoll_app.run_rearms[OF callbacks])

lemma step_take:
  assumes "reactor_inv r" and "reactor_exec OnAccepeted OnConnected OnRecv stack r (TakeJob w) = Some (Inr r')"
  shows "reactor_inv r'"
proof -
  obtain g p M where i: "mSessionGroup (rserver r) = Ptr g" "mWorkerThreadPool (rserver r) = Ptr p"
      "table_inv g M" "dom M = set (issued r)" "mSendPollFD (rserver r) \<noteq> mEpollFD (rserver r)"
      "core_inv (mListenFD (rserver r)) (session_fds g (issued r)) (interest r) (mJobQueue p) (running r)"
    using reactor_invE[OF assms(1)] by blast
  from assms(2) i(2) obtain j q where w: "w < length (running r)" "running r ! w = None" "mJobQueue p = j # q"
      "r' = r\<lparr>rserver := (rserver r)\<lparr>mWorkerThreadPool := Ptr (p\<lparr>mJobQueue := q\<rparr>)\<rparr>, running := (running r)[w := Some j]\<rparr>"
    by (auto simp: WorkerThreadPool_PopJob_def split: if_splits list.splits)
  have "core_inv (mListenFD (rserver r)) (session_fds g (issued r)) (interest r) q ((running r)[w := Some j])"
    using core_take[OF _ w(1,2)] i(6) w(3) by simp
  with i(1-5) w(4) show ?thesis unfolding reactor_inv_def
    by (intro exI[of _ g] exI[of _ "p\<lparr>mJobQueue := q\<rparr>"] exI[of _ M]) simp
qed

lemma step_poll:
  assumes "reactor_inv r" and "e = RunPoll w fds \<or> e = PollError w err"
    and "reactor_exec OnAccepeted OnConnected OnRecv stack r e = Some (Inr r')"
  shows "reactor_inv r'"
proof -
  obtain g p M where i: "mSessionGroup (rserver r) = Ptr g" "mWorkerThreadPool (rserver r) = Ptr p"
      "table_inv g M" "dom M = set (issued r)" "mSendPollFD (rserver r) \<noteq> mEpollFD (rserver r)"
      "core_inv (mListenFD (rserver r)) (session_fds g (issued r)) (interest r) (mJobQueue p) (running r)"
    using reactor_invE[OF assms(1)] by blast
  have w: "w < length (running r)" "running r ! w = Some PollJobRef"
    using assms(2,3) by (auto simp: job_of_def split: if_splits)
  show ?thesis
    using assms(2)
  proof
    assume e: "e = RunPoll w fds"
    then have may: "may_report fds (interest r)" using assms(3) by (auto split: if_splits)
    let ?p = "p\<lparr>mJobQueue := mJobQueue p @ reported_jobs fds (interest r) @ [PollJobRef],
        mIdleThreads := drop (Suc (length (reported_jobs fds (interest r)))) (mIdleThreads p)\<rparr>"
    have "r' = job_done w (r\<lparr>rserver := (rserver r)\<lparr>mWorkerThreadPool := Ptr ?p\<rparr>, interest := epoll_report fds (interest r)\<rparr>)"
      using assms(3) e PollJob_Execute_Ptr[OF i(2)] by (auto split: if_splits)
    with i(1-5) core_poll[OF i(6) w may] show ?thesis unfolding reactor_inv_def
      by (intro exI[of _ g] exI[of _ ?p] exI[of _ M]) (simp add: job_done_def)
  next
    assume e: "e = PollError w err"
    let ?p = "p\<lparr>mJobQueue := mJobQueue p @ [PollJobRef], mIdleThreads := drop (Suc 0) (mIdleThreads p)\<rparr>"
    have "r' = job_done w (r\<lparr>rserver := (rserver r)\<lparr>mWorkerThreadPool := Ptr ?p\<rparr>\<rparr>)"
      using assms(3) e PollJob_Execute_Ptr[OF i(2)] by (auto split: if_splits)
    with i(1-5) core_poll_error[OF i(6) w] show ?thesis unfolding reactor_inv_def
      by (intro exI[of _ g] exI[of _ ?p] exI[of _ M]) (simp add: job_done_def)
  qed
qed

lemma step_recv:
  assumes "reactor_inv r"
    and "reactor_exec OnAccepeted OnConnected OnRecv stack r (RunRecv w buffer sends answers ctlOk) = Some (Inr r')"
  shows "reactor_inv r'"
proof -
  obtain g p M where i: "mSessionGroup (rserver r) = Ptr g" "mWorkerThreadPool (rserver r) = Ptr p"
      "table_inv g M" "dom M = set (issued r)" "mSendPollFD (rserver r) \<noteq> mEpollFD (rserver r)"
      "core_inv (mListenFD (rserver r)) (session_fds g (issued r)) (interest r) (mJobQueue p) (running r)"
    using reactor_invE[OF assms(1)] by blast
  let ?I = "interest r" and ?srv = "rserver r" and ?F = "session_fds g (issued r)"
  from assms(2) obtain k where k: "job_of r w = Some (RecvJobRef k)"
    by (auto split: option.splits job_ref.splits)
  then have w: "w < length (running r)" "running r ! w = Some (RecvJobRef k)" by (auto simp: job_of_def split: if_splits)
  note reg = conjunct1[OF i(6)[unfolded core_inv_def]] and cnt = conjunct2[OF i(6)[unfolded core_inv_def]]
  have "places (mJobQueue p) (running r) ?I (RecvJobRef k) \<noteq> 0"
    using w by (auto simp: places_def count_list_0_iff in_set_conv_nth)
  then obtain fd where "?F k = Some fd" using count_okD(1)[OF cnt, of k] by fastforce
  then obtain i0 s where s: "M i0 = Some s" "i0 \<in> set (issued r)" "GetIndex i0 = k" "mSessionFD s = fd"
    using session_fds_Some[OF i(3)] i(4) by blast
  have F: "?F k = Some (mSessionFD s)" using session_fds_live[OF i(3) s(1,2)] s(3) by simp
  from assms(2) k i(1) table_get(2)[OF i(3) s(1)] s(3) obtain s' es where
    run: "RecvJob_run ?srv k (OnRecv ?srv k buffer sends) s answers ctlOk = Inr (s', es)"
      "ctlOk = (epoll_log (mEpollFD ?srv) es ?I (mSessionFD s') \<noteq> None)"
      "r' = job_done w (r\<lparr>rserver := ?srv\<lparr>mSessionGroup := Ptr (set_session g k s')\<rparr>, interest := epoll_log (mEpollFD ?srv) es ?I\<rparr>)"
    by (auto simp: Let_def split: sum.splits if_splits simp: bindr_def)
  have "0 \<le> mSessionFD s \<and> ?I (mSessionFD s) \<noteq> None" if "mSessionFD s \<noteq> sINVALID_SOCKET_FD"
    using reg_okD(3)[OF reg F that] reg_okD(1)[OF reg] by auto
  from run_rearms[OF i(5) run(1) this run(2) reg_okD(4)[OF reg]]
  have id: "mSessionID s' = i0" and out:
    "mSessionFD s' = sINVALID_SOCKET_FD \<and> epoll_log (mEpollFD ?srv) es ?I = ?I(mSessionFD s := None)
     \<or> mSessionFD s' = mSessionFD s \<and> mSessionFD s \<noteq> sINVALID_SOCKET_FD
       \<and> epoll_log (mEpollFD ?srv) es ?I = ?I(mSessionFD s \<mapsto> recv_registration k)"
    using table_inv_live(5)[OF i(3) s(1)] by auto
  have fds: "session_fds (set_session g k s') (issued r) = ?F(k \<mapsto> mSessionFD s')"
    using session_fds_set_session[OF i(3,4) s(1), of s'] s(3) by simp
  have "core_inv (mListenFD ?srv) (?F(k \<mapsto> mSessionFD s')) (epoll_log (mEpollFD ?srv) es ?I) (mJobQueue p) ((running r)[w := None])"
    using out
  proof (elim disjE conjE)
    assume "mSessionFD s' = sINVALID_SOCKET_FD" "epoll_log (mEpollFD ?srv) es ?I = ?I(mSessionFD s := None)"
    then show ?thesis using core_done[OF core_release[OF i(6) F] w] by simp
  next
    assume o: "mSessionFD s' = mSessionFD s" "mSessionFD s \<noteq> sINVALID_SOCKET_FD"
      "epoll_log (mEpollFD ?srv) es ?I = ?I(mSessionFD s \<mapsto> recv_registration k)"
    from reg_okD(3)[OF reg F o(2)] obtain rg where rg: "?I (mSessionFD s) = Some rg" "reg_job rg = RecvJobRef k" by blast
    have "?F(k \<mapsto> mSessionFD s') = ?F" using F o(1) by auto
    with core_rearm[OF i(6) w(1) _ rg(1), of "[EPOLLONESHOT, EPOLLIN, EPOLLET]"] w(2) rg(2) o(3)
    show ?thesis by (simp add: recv_registration_def)
  qed
  moreover have "table_inv (set_session g k s') (M(i0 \<mapsto> s'))" "dom (M(i0 \<mapsto> s')) = set (issued r)"
    using table_set_session[OF i(3) s(1) id] s(2,3) i(4) by auto
  ultimately show ?thesis unfolding reactor_inv_def run(3) using i(2,5) fds
    by (intro exI[of _ "set_session g k s'"] exI[of _ p] exI[of _ "M(i0 \<mapsto> s')"]) (simp add: job_done_def)
qed

lemma step_send:
  assumes "reactor_inv r"
    and "reactor_exec OnAccepeted OnConnected OnRecv stack r (AppSend i0 buffer sz answers) = Some (Inr r')"
  shows "reactor_inv r'"
proof -
  obtain g p M where i: "mSessionGroup (rserver r) = Ptr g" "mWorkerThreadPool (rserver r) = Ptr p"
      "table_inv g M" "dom M = set (issued r)" "mSendPollFD (rserver r) \<noteq> mEpollFD (rserver r)"
      "core_inv (mListenFD (rserver r)) (session_fds g (issued r)) (interest r) (mJobQueue p) (running r)"
    using reactor_invE[OF assms(1)] by blast
  let ?I = "interest r" and ?srv = "rserver r" and ?F = "session_fds g (issued r)"
  have "i0 \<in> set (issued r)" using assms(2) by (auto split: if_splits)
  then obtain s where s: "M i0 = Some s" "i0 \<in> set (issued r)" using i(4) by blast
  obtain s' es where send: "Session_Send ?srv (GetIndex i0) s buffer sz answers = (s', es)" by fastforce
  let ?g = "set_session g (GetIndex i0) s'"
  have r': "r' = r\<lparr>rserver := ?srv\<lparr>mSessionGroup := Ptr ?g\<rparr>, interest := epoll_log (mEpollFD ?srv) es ?I\<rparr>"
    using assms(2) s(2) send i(1) table_get[OF i(3) s(1)] by (auto simp: Server_Send_def)
  have F: "?F (GetIndex i0) = Some (mSessionFD s)" by (rule session_fds_live[OF i(3) s])
  have fds: "session_fds ?g (issued r) = ?F(GetIndex i0 \<mapsto> mSessionFD s')"
    by (rule session_fds_set_session[OF i(3,4) s(1)])
  have "core_inv (mListenFD ?srv) (?F(GetIndex i0 \<mapsto> mSessionFD s')) (epoll_log (mEpollFD ?srv) es ?I) (mJobQueue p) (running r)"
    using releases_log[OF Session_Send_releases[OF i(5) send], of ?I]
  proof (elim disjE conjE)
    assume "mSessionFD s' = mSessionFD s" "epoll_log (mEpollFD ?srv) es ?I = ?I"
    moreover from this F have "?F(GetIndex i0 \<mapsto> mSessionFD s') = ?F" by auto
    ultimately show ?thesis using i(6) by simp
  next
    assume "mSessionFD s' = sINVALID_SOCKET_FD" "epoll_log (mEpollFD ?srv) es ?I = ?I(mSessionFD s := None)"
    then show ?thesis using core_release[OF i(6) F] by simp
  qed
  moreover have "mSessionID s' = i0"
    using Session_Send_frame[OF send] table_inv_live(5)[OF i(3) s(1)] by (simp add: send_frame_def same_receiver_def)
  then have "table_inv ?g (M(i0 \<mapsto> s'))" "dom (M(i0 \<mapsto> s')) = set (issued r)"
    using table_set_session[OF i(3) s(1)] s(2) i(4) by auto
  ultimately show ?thesis unfolding reactor_inv_def r' using i(2,5) fds
    by (intro exI[of _ ?g] exI[of _ p] exI[of _ "M(i0 \<mapsto> s')"]) simp
qed

text \<open>The new sessions and their descriptors after a run of the accept loop.\<close>

lemma session_fds_accept:
  assumes "table_inv g M" and "dom M = set ids" and "table_inv g' M'" and "dom M' = dom M \<union> set new"
    and "dom M \<inter> set new = {}" and old: "\<forall>j\<in>dom M. evolves (the (M j)) (the (M' j))"
  shows "session_fds g' (ids @ new) = session_fds g ids ++ session_fds g' new"
    and "dom (session_fds g ids) \<inter> dom (session_fds g' new) = {}"
proof -
  have disj: "GetIndex ` set ids \<inter> GetIndex ` set new = {}"
    using inj_on_image_Int[OF table_inv_inj[OF assms(3)], of "set ids" "set new"] assms(2,4,5) by auto
  then show "dom (session_fds g ids) \<inter> dom (session_fds g' new) = {}"
    by (auto simp: session_fds_def dom_def)
  have "session_fds g' (ids @ new) k = session_fds g ids k" if "k \<in> GetIndex ` set ids" for k
  proof -
    from that obtain i where i: "i \<in> set ids" "k = GetIndex i" by blast
    then obtain s s' where s: "M i = Some s" "M' i = Some s'" using assms(2,4) by blast
    have "evolves s s'" using old s by (metis domI option.sel)
    then show ?thesis
      using session_fds_live[OF assms(1) s(1) i(1)] session_fds_live[OF assms(3) s(2), of "ids @ new"] i
      by (simp add: evolves_fd)
  qed
  then have pt: "session_fds g' (ids @ new) k = (session_fds g ids ++ session_fds g' new) k" if "k \<in> GetIndex ` set ids" for k
    using that disj by (simp add: session_fds_def[of g' new] map_add_def disjoint_iff)
  show "session_fds g' (ids @ new) = session_fds g ids ++ session_fds g' new"
  proof
    show "session_fds g' (ids @ new) k = (session_fds g ids ++ session_fds g' new) k" for k
      using pt[of k] by (cases "k \<in> GetIndex ` set ids") (simp_all add: session_fds_def map_add_def image_Un)
  qed
qed

lemma session_fds_new:
  assumes "table_inv g' M'" and "set (List.map_filter snd cs) \<subseteq> dom M'"
    and "\<forall>fd i. (fd, Some i) \<in> set cs \<longrightarrow> (\<exists>st. evolves (Session_ctor st i fd) (the (M' i)))"
  shows "session_fds g' (List.map_filter snd cs) k = Some fd \<longleftrightarrow> (\<exists>i. (fd, Some i) \<in> set cs \<and> GetIndex i = k)"
proof -
  have fds: "session_fds g' (List.map_filter snd cs) (GetIndex i) = Some fd" if "(fd, Some i) \<in> set cs" for fd i
  proof -
    have i: "i \<in> set (List.map_filter snd cs)" using that by (force simp: List.map_filter_def)
    then obtain s where s: "M' i = Some s" using assms(2) by blast
    from assms(3) that have "\<exists>st. evolves (Session_ctor st i fd) (the (M' i))" by blast
    then obtain st where "evolves (Session_ctor st i fd) s" using s by auto
    then show ?thesis using session_fds_live[OF assms(1) s i] evolves_fd by fastforce
  qed
  show ?thesis
  proof
    assume k: "session_fds g' (List.map_filter snd cs) k = Some fd"
    then obtain i where "i \<in> set (List.map_filter snd cs)" "GetIndex i = k"
      using session_fds_Some[OF assms(1,2)] by blast
    then obtain fd' where c: "(fd', Some i) \<in> set cs" "GetIndex i = k" by (auto simp: List.map_filter_def)
    with fds[OF c(1)] k show "\<exists>i. (fd, Some i) \<in> set cs \<and> GetIndex i = k" by auto
  qed (use fds in blast)
qed

lemma step_accept:
  assumes "reactor_inv r"
    and "reactor_exec OnAccepeted OnConnected OnRecv stack r (RunAccept w answers) = Some (Inr r')"
  shows "reactor_inv r'"
proof -
  obtain g p M where i: "mSessionGroup (rserver r) = Ptr g" "mWorkerThreadPool (rserver r) = Ptr p"
      "table_inv g M" "dom M = set (issued r)" "mSendPollFD (rserver r) \<noteq> mEpollFD (rserver r)"
      "core_inv (mListenFD (rserver r)) (session_fds g (issued r)) (interest r) (mJobQueue p) (running r)"
    using reactor_invE[OF assms(1)] by blast
  let ?I = "interest r" and ?srv = "rserver r" and ?F = "session_fds g (issued r)"
  let ?E = "mEpollFD ?srv" and ?S = "mSendPollFD ?srv" and ?L = "mListenFD ?srv"
  have w: "w < length (running r)" "running r ! w = Some AcceptJobRef"
    and fresh: "fresh_fds (dom ?I) (handled OnAccepeted stack answers)"
    using assms(2) by (auto simp: job_of_def split: if_splits)
  obtain srv' es where "accept_loop OnAccepeted OnConnected ?E stack ?srv answers = Inr (srv', es)"
    using assms(2) by (auto simp: AcceptJob_Execute_def bindr_Inr_iff Server_GetEpollFD_def split: if_splits)
  note room = accept_loop_room[OF i(1,3) this]
  obtain g' M' cs where
    r: "accept_loop OnAccepeted OnConnected ?E stack ?srv answers
        = Inr (?srv\<lparr>mSessionGroup := Ptr g'\<rparr>, concat (map (accept_log ?E ?S) cs))"
      "map (\<lambda>(fd, i). (fd, i \<noteq> None)) cs = handled OnAccepeted stack answers"
      "table_inv g' M'" "dom M' = dom M \<union> set (List.map_filter snd cs)" "dom M \<inter> set (List.map_filter snd cs) = {}"
      "\<forall>j\<in>dom M. evolves (the (M j)) (the (M' j))"
      "\<forall>fd i. (fd, Some i) \<in> set cs \<longrightarrow> (\<exists>st. evolves (Session_ctor st i fd) (the (M' i)))"
    using accept_loop_spec[OF i(1,3) room, of ?E] by blast
  let ?new = "List.map_filter snd cs"
  let ?J = "epoll_log ?E (net_effects (concat (map (accept_log ?E ?S) cs))) ?I"
  let ?ev = "EpollCtl ?E EPOLL_CTL_MOD ?L (Some (AcceptJobRef, [EPOLLONESHOT, EPOLLIN, EPOLLET]))"
  have r': "r' = job_done w (r\<lparr>rserver := ?srv\<lparr>mSessionGroup := Ptr g'\<rparr>,
      interest := epoll_apply ?E ?ev ?J, issued := issued r @ ?new\<rparr>)"
    using assms(2) w fresh r(1) connected_ids_accept[of ?E ?S cs]
    by (simp add: job_of_def AcceptJob_Execute_def AcceptJob_Complete_def Let_def Server_GetEpollFD_def
        Server_GetListenSocket_def del: epoll_apply.simps)
  note fr = fresh[folded r(2)]
  note regs = accept_registers[OF fr subset_refl i(5)]
  have new: "session_fds g' ?new k = Some fd \<longleftrightarrow> (\<exists>i. (fd, Some i) \<in> set cs \<and> GetIndex i = k)" for k fd
    using r(4) by (intro session_fds_new[OF r(3) _ r(7)]) auto
  note fds = session_fds_accept[OF i(3,4) r(3-6)]
  have core: "core_inv ?L (?F ++ session_fds g' ?new) ?J (mJobQueue p) (running r)"
  proof (rule core_accept[OF i(6) fds(2)])
    fix k fd assume "session_fds g' ?new k = Some fd"
    then obtain i where c: "(fd, Some i) \<in> set cs" "GetIndex i = k" using new by blast
    then have "(fd, True) \<in> set (map (\<lambda>(fd, i). (fd, i \<noteq> None)) cs)" by force
    from fresh_fds_kept[OF fr this] show "0 \<le> fd \<and> ?I fd = None \<and> ?J fd = Some (recv_registration k)"
      using c regs by (auto simp: domIff)
  next
    fix fd assume "fd \<notin> ran (session_fds g' ?new)"
    then have "\<forall>i. (fd, Some i) \<notin> set cs" using new by (auto simp: ran_def)
    with regs show "?J fd = ?I fd" by blast
  qed
  note reg = conjunct1[OF core[unfolded core_inv_def]]
  obtain rg where rg: "?J ?L = Some rg" "reg_job rg = AcceptJobRef" using reg_okD(2)[OF reg] by blast
  then have "epoll_apply ?E ?ev ?J = ?J(?L \<mapsto> \<lparr>reg_job = reg_job rg, reg_flags = [EPOLLONESHOT, EPOLLIN, EPOLLET], armed = True\<rparr>)"
    using reg_okD(1)[OF reg rg(1)] by simp
  with core_rearm[OF core w(1) _ rg(1), of "[EPOLLONESHOT, EPOLLIN, EPOLLET]"] w(2) rg(2)
  have "core_inv ?L (?F ++ session_fds g' ?new) (epoll_apply ?E ?ev ?J) (mJobQueue p) ((running r)[w := None])" by simp
  then show ?thesis unfolding reactor_inv_def r' using i(2,4,5) r(3,4) fds(1)
    by (intro exI[of _ g'] exI[of _ p] exI[of _ M']) (simp add: job_done_def del: epoll_apply.simps)
qed

lemma reactor_step:
  assumes "reactor_inv r" and "reactor_exec OnAccepeted OnConnected OnRecv stack r e = Some (Inr r')"
  shows "reactor_inv r'"
proof (cases e)
  case (TakeJob w) with step_take[OF assms(1)] assms(2) show ?thesis by blast
next
  case (RunPoll w fds) with step_poll[OF assms(1) _ assms(2)] show ?thesis by blast
next
  case (PollError w err) with step_poll[OF assms(1) _ assms(2)] show ?thesis by blast
next
  case (RunAccept w answers) with step_accept[OF assms(1)] assms(2) show ?thesis by blast
next
  case (RunRecv w buffer sends answers ctlOk) with step_recv[OF assms(1)] assms(2) show ?thesis by blast
next
  case (AppSend i0 buffer sz answers) with step_send[OF assms(1)] assms(2) show ?thesis by blast
qed

lemma reactor_invariant:
  "reactor_reachable OnAccepeted OnConnected OnRecv stack r0 r \<Longrightarrow> reactor_inv r0 \<Longrightarrow> reactor_inv r"
  by (induction rule: reactor_reachable.induct) (auto intro: reactor_step)

text \<open>A worker that holds a job can finish it, and an idle one can take a job that is queued.\<close>

lemma worker_can_finish:
  assumes "reactor_inv r" and "w < length (running r)" and "running r ! w = Some j"
  shows "\<exists>e r'. reactor_exec OnAccepeted OnConnected OnRecv stack r e = Some (Inr r') \<and> running r' = (running r)[w := None]"
proof -
  obtain g p M where i: "mSessionGroup (rserver r) = Ptr g" "mWorkerThreadPool (rserver r) = Ptr p"
      "table_inv g M" "dom M = set (issued r)" "mSendPollFD (rserver r) \<noteq> mEpollFD (rserver r)"
      "core_inv (mListenFD (rserver r)) (session_fds g (issued r)) (interest r) (mJobQueue p) (running r)"
    using reactor_invE[OF assms(1)] by blast
  note cnt = conjunct2[OF i(6)[unfolded core_inv_def]]
  have job: "job_of r w = Some j" using assms(2,3) by (simp add: job_of_def)
  have placed: "places (mJobQueue p) (running r) (interest r) j \<noteq> 0"
    using assms(2,3) by (auto simp: places_def count_list_0_iff in_set_conv_nth)
  show ?thesis
  proof (cases j)
    case PollJobRef
    then show ?thesis using job PollJob_Execute_Ptr[OF i(2)]
      by (intro exI[of _ "PollError w EINTR"]) (simp add: job_done_def)
  next
    case AcceptJobRef
    then show ?thesis using job
      by (intro exI[of _ "RunAccept w []"]) (simp add: AcceptJob_Execute_def Let_def job_done_def)
  next
    case (RecvJobRef k)
    with placed count_okD(1)[OF cnt, of k] obtain fd where "session_fds g (issued r) k = Some fd" by fastforce
    then obtain i0 s where s: "M i0 = Some s" "GetIndex i0 = k" using session_fds_Some[OF i(3)] i(4) by blast
    obtain q s' es where stop: "stop_receiving (rserver r) s = (q, s', es)" by (metis prod_cases3)
    have "\<not> q" using stop_receiving_spec[OF stop] by simp
    have run: "RecvJob_run (rserver r) k on_recv s [RecvData []] ok = Inr (s', es)" for on_recv ok
      using \<open>\<not> q\<close> by (simp add: RecvJob_run_def RecvJob_Execute.simps stop)
    let ?I = "epoll_log (mEpollFD (rserver r)) es (interest r)"
    show ?thesis using job RecvJobRef i(1) table_get(2)[OF i(3) s(1)] s(2) run
      by (intro exI[of _ "RunRecv w 0 [] [RecvData []] (?I (mSessionFD s') \<noteq> None)"]) (simp add: Let_def job_done_def)
  qed (use placed cnt in \<open>auto simp: count_ok_def\<close>)
qed

end

lemma worker_can_take:
  assumes "mWorkerThreadPool (rserver r) = Ptr p" and "mJobQueue p = j # q" and "w < length (running r)" and "running r ! w = None"
  shows "\<exists>r'. reactor_exec OnAccepeted OnConnected OnRecv stack r (TakeJob w) = Some (Inr r') \<and> running r' = (running r)[w := Some j]"
  using assms by (simp add: WorkerThreadPool_PopJob_def)

text \<open>No step changes the number of workers.\<close>

lemma reactor_exec_workers:
  "reactor_exec OnAccepeted OnConnected OnRecv stack r e = Some (Inr r') \<Longrightarrow> length (running r') = length (running r)"
  by (cases e) (auto simp: job_done_def Let_def bindr_Inr_iff
      split: if_splits ptr.splits option.splits job_ref.splits sum.splits prod.splits)

lemma reactor_reachable_workers:
  "reactor_reachable OnAccepeted OnConnected OnRecv stack r0 r \<Longrightarrow> length (running r) = length (running r0)"
  by (induction rule: reactor_reachable.induct) (simp_all add: reactor_exec_workers)

text \<open>A sequence of events, as long as every step is possible and defined.\<close>

fun reactor_run ::
  "(Endpoint \<Rightarrow> bool) \<Rightarrow> on_connected \<Rightarrow> on_recv_app \<Rightarrow> arr \<Rightarrow> reactor \<Rightarrow> reactor_event list \<Rightarrow> reactor option" where
  "reactor_run OnAccepeted OnConnected OnRecv stack r [] = Some r"
| "reactor_run OnAccepeted OnConnected OnRecv stack r (e # events) =
     (case reactor_exec OnAccepeted OnConnected OnRecv stack r e of
        Some (Inr r') \<Rightarrow> reactor_run OnAccepeted OnConnected OnRecv stack r' events
      | _ \<Rightarrow> None)"

lemma reactor_run_reachable:
  "reactor_run OnAccepeted OnConnected OnRecv stack r events = Some r' \<Longrightarrow>
    reactor_reachable OnAccepeted OnConnected OnRecv stack r0 r \<Longrightarrow>
    reactor_reachable OnAccepeted OnConnected OnRecv stack r0 r'"
  by (induction events arbitrary: r)
    (auto intro: reactor_reachable.step split: option.splits sum.splits)

end
