(* ===== verification/Echo_Server.thy ===== *)
theory Echo_Server
  imports Reactor
begin

text \<open>
  The echo server of \<^verbatim>\<open>src/tests/performance/test_server.cpp\<close> from its \<^verbatim>\<open>Start\<close> on: the contract
  of theory \<open>Reactor\<close> holds for its callbacks, a successful start establishes the invariant, and so
  every job is in one place in every state and the workers never get stuck.
\<close>

section \<open>The started echo server\<close>

definition TestServer_app :: on_recv_app where
  "TestServer_app srv self buffer answers = TestServer_OnRecv srv self buffer answers"

interpretation echo_reactor: reactor_app TestServer_OnConnected "(=)" TestServer_app
  by (rule reactor_app.intro[OF quiet.connect_app_axioms reactor_app_axioms.intro])
    (simp_all add: TestServer_app_def echo_epoll.epoll_app_axioms)

text \<open>A server that \<^verbatim>\<open>Start\<close> has started with a listening socket, and its workers.\<close>

definition echo_start :: "reactor \<Rightarrow> bool" where
  "echo_start r0 \<longleftrightarrow>
     (\<exists>storage0 endpoint n storage u k srv es.
        Server_Start (Server_ctor storage0) endpoint n storage u k = Inr (True, srv, es)
        \<and> 0 \<le> mListenFD srv \<and> epoll_ret k \<noteq> send_epoll_ret k \<and> 0 < length storage \<and> length storage < 65535
        \<and> 0 < n \<and> r0 = reactor_start srv es n)"

lemma CreateListenSocket_silent:
  "CreateListenSocket e k = (fd, es) \<Longrightarrow> 0 \<le> fd \<Longrightarrow> epoll_log E (net_effects es) (\<lambda>_. None) = (\<lambda>_. None)"
  by (auto simp: CreateListenSocket_def Let_def sINVALID_SOCKET_FD_def split: if_splits)

lemma echo_start_inv:
  assumes "echo_start r0"
  shows "reactor_inv r0" and "0 < length (running r0)"
proof -
  obtain storage0 endpoint n storage u k srv es where
    st: "Server_Start (Server_ctor storage0) endpoint n storage u k = Inr (True, srv, es)"
      "0 \<le> mListenFD srv" "epoll_ret k \<noteq> send_epoll_ret k" "0 < length storage" "length storage < 65535"
      "0 < n" "r0 = reactor_start srv es n"
    using assms unfolding echo_start_def by blast
  show "0 < length (running r0)" using st(6,7) by (simp add: reactor_start_def)
  obtain fd es1 where c: "CreateListenSocket endpoint (listen_ans k) = (fd, es1)" by fastforce
  obtain ok p where w: "WorkerThreadPool_Start WorkerThreadPool_ctor n (thread_ret k) = (ok, p :: job_ref WorkerThreadPool)"
    by fastforce
  have "epoll_ret k \<noteq> sINVALID_ID" "send_epoll_ret k \<noteq> sINVALID_ID"
    using st(1) by (auto simp: Server_Start_def Let_def split: if_splits)
  from Server_Start_ok[OF this c w, of "Server_ctor storage0" storage u] st(1) have srv:
    "mListenFD srv = fd" "mEpollFD srv = epoll_ret k" "mSendPollFD srv = send_epoll_ret k"
    "mWorkerThreadPool srv = Ptr (p\<lparr>mJobQueue := [PollJobRef]\<rparr>)" "mSessionGroup srv = Ptr (SessionGroup_ctor storage u)"
    "es = es1 @ [Net (EpollCtl (epoll_ret k) EPOLL_CTL_ADD fd (Some (AcceptJobRef, [EPOLLIN, EPOLLONESHOT, EPOLLET])))]"
    by auto
  let ?I = "[fd \<mapsto> \<lparr>reg_job = AcceptJobRef, reg_flags = [EPOLLIN, EPOLLONESHOT, EPOLLET], armed = True\<rparr>]"
  have r0: "r0 = \<lparr>rserver = srv, interest = ?I, running = replicate n None, issued = []\<rparr>"
    using st(2,7) srv CreateListenSocket_silent[OF c] by (simp add: reactor_start_def)
  have armed: "armed_at ?I j \<longleftrightarrow> j = AcceptJobRef" for j by (auto simp: armed_at_def split: if_splits)
  have "core_inv fd (session_fds g []) ?I [PollJobRef] (replicate n None)" for g
    using st(2) srv(1) armed
    by (auto simp: core_inv_def reg_ok_def count_ok_def places_def session_fds_def count_list_0_iff split: if_splits)
  with table_inv_ctor[OF st(4,5), of u] st(3) srv show "reactor_inv r0" unfolding r0 reactor_inv_def
    by (intro exI[of _ "SessionGroup_ctor storage u"] exI[of _ "p\<lparr>mJobQueue := [PollJobRef]\<rparr>"] exI[of _ Map.empty]) simp
qed

section \<open>Properties\<close>



section \<open>A run\<close>

definition start_reactor_ex :: start_answers where
  "start_reactor_ex = \<lparr>epoll_ret = 4, send_epoll_ret = 5, thread_ret = (\<lambda>i. (10 + int i, 0)),
     listen_ans = \<lparr>socket_ret = 3, setsockopt_ret = 0, bind_ret = 0, listen_ret = 0\<rparr>\<rparr>"

definition started_ex :: Server where
  "started_ex = \<lparr>mListenFD = 3, mEpollFD = 4, mSendPollFD = 5, mIsRunning = True,
     mWorkerThreadPool = Ptr \<lparr>pool_mIsRunning = True,
       mWorkerThreads = [\<lparr>mThreadHandle = 0, mEventFD = 10\<rparr>, \<lparr>mThreadHandle = 1, mEventFD = 11\<rparr>],
       mIdleThreads = [], mJobQueue = [PollJobRef]\<rparr>,
     mSessionGroup = Ptr (SessionGroup_ctor [session_ex, session_ex] 0),
     mPollJob = Ptr PollJobRef, mAcceptJob = Ptr AcceptJobRef\<rparr>"

definition start_log_ex :: "server_effect list" where
  "start_log_ex = [Socket AF_INET, Net (SetSockOpt 3 SOL_SOCKET SO_REUSEADDR), Net (SetNonBlock 3),
     Bind 3 (bytes_at sockaddr_ex 0 sizeof_sockaddr_in), Listen 3,
     Net (EpollCtl 4 EPOLL_CTL_ADD 3 (Some (AcceptJobRef, [EPOLLIN, EPOLLONESHOT, EPOLLET])))]"

lemma IPv4_ex: "Endpoint_GetIPVersion \<lparr>mAddress = sockaddr_ex\<rparr> = IPv4"
  by (simp add: Endpoint_GetIPVersion_def sockaddr_ex_def sockaddr_defs load16_other)

lemma Server_Start_ex:
  "Server_Start (Server_ctor server_ex) \<lparr>mAddress = sockaddr_ex\<rparr> 2 [session_ex, session_ex] 0 start_reactor_ex
    = Inr (True, started_ex, start_log_ex)"
  by (simp add: start_reactor_ex_def Server_Start_def Server_ctor_def server_ex_def Let_def Server_AddJob_def
      WorkerThreadPool_Start_def WorkerThreadPool_ctor_def CreateListenSocket_def sINVALID_ID_def sINVALID_SOCKET_FD_def
      numeral_2_eq_2 WorkerThreadPool_AddJob_def WorkerThreadPool_WakeOneThread_def push_job_def started_ex_def IPv4_ex start_log_ex_def)

definition reactor_ex :: reactor where
  "reactor_ex = reactor_start started_ex start_log_ex 2"

lemma echo_start_ex: "echo_start reactor_ex"
proof -
  have "epoll_ret start_reactor_ex \<noteq> send_epoll_ret start_reactor_ex" "0 \<le> mListenFD started_ex"
    by (simp_all add: start_reactor_ex_def started_ex_def)
  then show ?thesis
    unfolding echo_start_def using Server_Start_ex reactor_ex_def by fastforce
qed

text \<open>
  A client connects, is accepted and sends: one worker ends with the receive job of its session while
  the other has just polled.
\<close>

definition events_ex :: "reactor_event list" where
  "events_ex = [TakeJob 0, RunPoll 0 [3], TakeJob 0, TakeJob 1, RunAccept 0 [Accepted 8 sockaddr_ex], RunPoll 1 [8], TakeJob 0]"

lemma reactor_ex_run:
  "\<exists>r. reactor_run (\<lambda>_. True) TestServer_OnConnected TestServer_app (\<lambda>_. 0) reactor_ex events_ex = Some r
    \<and> issued r = [make_session_id 0 0] \<and> running r = [Some (RecvJobRef 0), None]
    \<and> mEpollFD (rserver r) = 4 \<and> mSendPollFD (rserver r) = 5 \<and> interest r 8 \<noteq> None
    \<and> (\<exists>g. mSessionGroup (rserver r) = Ptr g
         \<and> session_at g 0 = Inr (Session_ctor (Session_default_ctor session_ex) (make_session_id 0 0) 8))"
  by (simp add: events_ex_def reactor_ex_def reactor_start_def started_ex_def start_log_ex_def numeral_2_eq_2
      Let_def sINVALID_SOCKET_FD_def
      PollJob_Execute_def Server_AddJob_def WorkerThreadPool_AddJob_def WorkerThreadPool_WakeOneThread_def push_job_def
      SessionGroup_ctor_def session_ex_def Session_default_ctor_def AcceptJob_Execute_def Server_GetEpollFD_def accept_one_def
      Server_AddSession_def AddSession_index SessionGroup_GetSession_def session_at_def GetIndex_make_session_id
      Session_GetSessionID_def TestServer_OnConnected_def AcceptJob_Complete_def Server_GetSendPollFD_def
      Session_GetRecvJob_def Server_GetListenSocket_def may_report_def WorkerThreadPool_PopJob_def sMAX_EVENTS_def
      reported_jobs_def epoll_report_def job_of_def job_done_def domIff)

lemma reactor_ex_reachable:
  obtains r where "reactor_reachable (\<lambda>_. True) TestServer_OnConnected TestServer_app (\<lambda>_. 0) reactor_ex r"
    and "issued r = [make_session_id 0 0]" and "running r = [Some (RecvJobRef 0), None]"
  using reactor_ex_run reactor_run_reachable[OF _ reactor_reachable.start] by blast



end
