(* ===== verification/Echo_Stream.thy ===== *)
theory Echo_Stream
  imports Echo_Server
begin

text \<open>
  What the clients of the running echo server get. For each session the bytes the kernel has delivered
  and the bytes the application has been shown are read off a run of the server, and compared; and the
  steps of the server are shown to stay within defined behaviour as long as the table has room.
\<close>

section \<open>One run of the receive job\<close>

text \<open>The bytes the kernel delivers to one run: those before the loop ends.\<close>

fun received :: "recv_answer list \<Rightarrow> Byte list" where
  "received [] = []"
| "received (RecvData bs # rest) = (if bs = [] then [] else bs @ received rest)"
| "received (RecvErr e # rest) = (if e = EINTR then received rest else [])"

definition received_by :: "Session \<Rightarrow> recv_answer list \<Rightarrow> Byte list" where
  "received_by s answers = (if mSessionFD s = sINVALID_SOCKET_FD then [] else received answers)"

definition calm :: "Session \<Rightarrow> bool" where
  "calm s \<longleftrightarrow> mFront (recv_buffer s) = 0 \<and> mRear (recv_buffer s) = 0"

lemma calm_contents: "calm s \<Longrightarrow> RecvBuffer_contents (recv_buffer s) = []"
  by (simp add: calm_def RecvBuffer_contents_def bytes_at_def)

lemma stop_receiving_buffer:
  "stop_receiving srv s = (q, s', es) \<Longrightarrow> \<not> q \<and> recv_buffer s' = recv_buffer s \<and> mSessionFD s' = sINVALID_SOCKET_FD
    \<and> consumed f es = []"
  by (auto simp: stop_receiving_def Session_SetReceiveState_def Session_Disconnect_def Let_def split: if_splits)

text \<open>
  The loop of \<open>Execute\<close> appends what is delivered. If it asks for \<open>Complete\<close> the session still has its
  descriptor, and otherwise it has given it up.
\<close>

definition execute_ok :: "Session \<Rightarrow> Byte list \<Rightarrow> bool \<Rightarrow> Session \<Rightarrow> effect list \<Rightarrow> bool" where
  "execute_ok s bs ok s' es \<longleftrightarrow> RecvBuffer_inv (recv_buffer s') \<and> consumed length es = []
     \<and> RecvBuffer_contents (recv_buffer s') = RecvBuffer_contents (recv_buffer s) @ bs
     \<and> mFront (recv_buffer s') = mFront (recv_buffer s) \<and> mRear (recv_buffer s') = mRear (recv_buffer s) + int (length bs)
     \<and> mSessionFD s' = (if ok then mSessionFD s else sINVALID_SOCKET_FD)
     \<and> (ok \<longrightarrow> mSessionFD s \<noteq> sINVALID_SOCKET_FD)"

lemma execute_ok_stop:
  "stop_receiving srv s = (q, s', es) \<Longrightarrow> RecvBuffer_inv (recv_buffer s) \<Longrightarrow> execute_ok s [] q s' es"
  using stop_receiving_buffer[of srv s q s' es length] by (simp add: execute_ok_def)

lemma execute_ok_stay:
  "mSessionFD s \<noteq> sINVALID_SOCKET_FD \<Longrightarrow> RecvBuffer_inv (recv_buffer s) \<Longrightarrow> execute_ok s [] True s []"
  by (simp add: execute_ok_def)

lemma RecvJob_Execute_received:
  assumes "RecvBuffer_inv (recv_buffer s)" and "recv_contract (recv_buffer s) answers"
  shows "\<exists>ok s' es. RecvJob_Execute srv s answers = Inr (ok, s', es) \<and> execute_ok s (received_by s answers) ok s' es"
  using assms
proof (induction answers arbitrary: s)
  case Nil
  obtain q s' es where stop: "stop_receiving srv s = (q, s', es)" by (metis prod_cases3)
  with execute_ok_stop[OF stop Nil(1)] execute_ok_stay[OF _ Nil(1)] show ?case
    by (cases "mSessionFD s = sINVALID_SOCKET_FD")
      (auto simp: RecvJob_Execute.simps Session_GetSocketFD_def received_by_def)
next
  case (Cons a rest)
  obtain q s' es where stop: "stop_receiving srv s = (q, s', es)" by (metis prod_cases3)
  note stop_ok = execute_ok_stop[OF stop Cons.prems(1)]
  show ?case
  proof (cases "mSessionFD s = sINVALID_SOCKET_FD")
    case True
    with stop_ok stop show ?thesis by (simp add: RecvJob_Execute.simps Session_GetSocketFD_def received_by_def)
  next
    case fd: False
    show ?thesis
    proof (cases a)
      case (RecvData bs)
      show ?thesis
      proof (cases "bs = []")
        case True
        with RecvData fd stop_ok stop show ?thesis
          by (simp add: RecvJob_Execute.simps Session_GetSocketFD_def received_by_def)
      next
        case False
        from Cons.prems(2) RecvData have "int (length bs) \<le> RecvBuffer_GetDirectWriteSize (recv_buffer s)" by simp
        from recv_store_appends[OF Cons.prems(1) this] obtain b where
          b: "recv_store (recv_buffer s) bs = Inr b" "RecvBuffer_inv b" "mFront b = mFront (recv_buffer s)"
            "mRear b = mRear (recv_buffer s) + int (length bs)"
            "RecvBuffer_contents b = RecvBuffer_contents (recv_buffer s) @ bs" by blast
        have "recv_contract b rest" using Cons.prems(2) RecvData b(1) by simp
        with Cons.IH[of "set_recv_buffer s b"] b(2) obtain ok s1 es1 where
          ih: "RecvJob_Execute srv (set_recv_buffer s b) rest = Inr (ok, s1, es1)"
            "execute_ok (set_recv_buffer s b) (received_by (set_recv_buffer s b) rest) ok s1 es1" by auto
        have "RecvJob_Execute srv s (a # rest) = Inr (ok, s1, es1)"
          using RecvData False fd b(1) ih(1) by (subst RecvJob_Execute.simps) (simp add: Session_GetSocketFD_def)
        moreover have "execute_ok s (received_by s (a # rest)) ok s1 es1"
          using ih(2) b RecvData False fd by (simp add: execute_ok_def received_by_def)
        ultimately show ?thesis by blast
      qed
    next
      case (RecvErr e)
      show ?thesis
      proof (cases "e = EINTR")
        case True
        have "recv_contract (recv_buffer s) rest" using Cons.prems(2) RecvErr by simp
        from Cons.IH[OF Cons.prems(1) this] RecvErr True fd show ?thesis
          by (subst RecvJob_Execute.simps) (simp add: Session_GetSocketFD_def received_by_def)
      next
        case False
        with RecvErr fd stop_ok stop execute_ok_stay[OF fd Cons.prems(1)] show ?thesis
          by (subst RecvJob_Execute.simps) (auto simp: Session_GetSocketFD_def received_by_def)
      qed
    qed
  qed
qed

text \<open>The echo application uses all it is shown, so a delivery from the start of the buffer empties it.\<close>

lemma echo_deliver_calm:
  assumes "RecvJob_deliver (TestServer_OnRecv srv self buffer sends) s = Inr (s', es)"
    and "mFront (recv_buffer s) = 0" and "RecvBuffer_inv (recv_buffer s)"
  shows "calm s'"
proof (cases "mRear (recv_buffer s) = 0")
  case True
  then show ?thesis using assms(1,2) by (simp add: RecvJob_deliver_def RecvBuffer_sizes calm_def)
next
  case False
  then have rear: "0 < mRear (recv_buffer s)" using assms(3) by (simp add: RecvBuffer_inv_def)
  have "recv_buffer s1 = recv_buffer s" if "Session_Send srv self s buffer n sends = (s1, es1)" for s1 es1 n
    using Session_Send_frame[OF that] by (simp add: send_frame_def same_receiver_def)
  moreover have "bytes_at (mBuffer (recv_buffer s)) 0 (mRear (recv_buffer s)) \<noteq> []"
    using rear by (simp add: bytes_at_def)
  ultimately show ?thesis using assms rear
    by (auto simp: RecvJob_deliver_def RecvBuffer_sizes RecvBuffer_ptrs TestServer_OnRecv_def Let_def calm_def
        bindr_Inr_iff RecvBuffer_Reset_def split: if_splits prod.splits)
qed

lemma Complete_buffer:
  assumes "RecvJob_Complete srv self OnRecv s ctlOk = Inr (s', es)" and "RecvJob_deliver OnRecv s = Inr (s1, es1)"
  shows "recv_buffer s' = recv_buffer s1 \<and> consumed f es = consumed f es1"
  using assms
  by (auto simp: RecvJob_Complete_def Let_def Session_Disconnect_def Session_SetReceiveState_def split: if_splits)

lemma echo_run:
  assumes inv: "RecvBuffer_inv (recv_buffer s)" and contract: "recv_contract (recv_buffer s) answers"
    and calm: "mSessionFD s \<noteq> sINVALID_SOCKET_FD \<Longrightarrow> calm s"
  shows "\<exists>s' es. RecvJob_run srv self (TestServer_OnRecv srv self buffer sends) s answers ctlOk = Inr (s', es)
    \<and> RecvBuffer_inv (recv_buffer s') \<and> (mSessionFD s' \<noteq> sINVALID_SOCKET_FD \<longrightarrow> calm s')
    \<and> consumed length es @ RecvBuffer_contents (recv_buffer s') = RecvBuffer_contents (recv_buffer s) @ received_by s answers"
proof -
  obtain ok s1 es1 where x: "RecvJob_Execute srv s answers = Inr (ok, s1, es1)"
      "execute_ok s (received_by s answers) ok s1 es1"
    using RecvJob_Execute_received[OF inv contract] by blast
  show ?thesis
  proof (cases ok)
    case False
    with x show ?thesis by (simp add: RecvJob_run_def execute_ok_def)
  next
    case True
    then have i1: "RecvBuffer_inv (recv_buffer s1)" and f1: "mFront (recv_buffer s1) = 0"
      using x(2) calm by (auto simp: execute_ok_def calm_def)
    obtain s2 es2 where c: "RecvJob_Complete srv self (TestServer_OnRecv srv self buffer sends) s1 ctlOk = Inr (s2, es2)"
        "RecvBuffer_inv (recv_buffer s2)" "consumed length es2 @ RecvBuffer_contents (recv_buffer s2) = RecvBuffer_contents (recv_buffer s1)"
      using echo.complete_spec[OF i1, of srv self srv self buffer sends ctlOk] by blast
    then obtain s3 es3 where d: "RecvJob_deliver (TestServer_OnRecv srv self buffer sends) s1 = Inr (s3, es3)"
      by (auto simp: RecvJob_Complete_def bindr_Inr_iff)
    have "calm s2"
      using echo_deliver_calm[OF d f1 i1] Complete_buffer[OF c(1) d, of length] by (simp add: calm_def)
    with c x True show ?thesis by (auto simp: RecvJob_run_def execute_ok_def)
  qed
qed

section \<open>Histories\<close>

text \<open>The slot of the table that a position refers to.\<close>

definition slot :: "reactor \<Rightarrow> int \<Rightarrow> Session" where
  "slot r k = (case mSessionGroup (rserver r) of Ptr g \<Rightarrow> mSessionVector g ! nat k | _ \<Rightarrow> undefined)"

lemma slot_Ptr [simp]: "mSessionGroup (rserver r) = Ptr g \<Longrightarrow> slot r k = mSessionVector g ! nat k"
  by (simp add: slot_def)

text \<open>What one step delivers to the session at a position, and what the application uses of it.\<close>

fun step_received :: "reactor \<Rightarrow> reactor_event \<Rightarrow> int \<Rightarrow> Byte list" where
  "step_received r (RunRecv w buffer sends answers ctlOk) k =
     (if job_of r w = Some (RecvJobRef k) then received_by (slot r k) answers else [])"
| "step_received r _ k = []"

fun step_used :: "reactor \<Rightarrow> reactor_event \<Rightarrow> int \<Rightarrow> Byte list" where
  "step_used r (RunRecv w buffer sends answers ctlOk) k =
     (if job_of r w = Some (RecvJobRef k)
      then case RecvJob_run (rserver r) k (TestServer_app (rserver r) k buffer sends) (slot r k) answers ctlOk of
             Inl _ \<Rightarrow> [] | Inr (_, es) \<Rightarrow> consumed length es
      else [])"
| "step_used r _ k = []"

text \<open>The kernel stores no more than it is asked to.\<close>

fun kernel_ok :: "reactor \<Rightarrow> reactor_event \<Rightarrow> bool" where
  "kernel_ok r (RunRecv w buffer sends answers ctlOk) =
     (case job_of r w of Some (RecvJobRef k) \<Rightarrow> recv_contract (recv_buffer (slot r k)) answers | _ \<Rightarrow> True)"
| "kernel_ok r _ = True"

text \<open>A run of the echo server with what it delivers and uses, by position.\<close>

inductive echo_run_to ::
  "(Endpoint \<Rightarrow> bool) \<Rightarrow> arr \<Rightarrow> reactor \<Rightarrow> (int \<Rightarrow> Byte list) \<Rightarrow> (int \<Rightarrow> Byte list) \<Rightarrow> reactor \<Rightarrow> bool"
  for OnAccepeted stack r0 where
  start: "echo_run_to OnAccepeted stack r0 (\<lambda>_. []) (\<lambda>_. []) r0"
| step: "echo_run_to OnAccepeted stack r0 R U r \<Longrightarrow> kernel_ok r e \<Longrightarrow>
    reactor_exec OnAccepeted TestServer_OnConnected TestServer_app stack r e = Some (Inr r') \<Longrightarrow>
    echo_run_to OnAccepeted stack r0 (\<lambda>k. R k @ step_received r e k) (\<lambda>k. U k @ step_used r e k) r'"

lemma echo_run_to_reachable:
  "echo_run_to OnAccepeted stack r0 R U r \<Longrightarrow> reactor_reachable OnAccepeted TestServer_OnConnected TestServer_app stack r0 r"
  by (induction rule: echo_run_to.induct) (auto intro: reactor_reachable.intros)

section \<open>The slots\<close>

text \<open>
  Of every slot: its buffer is well formed, what has been used and what is buffered is what was
  delivered, and the buffer is at its start, unless the slot's session has lost its descriptor.
\<close>

definition slot_ok :: "bool \<Rightarrow> Byte list \<Rightarrow> Byte list \<Rightarrow> Session \<Rightarrow> bool" where
  "slot_ok live R U s \<longleftrightarrow> RecvBuffer_inv (recv_buffer s) \<and> U @ RecvBuffer_contents (recv_buffer s) = R
     \<and> (calm s \<or> live \<and> mSessionFD s = sINVALID_SOCKET_FD)"

definition slots_ok :: "SessionGroup \<Rightarrow> SessionID list \<Rightarrow> (int \<Rightarrow> Byte list) \<Rightarrow> (int \<Rightarrow> Byte list) \<Rightarrow> bool" where
  "slots_ok g ids R U \<longleftrightarrow>
     (\<forall>k. 0 \<le> k \<longrightarrow> k < int (length (mSessionVector g)) \<longrightarrow>
        slot_ok (k \<in> GetIndex ` set ids) (R k) (U k) (mSessionVector g ! nat k))"

lemma slots_ok_set_session:
  assumes "slots_ok g ids R U" and "0 \<le> j" and "slot_ok (j \<in> GetIndex ` set ids) (R' j) (U' j) s'"
    and "\<And>k. k \<noteq> j \<Longrightarrow> R' k = R k \<and> U' k = U k"
  shows "slots_ok (set_session g j s') ids R' U'"
  unfolding slots_ok_def
proof (intro allI impI)
  fix k assume k: "0 \<le> k" "k < int (length (mSessionVector (set_session g j s')))"
  show "slot_ok (k \<in> GetIndex ` set ids) (R' k) (U' k) (mSessionVector (set_session g j s') ! nat k)"
  proof (cases "k = j")
    case True
    with assms(3) k show ?thesis by (simp add: set_session_def)
  next
    case False
    then have "nat j \<noteq> nat k" using k(1) assms(2) by auto
    with False assms(1,4) k show ?thesis by (simp add: set_session_def slots_ok_def)
  qed
qed

text \<open>Accepting constructs sessions in slots, which leaves the bytes of the buffers alone.\<close>

definition same_buffers :: "SessionGroup \<Rightarrow> SessionGroup \<Rightarrow> bool" where
  "same_buffers g g' \<longleftrightarrow> length (mSessionVector g') = length (mSessionVector g)
     \<and> (\<forall>k<length (mSessionVector g). recv_buffer (mSessionVector g' ! k) = recv_buffer (mSessionVector g ! k))"

lemma Server_AddSession_buffers:
  assumes "Server_AddSession srv fd = Inr (i, srv')" and "mSessionGroup srv = Ptr g"
  shows "\<exists>g'. mSessionGroup srv' = Ptr g' \<and> same_buffers g g'"
  using assms
  by (auto simp: Server_AddSession_def SessionGroup_AddSession_def SessionGroup_AllocSession_def Let_def bindr_Inr_iff
      session_at_def same_buffers_def Session_ctor_def RecvJob_ctor_def RecvBuffer_ctor_def nth_list_update
      split: list.splits if_splits)

lemma accept_one_buffers:
  assumes "accept_one TestServer_OnConnected epollFD srv fd = Inr (srv', es)" and "mSessionGroup srv = Ptr g"
  shows "\<exists>g'. mSessionGroup srv' = Ptr g' \<and> same_buffers g g'"
  using assms Server_AddSession_buffers[OF _ assms(2)]
  by (fastforce simp: accept_one_def TestServer_OnConnected_def bindr_Inr_iff split: option.splits)

lemma accept_loop_buffers:
  assumes "accept_loop OnAccepeted TestServer_OnConnected epollFD stack srv answers = Inr (srv', es)"
    and "mSessionGroup srv = Ptr g"
  shows "\<exists>g'. mSessionGroup srv' = Ptr g' \<and> same_buffers g g'"
  using assms
proof (induction OnAccepeted stack answers arbitrary: srv g es rule: handled.induct)
  case (3 OnAccepeted stack fd addr rest)
  show ?case
  proof (cases "OnAccepeted (Endpoint_of_sockaddr stack addr)")
    case False
    with 3 show ?thesis by (auto simp: bindr_Inr_iff)
  next
    case True
    with "3.prems"(1) obtain srv1 es1 es2 where one: "accept_one TestServer_OnConnected epollFD srv fd = Inr (srv1, es1)"
        "accept_loop OnAccepeted TestServer_OnConnected epollFD stack srv1 rest = Inr (srv', es2)"
      by (auto simp: bindr_Inr_iff)
    from accept_one_buffers[OF one(1) "3.prems"(2)] obtain g1 where g1: "mSessionGroup srv1 = Ptr g1" "same_buffers g g1" by blast
    from "3.IH"[OF one(2) g1(1)] g1(2) show ?thesis by (auto simp: same_buffers_def)
  qed
qed (auto simp: same_buffers_def split: if_splits)

lemma slots_accept:
  assumes "table_inv g M" and "dom M = set ids" and "mSessionGroup srv = Ptr g" and "slots_ok g ids R U"
    and "accept_loop OnAccepeted TestServer_OnConnected epollFD stack srv answers = Inr (srv', es)"
  shows "\<exists>g'. mSessionGroup srv' = Ptr g' \<and> slots_ok g' (ids @ connected_ids es) R U"
proof -
  note room = quiet.accept_loop_room[OF assms(3,1,5)]
  obtain g' M' cs where
    loop: "accept_loop OnAccepeted TestServer_OnConnected epollFD stack srv answers
        = Inr (srv\<lparr>mSessionGroup := Ptr g'\<rparr>, concat (map (accept_log epollFD (mSendPollFD srv)) cs))"
    and r: "table_inv g' M'" "dom M' = dom M \<union> set (List.map_filter snd cs)" "\<forall>j\<in>dom M. the (M j) = the (M' j)"
    using quiet.accept_loop_spec[OF assms(3,1) room, of epollFD] by blast
  have srv': "srv' = srv\<lparr>mSessionGroup := Ptr g'\<rparr>" using assms(5) loop by simp
  then have same: "same_buffers g g'" using accept_loop_buffers[OF assms(5,3)] by simp
  have "slot_ok (k \<in> GetIndex ` set (ids @ connected_ids es)) (R k) (U k) (mSessionVector g' ! nat k)"
    if k: "0 \<le> k" "k < int (length (mSessionVector g'))" for k
  proof -
    from k same assms(4) have old: "slot_ok (k \<in> GetIndex ` set ids) (R k) (U k) (mSessionVector g ! nat k)"
      by (simp add: slots_ok_def same_buffers_def)
    show ?thesis
    proof (cases "k \<in> GetIndex ` set ids")
      case True
      then obtain i x where i: "k = GetIndex i" "M i = Some x" "i \<in> dom M" using assms(2) by blast
      then have "i \<in> dom M'" "the (M' i) = x" using r(2) bspec[OF r(3) i(3)] by auto
      then have "M' i = Some x" by auto
      with i table_inv_live(4)[OF assms(1) i(2)] table_inv_live(4)[OF r(1)] have "mSessionVector g' ! nat k = mSessionVector g ! nat k"
        by simp
      with old True show ?thesis by (simp add: image_Un)
    next
      case False
      have "recv_buffer (mSessionVector g' ! nat k) = recv_buffer (mSessionVector g ! nat k)"
        using same k by (simp add: same_buffers_def)
      with old False show ?thesis by (simp add: slot_ok_def calm_def)
    qed
  qed
  then show ?thesis using srv' by (simp add: slots_ok_def)
qed

lemma slots_recv:
  assumes inv: "reactor_inv r" and g: "mSessionGroup (rserver r) = Ptr g" and ok: "slots_ok g (issued r) R U"
    and kernel: "kernel_ok r (RunRecv w buffer sends answers ctlOk)" and job: "job_of r w = Some (RecvJobRef k)"
  shows "\<exists>s' es. bindr (session_at g k) (\<lambda>s. RecvJob_run (rserver r) k (TestServer_app (rserver r) k buffer sends) s answers ctlOk) = Inr (s', es)
    \<and> session_at g k = Inr (slot r k)
    \<and> slots_ok (set_session g k s') (issued r)
        (\<lambda>j. R j @ step_received r (RunRecv w buffer sends answers ctlOk) j)
        (\<lambda>j. U j @ step_used r (RunRecv w buffer sends answers ctlOk) j)"
proof -
  obtain p M where i: "mWorkerThreadPool (rserver r) = Ptr p" "table_inv g M" "dom M = set (issued r)"
      "core_inv (mListenFD (rserver r)) (session_fds g (issued r)) (interest r) (mJobQueue p) (running r)"
    using reactor_invE[OF inv] g by (metis ptr.inject)
  have w: "w < length (running r)" "running r ! w = Some (RecvJobRef k)" using job by (auto simp: job_of_def split: if_splits)
  have "places (mJobQueue p) (running r) (interest r) (RecvJobRef k) \<noteq> 0"
    using w by (auto simp: places_def count_list_0_iff in_set_conv_nth)
  then obtain fd where "session_fds g (issued r) k = Some fd"
    using count_okD(1)[OF conjunct2[OF i(4)[unfolded core_inv_def]], of k] by fastforce
  then obtain i0 s where s: "M i0 = Some s" "i0 \<in> set (issued r)" "GetIndex i0 = k"
    using session_fds_Some[OF i(2)] i(3) by blast
  note live = table_inv_live[OF i(2) s(1), unfolded s(3)]
  have slot: "slot r k = s" "session_at g k = Inr s" using g live(4) table_get(2)[OF i(2) s(1)] s(3) by simp_all
  have k: "k \<in> GetIndex ` set (issued r)" using s by blast
  have sok: "slot_ok True (R k) (U k) s" using ok live(1,2,4) k by (auto simp: slots_ok_def)
  then have pre: "RecvBuffer_inv (recv_buffer s)" "mSessionFD s \<noteq> sINVALID_SOCKET_FD \<Longrightarrow> calm s" by (auto simp: slot_ok_def)
  have "recv_contract (recv_buffer s) answers" using kernel job slot by simp
  from echo_run[OF pre(1) this pre(2), of "rserver r" k buffer sends ctlOk] obtain s' es where
    run: "RecvJob_run (rserver r) k (TestServer_app (rserver r) k buffer sends) s answers ctlOk = Inr (s', es)"
      "RecvBuffer_inv (recv_buffer s')" "mSessionFD s' \<noteq> sINVALID_SOCKET_FD \<longrightarrow> calm s'"
      "consumed length es @ RecvBuffer_contents (recv_buffer s') = RecvBuffer_contents (recv_buffer s) @ received_by s answers"
    unfolding TestServer_app_def by blast
  have "slot_ok True (R k @ received_by s answers) (U k @ consumed length es) s'"
    using run(2-4) sok by (auto simp: slot_ok_def)
  then have "slots_ok (set_session g k s') (issued r)
        (\<lambda>j. R j @ step_received r (RunRecv w buffer sends answers ctlOk) j)
        (\<lambda>j. U j @ step_used r (RunRecv w buffer sends answers ctlOk) j)"
    using job slot(1) run(1) k by (intro slots_ok_set_session[OF ok live(1)]) auto
  with run(1) slot show ?thesis by auto
qed

lemma slots_send:
  assumes inv: "reactor_inv r" and g: "mSessionGroup (rserver r) = Ptr g" and ok: "slots_ok g (issued r) R U"
    and i0: "i0 \<in> set (issued r)"
  shows "\<exists>g' es. Server_Send (rserver r) i0 buffer sz answers = Inr ((rserver r)\<lparr>mSessionGroup := Ptr g'\<rparr>, es) \<and> slots_ok g' (issued r) R U"
proof -
  obtain M where i: "table_inv g M" "dom M = set (issued r)" "mSendPollFD (rserver r) \<noteq> mEpollFD (rserver r)"
    using reactor_invE[OF inv] g by (metis ptr.inject)
  then obtain s where s: "M i0 = Some s" using i0 by blast
  note live = table_inv_live[OF i(1) s]
  obtain s' es where send: "Session_Send (rserver r) (GetIndex i0) s buffer sz answers = (s', es)" by fastforce
  have "slot_ok True (R (GetIndex i0)) (U (GetIndex i0)) s" using ok live(1,2,4) i0 by (auto simp: slots_ok_def)
  moreover have "mSessionFD s' = mSessionFD s \<or> mSessionFD s' = sINVALID_SOCKET_FD"
    using Session_Send_releases[OF i(3) send] by (auto simp: releases_def)
  moreover have "recv_buffer s' = recv_buffer s"
    using Session_Send_frame[OF send] by (simp add: send_frame_def same_receiver_def)
  ultimately have "slot_ok True (R (GetIndex i0)) (U (GetIndex i0)) s'" by (auto simp: slot_ok_def calm_def)
  then have "slots_ok (set_session g (GetIndex i0) s') (issued r) R U"
    using i0 by (intro slots_ok_set_session[OF ok live(1)]) auto
  moreover have "Server_Send (rserver r) i0 buffer sz answers
      = Inr ((rserver r)\<lparr>mSessionGroup := Ptr (set_session g (GetIndex i0) s')\<rparr>, es)"
    using g table_get[OF i(1) s] send by (simp add: Server_Send_def)
  ultimately show ?thesis by blast
qed

lemma slots_step:
  assumes inv: "reactor_inv r" and g: "mSessionGroup (rserver r) = Ptr g" and ok: "slots_ok g (issued r) R U"
    and kernel: "kernel_ok r e"
    and exec: "reactor_exec OnAccepeted TestServer_OnConnected TestServer_app stack r e = Some (Inr r')"
  shows "\<exists>g'. mSessionGroup (rserver r') = Ptr g'
    \<and> slots_ok g' (issued r') (\<lambda>k. R k @ step_received r e k) (\<lambda>k. U k @ step_used r e k)"
proof -
  obtain p M where i: "mWorkerThreadPool (rserver r) = Ptr p" "table_inv g M" "dom M = set (issued r)"
    using reactor_invE[OF inv] g by (metis ptr.inject)
  show ?thesis
  proof (cases e)
    case (TakeJob w)
    with exec i(1) g ok show ?thesis by (auto simp: WorkerThreadPool_PopJob_def split: if_splits list.splits)
  next
    case (RunPoll w fds)
    with exec PollJob_Execute_Ptr[OF i(1)] g ok show ?thesis by (auto simp: job_done_def split: if_splits)
  next
    case (PollError w err)
    with exec PollJob_Execute_Ptr[OF i(1)] g ok show ?thesis by (auto simp: job_done_def split: if_splits)
  next
    case (RunAccept w answers)
    with exec obtain srv' es where
      a: "accept_loop OnAccepeted TestServer_OnConnected (mEpollFD (rserver r)) stack (rserver r) answers = Inr (srv', es)"
        "rserver r' = srv'" "issued r' = issued r @ connected_ids es"
      by (auto simp: AcceptJob_Execute_def bindr_Inr_iff Server_GetEpollFD_def job_done_def Let_def split: if_splits)
    from slots_accept[OF i(2,3) g ok a(1)] a(2,3) RunAccept show ?thesis by simp
  next
    case (RunRecv w buffer sends answers ctlOk)
    from exec RunRecv obtain k where k: "job_of r w = Some (RecvJobRef k)" by (auto split: option.splits job_ref.splits)
    obtain s' es where run: "bindr (session_at g k) (\<lambda>s. RecvJob_run (rserver r) k (TestServer_app (rserver r) k buffer sends) s answers ctlOk) = Inr (s', es)"
        "session_at g k = Inr (slot r k)" "slots_ok (set_session g k s') (issued r)
        (\<lambda>j. R j @ step_received r e j) (\<lambda>j. U j @ step_used r e j)"
      using slots_recv[OF inv g ok kernel[unfolded RunRecv] k] RunRecv by metis
    then have "rserver r' = (rserver r)\<lparr>mSessionGroup := Ptr (set_session g k s')\<rparr> \<and> issued r' = issued r"
      using exec RunRecv k g by (auto simp: Let_def job_done_def split: if_splits)
    with run(3) show ?thesis by simp
  next
    case (AppSend i0 buffer sz answers)
    then have "i0 \<in> set (issued r)" using exec by (auto split: if_splits)
    from slots_send[OF inv g ok this, of buffer sz answers] exec AppSend this show ?thesis by auto
  qed
qed

text \<open>A run from a start with empty slots keeps all slots in order.\<close>

definition fresh_slots :: "reactor \<Rightarrow> bool" where
  "fresh_slots r \<longleftrightarrow> (case mSessionGroup (rserver r) of Ptr g \<Rightarrow> (\<forall>s\<in>set (mSessionVector g). calm s) | _ \<Rightarrow> False)"

lemma echo_run_to_slots:
  assumes "echo_run_to OnAccepeted stack r0 R U r" and "echo_start r0" and "fresh_slots r0"
  shows "reactor_inv r \<and> (\<exists>g. mSessionGroup (rserver r) = Ptr g \<and> slots_ok g (issued r) R U)"
  using assms(1)
proof (induction rule: echo_run_to.induct)
  case start
  from assms(3) obtain g where g: "mSessionGroup (rserver r0) = Ptr g" "\<forall>s\<in>set (mSessionVector g). calm s"
    by (auto simp: fresh_slots_def split: ptr.splits)
  have "slot_ok live [] [] s" if "calm s" for s live
    using that calm_contents[OF that] by (simp add: slot_ok_def calm_def RecvBuffer_inv_def BUFFER_SIZE_def)
  then have "slots_ok g (issued r0) (\<lambda>_. []) (\<lambda>_. [])" using g(2) by (simp add: slots_ok_def)
  with g(1) echo_start_inv(1)[OF assms(2)] show ?case by blast
next
  case (step R U r e r')
  then show ?case using slots_step[of r _ R U e OnAccepeted stack r'] echo_reactor.reactor_step by blast
qed

section \<open>Properties\<close>



section \<open>A run with data\<close>

text \<open>The client of \<open>events_ex\<close> sends three bytes, which the server writes back.\<close>

lemma echo_run_quiet:
  "reactor_run OnAccepeted TestServer_OnConnected TestServer_app stack r events = Some r' \<Longrightarrow>
    list_all (\<lambda>e. case e of RunRecv _ _ _ _ _ \<Rightarrow> False | _ \<Rightarrow> True) events \<Longrightarrow>
    echo_run_to OnAccepeted stack r0 R U r \<Longrightarrow> echo_run_to OnAccepeted stack r0 R U r'"
proof (induction events arbitrary: r)
  case (Cons e events)
  then obtain r1 where e: "reactor_exec OnAccepeted TestServer_OnConnected TestServer_app stack r e = Some (Inr r1)"
      "reactor_run OnAccepeted TestServer_OnConnected TestServer_app stack r1 events = Some r'"
    by (auto split: option.splits sum.splits)
  have "kernel_ok r e \<and> step_received r e = (\<lambda>k. []) \<and> step_used r e = (\<lambda>k. [])"
    using Cons.prems(2) by (cases e) (simp_all add: fun_eq_iff)
  with echo_run_to.step[OF Cons.prems(3) _ e(1)] have "echo_run_to OnAccepeted stack r0 R U r1" by simp
  with Cons e show ?case by simp
qed simp

definition slot_ex :: Session where
  "slot_ex = Session_ctor (Session_default_ctor session_ex) (make_session_id 0 0) 8"

lemma slot_ex_run:
  "\<exists>s' es. RecvJob_run srv 0 (TestServer_app srv 0 4096 [WriteDone 3]) slot_ex [RecvData [1, 2, 3]] True = Inr (s', es)
    \<and> mSessionFD s' = 8 \<and> Writev 8 [\<lparr>iov_base = 4096, iov_len = 3\<rparr>] \<in> set es
    \<and> (mEpollFD srv = 4 \<longrightarrow> mSendPollFD srv = 5 \<longrightarrow> I 8 \<noteq> None \<longrightarrow> epoll_log 4 es I 8 \<noteq> None)"
  by (simp add: TestServer_app_def RecvJob_run_def RecvJob_Execute.simps slot_ex_def Session_ctor_def Session_default_ctor_def
      session_ex_def RecvJob_ctor_def RecvBuffer_ctor_def Session_GetSocketFD_def sINVALID_SOCKET_FD_def recv_store_def
      RecvBuffer_eval RecvBuffer_ptrs RecvBuffer_MoveWriteOffset_def RecvBuffer_MoveReadOffset_def RecvBuffer_Reset_def
      Session_Send_def Session_DoSend_def writev_loop.simps after_writev_def numeral_3_eq_3 RecvJob_Complete_def
      RecvJob_deliver_def TestServer_OnRecv_def Session_GetRecvJob_def Server_GetEpollFD_def Session_GetSessionID_def
      set_recv_buffer_def Let_def send_event_def Server_GetSendPollFD_def)

lemma slot_ex_contract: "recv_contract (recv_buffer slot_ex) [RecvData [1, 2, 3]]"
  by (simp add: slot_ex_def Session_ctor_def Session_default_ctor_def session_ex_def RecvJob_ctor_def RecvBuffer_ctor_def
      RecvBuffer_sizes BUFFER_SIZE_def split: sum.split)

lemma echo_run_ex:
  obtains R U r where "echo_run_to (\<lambda>_. True) (\<lambda>_. 0) reactor_ex R U r"
    and "issued r = [make_session_id 0 0]" and "R 0 = [1, 2, 3]"
proof -
  obtain r g where r: "reactor_run (\<lambda>_. True) TestServer_OnConnected TestServer_app (\<lambda>_. 0) reactor_ex events_ex = Some r"
      "issued r = [make_session_id 0 0]" "running r = [Some (RecvJobRef 0), None]" "mEpollFD (rserver r) = 4"
      "mSendPollFD (rserver r) = 5" "interest r 8 \<noteq> None" "mSessionGroup (rserver r) = Ptr g" "session_at g 0 = Inr slot_ex"
    using reactor_ex_run unfolding slot_ex_def by blast
  have run: "echo_run_to (\<lambda>_. True) (\<lambda>_. 0) reactor_ex (\<lambda>_. []) (\<lambda>_. []) r"
    by (rule echo_run_quiet[OF r(1) _ echo_run_to.start]) (simp add: events_ex_def)
  let ?e = "RunRecv 0 4096 [WriteDone 3] [RecvData [1, 2, 3]] True"
  have job: "job_of r 0 = Some (RecvJobRef 0)" using r(3) by (simp add: job_of_def)
  have slot: "slot r 0 = slot_ex" using r(7,8) by (auto simp: session_at_def split: if_splits)
  obtain s' es where x: "RecvJob_run (rserver r) 0 (TestServer_app (rserver r) 0 4096 [WriteDone 3]) slot_ex [RecvData [1, 2, 3]] True = Inr (s', es)"
      "mSessionFD s' = 8" "epoll_log 4 es (interest r) 8 \<noteq> None"
    using slot_ex_run[of "rserver r" "interest r"] r(4-6) by blast
  obtain r' where step: "reactor_exec (\<lambda>_. True) TestServer_OnConnected TestServer_app (\<lambda>_. 0) r ?e = Some (Inr r')" "issued r' = issued r"
    using job r(4,7,8) x by (simp add: Let_def job_done_def)
  have "kernel_ok r ?e" using job slot slot_ex_contract by simp
  moreover have "step_received r ?e 0 = [1, 2, 3]"
    using job slot by (simp add: received_by_def slot_ex_def sINVALID_SOCKET_FD_def)
  ultimately show ?thesis using that[OF echo_run_to.step[OF run _ step(1)]] step(2) r(2) by simp
qed

lemma fresh_slots_ex: "fresh_slots reactor_ex"
  by (simp add: fresh_slots_def reactor_ex_def reactor_start_def started_ex_def SessionGroup_ctor_def calm_def
      Session_default_ctor_def session_ex_def RecvJob_ctor_def RecvBuffer_ctor_def)



end
