(* ===== verification/Disconnect_Race.thy ===== *)
theory Disconnect_Race
  imports Recv_Job
begin

text \<open>
  Two threads in \<^verbatim>\<open>Session::Disconnect\<close> (\<^verbatim>\<open>src/src/lib-core/src/Network/Session.cpp\<close>): the worker that
  runs the receive job, which has cleared \<^verbatim>\<open>mIsRecving\<close>, and a thread that sends, which has cleared
  \<^verbatim>\<open>mIsSending\<close>. Each goes through the accesses of the function to shared memory one at a time; the
  exchange of the descriptor is the only atomic read and write. Interleavings are sequentially
  consistent.
\<close>

section \<open>The steps\<close>

datatype side = Receiver | Sender

datatype disconnect_pc = PFlag | PExchange | PClose SocketFD | PCheckRecving | PCheckSending | PDone

record race =
  race_session :: Session
  race_pc :: "side \<Rightarrow> disconnect_pc"
  race_log :: "effect list"

definition goto :: "race \<Rightarrow> side \<Rightarrow> disconnect_pc \<Rightarrow> race" where
  "goto r t p = r\<lparr>race_pc := (race_pc r)(t := p)\<rparr>"

definition clear_flag :: "side \<Rightarrow> Session \<Rightarrow> Session" where
  "clear_flag t s = (case t of Receiver \<Rightarrow> Session_SetReceiveState s False | Sender \<Rightarrow> Session_SetSendState s False)"

text \<open>One access of thread \<open>t\<close>; \<open>None\<close> when it has returned.\<close>

fun race_exec :: "'a ServerFds_scheme \<Rightarrow> race \<Rightarrow> side \<Rightarrow> race option" where
  "race_exec srv r t =
     (let s = race_session r in
      case race_pc r t of
        PFlag \<Rightarrow> Some (goto (r\<lparr>race_session := clear_flag t s\<rparr>) t PExchange)
      | PExchange \<Rightarrow>
          Some (goto (r\<lparr>race_session := s\<lparr>mSessionFD := sINVALID_SOCKET_FD\<rparr>\<rparr>) t
                  (if mSessionFD s = sINVALID_SOCKET_FD then PCheckRecving else PClose (mSessionFD s)))
      | PClose oldFD \<Rightarrow>
          Some (goto (r\<lparr>race_log := race_log r @
                  [EpollCtl (Server_GetEpollFD srv) EPOLL_CTL_DEL oldFD None, CloseFD oldFD]\<rparr>) t PCheckRecving)
      | PCheckRecving \<Rightarrow> Some (goto r t (if mIsRecving s then PDone else PCheckSending))
      | PCheckSending \<Rightarrow>
          (if mIsSending s then Some (goto r t PDone)
           else Some (goto (r\<lparr>race_log := race_log r @ [CallOnDisconnected (mSessionID s)]\<rparr>) t PDone))
      | PDone \<Rightarrow> None)"

fun race_schedule :: "'a ServerFds_scheme \<Rightarrow> race \<Rightarrow> side list \<Rightarrow> race option" where
  "race_schedule srv r [] = Some r"
| "race_schedule srv r (t # ts) =
     (case race_exec srv r t of None \<Rightarrow> None | Some r' \<Rightarrow> race_schedule srv r' ts)"

text \<open>Both threads are about to clear their flag, in a session that receives and sends.\<close>

definition race_init :: "Session \<Rightarrow> race" where
  "race_init s = \<lparr>race_session = s, race_pc = (\<lambda>_. PFlag), race_log = []\<rparr>"

inductive race_reachable :: "'a ServerFds_scheme \<Rightarrow> Session \<Rightarrow> race \<Rightarrow> bool" for srv s0 where
  init: "race_reachable srv s0 (race_init s0)"
| step: "race_reachable srv s0 r \<Longrightarrow> race_exec srv r t = Some r' \<Longrightarrow> race_reachable srv s0 r'"

section \<open>Invariants\<close>

definition calls :: "SessionID \<Rightarrow> effect list \<Rightarrow> nat" where
  "calls i es = count_list es (CallOnDisconnected i)"

lemma calls_simps [simp]:
  "calls i [] = 0"
  "calls i (e # es) = (if e = CallOnDisconnected i then Suc (calls i es) else calls i es)"
  "calls i (es @ es') = calls i es + calls i es'"
  by (simp_all add: calls_def)

text \<open>The flags follow the program counters and the identity of the session does not change.\<close>

definition flags_inv :: "Session \<Rightarrow> race \<Rightarrow> bool" where
  "flags_inv s0 r \<longleftrightarrow> mSessionID (race_session r) = mSessionID s0
     \<and> mIsRecving (race_session r) = (race_pc r Receiver = PFlag)
     \<and> mIsSending (race_session r) = (race_pc r Sender = PFlag)"

text \<open>The descriptor is in the session, in the hands of one thread, or closed: one of the three.\<close>

definition fd_place :: "SocketFD \<Rightarrow> race \<Rightarrow> nat" where
  "fd_place fd r = of_bool (mSessionFD (race_session r) = fd) + of_bool (race_pc r Receiver = PClose fd)
     + of_bool (race_pc r Sender = PClose fd) + closes fd (race_log r)"

definition holds_only :: "SocketFD \<Rightarrow> disconnect_pc \<Rightarrow> bool" where
  "holds_only fd p \<longleftrightarrow> (case p of PClose k \<Rightarrow> k = fd | _ \<Rightarrow> True)"

definition owner_inv :: "Session \<Rightarrow> race \<Rightarrow> bool" where
  "owner_inv s0 r \<longleftrightarrow> fd_place (mSessionFD s0) r = 1
     \<and> mSessionFD (race_session r) \<in> {mSessionFD s0, sINVALID_SOCKET_FD}
     \<and> holds_only (mSessionFD s0) (race_pc r Receiver) \<and> holds_only (mSessionFD s0) (race_pc r Sender)
     \<and> (race_pc r Receiver \<notin> {PFlag, PExchange} \<or> race_pc r Sender \<notin> {PFlag, PExchange}
          \<longrightarrow> mSessionFD (race_session r) = sINVALID_SOCKET_FD)
     \<and> (\<forall>k. k \<noteq> mSessionFD s0 \<longrightarrow> closes k (race_log r) = 0)"

text \<open>
  The callback: it is made only when both flags are clear, at most once by each thread that has
  returned, and at the latest by the second thread to return.
\<close>

definition call_inv :: "Session \<Rightarrow> race \<Rightarrow> bool" where
  "call_inv s0 r \<longleftrightarrow>
     calls (mSessionID s0) (race_log r) \<le> of_bool (race_pc r Receiver = PDone) + of_bool (race_pc r Sender = PDone)
     \<and> (race_pc r Receiver = PDone \<and> race_pc r Sender = PDone \<longrightarrow> 0 < calls (mSessionID s0) (race_log r))
     \<and> (race_pc r Sender = PCheckSending \<longrightarrow> race_pc r Receiver \<noteq> PFlag)
     \<and> (race_pc r Receiver = PFlag \<or> race_pc r Sender = PFlag \<longrightarrow> calls (mSessionID s0) (race_log r) = 0)"

lemmas race_defs = goto_def clear_flag_def Session_SetReceiveState_def Session_SetSendState_def Let_def

lemma race_exec_flags:
  assumes "race_exec srv r t = Some r'" and "flags_inv s0 r"
  shows "flags_inv s0 r'"
  using assms
  by (cases t) (auto simp: flags_inv_def race_defs split: disconnect_pc.splits if_splits)

lemma race_exec_pcs:
  assumes "race_exec srv r t = Some r'"
  obtains (Flag) "race_pc r t = PFlag" "r' = goto (r\<lparr>race_session := clear_flag t (race_session r)\<rparr>) t PExchange"
  | (Exchange) "race_pc r t = PExchange"
     "r' = goto (r\<lparr>race_session := (race_session r)\<lparr>mSessionFD := sINVALID_SOCKET_FD\<rparr>\<rparr>) t
                  (if mSessionFD (race_session r) = sINVALID_SOCKET_FD then PCheckRecving else PClose (mSessionFD (race_session r)))"
  | (Close) fd where "race_pc r t = PClose fd"
     "r' = goto (r\<lparr>race_log := race_log r @ [EpollCtl (Server_GetEpollFD srv) EPOLL_CTL_DEL fd None, CloseFD fd]\<rparr>) t PCheckRecving"
  | (Check) p es where "race_pc r t \<in> {PCheckRecving, PCheckSending}" "p \<in> {PCheckSending, PDone}"
     "\<forall>k. closes k es = 0" "r' = goto (r\<lparr>race_log := race_log r @ es\<rparr>) t p"
proof (cases "race_pc r t")
  case PCheckRecving
  with assms show ?thesis
    by (intro that(4)[of "if mIsRecving (race_session r) then PDone else PCheckSending" "[]"]) (auto simp: Let_def)
next
  case PCheckSending
  with assms show ?thesis
    by (intro that(4)[of PDone "if mIsSending (race_session r) then [] else [CallOnDisconnected (mSessionID (race_session r))]"])
     (auto simp: Let_def)
qed (use assms that in \<open>auto simp: Let_def\<close>)


lemma race_exec_owner:
  assumes "race_exec srv r t = Some r'" and "owner_inv s0 r" and "mSessionFD s0 \<noteq> sINVALID_SOCKET_FD"
  shows "owner_inv s0 r'"
  using assms(1)
proof (cases rule: race_exec_pcs)
  case Flag
  then show ?thesis using assms(2,3)
    by (cases t) (simp_all add: owner_inv_def fd_place_def holds_only_def race_defs)
next
  case Exchange
  show ?thesis
  proof (cases "mSessionFD (race_session r) = sINVALID_SOCKET_FD")
    case True
    with Exchange assms(2,3) show ?thesis
      by (cases t) (simp_all add: owner_inv_def fd_place_def holds_only_def goto_def)
  next
    case False
    with Exchange assms(2,3) show ?thesis
      by (cases t) (auto simp: owner_inv_def fd_place_def holds_only_def goto_def)
  qed
next
  case (Close fd)
  then have "fd = mSessionFD s0" "mSessionFD (race_session r) = sINVALID_SOCKET_FD"
    using assms(2) by (cases t; simp add: owner_inv_def holds_only_def)+
  with Close assms(2,3) show ?thesis
    by (cases t) (auto simp: owner_inv_def fd_place_def holds_only_def goto_def)
next
  case (Check p es)
  then have "race_pc r t = PCheckRecving \<or> race_pc r t = PCheckSending" and "p = PCheckSending \<or> p = PDone"
    by auto
  with Check(3,4) assms(2,3) show ?thesis
    by (cases t; elim disjE; clarsimp simp: owner_inv_def fd_place_def holds_only_def goto_def)
qed

lemma race_exec_calls:
  assumes "race_exec srv r t = Some r'" and "call_inv s0 r" and "flags_inv s0 r"
  shows "call_inv s0 r'"
  using assms
  by (cases t) (auto simp: call_inv_def flags_inv_def  race_defs split: disconnect_pc.splits if_splits)

lemma race_invs:
  assumes "race_reachable srv s0 r" and "mIsRecving s0" and "mIsSending s0"
    and "mSessionFD s0 \<noteq> sINVALID_SOCKET_FD"
  shows "flags_inv s0 r \<and> owner_inv s0 r \<and> call_inv s0 r"
  using assms
proof (induction rule: race_reachable.induct)
  case init
  then show ?case
    by (auto simp: race_init_def flags_inv_def owner_inv_def fd_place_def holds_only_def call_inv_def)
next
  case (step r t r')
  then show ?case
    by (blast intro: race_exec_flags race_exec_owner race_exec_calls)
qed

text \<open>A thread can always take its next step until it has returned.\<close>

lemma race_exec_None: "race_exec srv r t = None \<longleftrightarrow> race_pc r t = PDone"
  by (auto simp: Let_def split: disconnect_pc.splits)

lemma race_reachable_schedule:
  "race_reachable srv s0 r \<Longrightarrow> race_schedule srv r ts = Some r' \<Longrightarrow> race_reachable srv s0 r'"
  by (induction ts arbitrary: r) (auto simp del: race_exec.simps split: option.splits intro: race_reachable.step)

section \<open>Properties\<close>

text \<open>
  C13. A session that is disconnected from both sides at once: in every interleaving of the two
  threads the descriptor is closed at most once and no other descriptor is closed; the application
  is not told of the disconnection while one side is still active; and when both threads have
  returned, the descriptor is closed exactly once, the session holds the invalid descriptor, and
  the application has been told, at least once and at most twice.
\<close>

theorem Disconnect_race_outcome:
  assumes "race_reachable srv s0 r" and "mIsRecving s0" and "mIsSending s0"
    and "mSessionFD s0 \<noteq> sINVALID_SOCKET_FD"
  shows "closes k (race_log r) \<le> (if k = mSessionFD s0 then 1 else 0)
    \<and> (race_pc r Receiver = PFlag \<or> race_pc r Sender = PFlag \<longrightarrow> calls (mSessionID s0) (race_log r) = 0)
    \<and> (race_pc r Receiver = PDone \<and> race_pc r Sender = PDone \<longrightarrow>
         closes (mSessionFD s0) (race_log r) = 1 \<and> mSessionFD (race_session r) = sINVALID_SOCKET_FD
         \<and> calls (mSessionID s0) (race_log r) \<in> {1, 2})"
  using race_invs[OF assms] assms(4)
  by (auto simp: owner_inv_def fd_place_def call_inv_def)

definition both_ex :: "side list" where
  "both_ex = [Receiver, Sender, Receiver, Sender, Receiver, Receiver, Receiver, Sender, Sender]"

theorem Disconnect_race_outcome_witness:
  "\<exists>r. race_schedule fds_ex (race_init (session_ex\<lparr>mIsSending := True\<rparr>)) both_ex = Some r
    \<and> race_pc r Receiver = PDone \<and> race_pc r Sender = PDone
    \<and> closes 7 (race_log r) = 1 \<and> calls 0 (race_log r) \<in> {1, 2}"
proof -
  let ?s = "session_ex\<lparr>mIsSending := True\<rparr>"
  obtain r where r: "race_schedule fds_ex (race_init ?s) both_ex = Some r" "race_pc r Receiver = PDone" "race_pc r Sender = PDone"
    by (simp add: both_ex_def race_init_def race_defs session_ex_simps)
  have "race_reachable fds_ex ?s r"
    using race_reachable_schedule[OF race_reachable.init r(1)] .
  from Disconnect_race_outcome[OF this, of 7] r show ?thesis
    by (simp add: session_ex_simps)
qed

text \<open>
  The application can be told twice. There is an interleaving in which both threads clear their
  flags before either looks at them, and both then report the same disconnection.
\<close>

theorem Disconnect_race_reports_twice:
  assumes "mSessionFD s0 \<noteq> sINVALID_SOCKET_FD"
  shows "\<exists>r. race_schedule srv (race_init s0) both_ex = Some r
    \<and> race_log r = [EpollCtl (mEpollFD srv) EPOLL_CTL_DEL (mSessionFD s0) None, CloseFD (mSessionFD s0),
        CallOnDisconnected (mSessionID s0), CallOnDisconnected (mSessionID s0)]"
  using assms by (simp add: both_ex_def race_init_def race_defs Server_GetEpollFD_def)

theorem Disconnect_race_reports_twice_witness:
  "\<exists>r. race_schedule fds_ex (race_init session_ex) both_ex = Some r
    \<and> race_log r = [EpollCtl 4 EPOLL_CTL_DEL 7 None, CloseFD 7, CallOnDisconnected 0, CallOnDisconnected 0]"
  using Disconnect_race_reports_twice[of session_ex fds_ex] by (simp add: session_ex_simps)

text \<open>
  The cut into steps is the code: the receiving thread, run alone, has the effect of
  \<open>SetReceiveState(false)\<close> followed by the sequential \<open>Disconnect\<close>, and never gets stuck.
\<close>

theorem Disconnect_steps_refine:
  "\<exists>ts r. set ts \<subseteq> {Receiver} \<and> race_schedule srv (race_init s0) ts = Some r \<and> race_pc r Receiver = PDone
    \<and> Session_Disconnect srv (Session_SetReceiveState s0 False) = (race_session r, race_log r)"
proof -
  let ?n = "4 + (if mSessionFD s0 = sINVALID_SOCKET_FD then 0 else 1)"
  have "set (replicate ?n Receiver) \<subseteq> {Receiver}" by auto
  moreover have "\<exists>r. race_schedule srv (race_init s0) (replicate ?n Receiver) = Some r \<and> race_pc r Receiver = PDone
      \<and> Session_Disconnect srv (Session_SetReceiveState s0 False) = (race_session r, race_log r)"
    by (simp add: numeral_eq_Suc race_init_def race_defs Session_Disconnect_def)
  ultimately show ?thesis by blast
qed

end
