(* ===== verification/Send_Race.thy ===== *)
theory Send_Race
  imports Session
begin

text \<open>
  Several threads in \<^verbatim>\<open>Session::Send\<close> of one session (\<^verbatim>\<open>src/src/lib-core/src/Network/Session.cpp\<close>), which
  any thread of the application may call through \<^verbatim>\<open>Server::Send\<close>. A step is one critical section, one
  atomic exchange, one access of the flag or one system call; \<^verbatim>\<open>Disconnect\<close> is one step here (its own
  steps are the subject of \<open>Disconnect_Race\<close>).
\<close>

section \<open>The threads\<close>

text \<open>
  Outside \<^verbatim>\<open>Send\<close>; packet queued, about to exchange \<^verbatim>\<open>mIsSending\<close>; in \<^verbatim>\<open>DoSend\<close> before the swap of the
  packets; nothing to send, about to clear the flag; at the check of the descriptor and at \<^verbatim>\<open>writev\<close> with
  the swapped packets; after a failure, about to clear the flag, then to disconnect (the Boolean says
  whether the code goes on after the loop), then behind the loop with result -1; behind the loop with
  the result of \<^verbatim>\<open>writev\<close>; back in \<^verbatim>\<open>Send\<close>, about to arm the descriptor.
\<close>

datatype send_pc =
    SOut | STest | SSwap | SClear | SCheck "iovec list" | SWrite "iovec list"
  | SFail "iovec list" bool | SDisconnect "iovec list" bool | SReset "iovec list" | SDone "iovec list" int | SArm

text \<open>
  \<open>pushed\<close> records the packets in the order in which they were queued, \<open>handled\<close> the batches in the order
  in which \<^verbatim>\<open>DoSend\<close> was done with them, each with whether the kernel has taken all of it.
\<close>

record send_sys =
  sess :: Session
  spc :: "nat \<Rightarrow> send_pc"
  slog :: "effect list"
  pushed :: "iovec list"
  handled :: "(iovec list \<times> bool) list"

text \<open>\<open>Hangup\<close> is a disconnection by the receiving side.\<close>

datatype send_event = Begin nat int int | Step nat | Answer nat writev_answer | Hangup

abbreviation at :: "send_sys \<Rightarrow> nat \<Rightarrow> send_pc \<Rightarrow> send_sys" where
  "at y t p \<equiv> y\<lparr>spc := (spc y)(t := p)\<rparr>"

fun send_step :: "'a ServerFds_scheme \<Rightarrow> int \<Rightarrow> send_sys \<Rightarrow> nat \<Rightarrow> send_sys option" where
  "send_step srv self y t =
     (case spc y t of
        SOut \<Rightarrow> None
      | STest \<Rightarrow> Some (at (y\<lparr>sess := (sess y)\<lparr>mIsSending := True\<rparr>\<rparr>) t (if mIsSending (sess y) then SOut else SSwap))
      | SSwap \<Rightarrow> Some (at (y\<lparr>sess := (sess y)\<lparr>mPackets := []\<rparr>\<rparr>) t
                         (if mPackets (sess y) = [] then SClear else SCheck (mPackets (sess y))))
      | SClear \<Rightarrow> Some (at (y\<lparr>sess := (sess y)\<lparr>mIsSending := False\<rparr>\<rparr>) t SArm)
      | SCheck vs \<Rightarrow>
          if mSessionFD (sess y) = sINVALID_SOCKET_FD
          then Some (at (y\<lparr>handled := handled y @ [(vs, False)]\<rparr>) t (SFail vs False))
          else Some (at y t (SWrite vs))
      | SWrite vs \<Rightarrow> None
      | SFail vs on \<Rightarrow> Some (at (y\<lparr>sess := (sess y)\<lparr>mIsSending := False\<rparr>\<rparr>) t (SDisconnect vs on))
      | SDisconnect vs on \<Rightarrow>
          let (s', es) = Session_Disconnect srv (sess y)
          in Some (at (y\<lparr>sess := s', slog := slog y @ es\<rparr>) t (if on then SReset vs else SArm))
      | SReset vs \<Rightarrow>
          let (s', es) = after_writev srv self (sess y) vs (total_send_bytes 0 vs) (-1)
          in Some (at (y\<lparr>sess := s', slog := slog y @ es\<rparr>) t SArm)
      | SDone vs n \<Rightarrow>
          let (s', es) = after_writev srv self (sess y) vs (total_send_bytes 0 vs) n
          in Some (at (y\<lparr>sess := s', slog := slog y @ es\<rparr>) t SArm)
      | SArm \<Rightarrow> Some (at (y\<lparr>slog := slog y @ [send_event srv self (sess y)]\<rparr>) t SOut))"

text \<open>\<^verbatim>\<open>writev\<close> on a descriptor that has been invalidated since the check can only fail.\<close>

fun send_answer :: "send_sys \<Rightarrow> nat \<Rightarrow> writev_answer \<Rightarrow> send_sys option" where
  "send_answer y t answer =
     (case spc y t of
        SWrite vs \<Rightarrow>
          let y1 = y\<lparr>slog := slog y @ [Writev (mSessionFD (sess y)) vs]\<rparr> in
          (case answer of
             WriteErr EAGAIN \<Rightarrow> Some (at (y1\<lparr>handled := handled y @ [(vs, False)]\<rparr>) t (SFail vs False))
           | WriteErr EINTR \<Rightarrow> Some (at y1 t (SCheck vs))
           | WriteErr _ \<Rightarrow> Some (at (y1\<lparr>handled := handled y @ [(vs, False)]\<rparr>) t (SFail vs True))
           | WriteDone n \<Rightarrow>
               if mSessionFD (sess y) = sINVALID_SOCKET_FD then None
               else Some (at (y1\<lparr>handled := handled y @ [(vs, to_int32 n = total_send_bytes 0 vs)]\<rparr>) t (SDone vs (to_int32 n))))
      | _ \<Rightarrow> None)"

fun send_exec :: "'a ServerFds_scheme \<Rightarrow> int \<Rightarrow> send_sys \<Rightarrow> send_event \<Rightarrow> send_sys option" where
  "send_exec srv self y (Begin t buffer bufferSize) =
     (if spc y t = SOut \<and> buffer \<noteq> 0 \<and> 0 < bufferSize
      then let v = \<lparr>iov_base = buffer, iov_len = bufferSize\<rparr>
           in Some (at (y\<lparr>sess := (sess y)\<lparr>mPackets := mPackets (sess y) @ [v]\<rparr>, pushed := pushed y @ [v]\<rparr>) t STest)
      else None)"
| "send_exec srv self y (Step t) = send_step srv self y t"
| "send_exec srv self y (Answer t answer) = send_answer y t answer"
| "send_exec srv self y Hangup =
     (let (s', es) = Session_Disconnect srv (Session_SetReceiveState (sess y) False)
      in Some (y\<lparr>sess := s', slog := slog y @ es\<rparr>))"

fun send_schedule :: "'a ServerFds_scheme \<Rightarrow> int \<Rightarrow> send_sys \<Rightarrow> send_event list \<Rightarrow> send_sys option" where
  "send_schedule srv self y [] = Some y"
| "send_schedule srv self y (e # es) =
     (case send_exec srv self y e of None \<Rightarrow> None | Some z \<Rightarrow> send_schedule srv self z es)"

text \<open>All threads are outside.\<close>

definition send_start :: "Session \<Rightarrow> send_sys" where
  "send_start s = \<lparr>sess = s, spc = (\<lambda>_. SOut), slog = [], pushed = mPackets s, handled = []\<rparr>"

lemma send_schedule_append:
  "send_schedule srv self y (xs @ ys) =
     (case send_schedule srv self y xs of None \<Rightarrow> None | Some z \<Rightarrow> send_schedule srv self z ys)"
  by (induction xs arbitrary: y) (auto split: option.splits)

section \<open>One thread at a time in DoSend\<close>

text \<open>The thread that owns the flag, and the packets it has taken but not yet handled.\<close>

fun owns :: "send_pc \<Rightarrow> bool" where
  "owns SSwap = True" | "owns SClear = True" | "owns (SCheck _) = True" | "owns (SWrite _) = True"
| "owns (SFail _ _) = True" | "owns (SDone _ _) = True"
| "owns _ = False"

fun batch :: "send_pc \<Rightarrow> iovec list" where
  "batch (SCheck vs) = vs" | "batch (SWrite vs) = vs"
| "batch _ = []"

text \<open>The packets a thread still refers to; their lengths do not overflow an Int32.\<close>

fun refers :: "send_pc \<Rightarrow> iovec list" where
  "refers (SCheck vs) = vs" | "refers (SWrite vs) = vs" | "refers (SFail vs _) = vs"
| "refers (SDisconnect vs _) = vs" | "refers (SReset vs) = vs" | "refers (SDone vs _) = vs"
| "refers _ = []"

definition sent :: "send_sys \<Rightarrow> iovec list" where
  "sent y = concat (map fst (handled y))"

definition send_inv :: "send_sys \<Rightarrow> bool" where
  "send_inv y \<longleftrightarrow> (\<forall>t u. owns (spc y t) \<longrightarrow> owns (spc y u) \<longrightarrow> t = u)
     \<and> (\<forall>t. owns (spc y t) \<longrightarrow> mIsSending (sess y) \<and> sent y @ batch (spc y t) @ mPackets (sess y) = pushed y)
     \<and> ((\<forall>t. \<not> owns (spc y t)) \<longrightarrow> sent y @ mPackets (sess y) = pushed y)
     \<and> (\<forall>t. total_send_bytes 0 (refers (spc y t)) \<noteq> -1)
     \<and> (\<forall>v\<in>set (pushed y). 0 < iov_len v)"

lemma send_invD:
  assumes "send_inv y"
  shows "owns (spc y t) \<Longrightarrow> owns (spc y u) \<Longrightarrow> t = u"
    and "owns (spc y t) \<Longrightarrow> mIsSending (sess y)"
    and "owns (spc y t) \<Longrightarrow> sent y @ batch (spc y t) @ mPackets (sess y) = pushed y"
    and "\<forall>t. \<not> owns (spc y t) \<Longrightarrow> sent y @ mPackets (sess y) = pushed y"
    and "total_send_bytes 0 (refers (spc y t)) \<noteq> -1"
    and "v \<in> set (pushed y) \<Longrightarrow> 0 < iov_len v"
  using assms unfolding send_inv_def by blast+

lemma sent_append [simp]: "sent (y\<lparr>handled := handled y @ [(vs, b)]\<rparr>) = sent y @ vs"
  by (simp add: sent_def)

lemma sent_cong: "handled z = handled y \<Longrightarrow> sent z = sent y"
  by (simp add: sent_def)

text \<open>
  A step of one thread that leaves the other threads alone keeps the invariant if the thread's own part
  of it is kept.
\<close>

lemma send_inv_step:
  assumes "send_inv y" and "spc z = (spc y)(t := p)" and "total_send_bytes 0 (refers p) \<noteq> -1"
    and "\<forall>v\<in>set (pushed z). 0 < iov_len v"
    and "owns p \<Longrightarrow> mIsSending (sess z) \<and> sent z @ batch p @ mPackets (sess z) = pushed z \<and> (owns (spc y t) \<or> (\<forall>u. \<not> owns (spc y u)))"
    and "\<not> owns p \<Longrightarrow> owns (spc y t) \<Longrightarrow> sent z @ mPackets (sess z) = pushed z"
    and "\<not> owns p \<Longrightarrow> \<not> owns (spc y t) \<Longrightarrow> (mIsSending (sess y) \<longrightarrow> mIsSending (sess z))
      \<and> (\<exists>more. mPackets (sess z) = mPackets (sess y) @ more \<and> pushed z = pushed y @ more) \<and> handled z = handled y"
  shows "send_inv z"
proof -
  have refs: "total_send_bytes 0 (refers (spc z u)) \<noteq> -1" for u
    using assms(2,3) send_invD(5)[OF assms(1), of u] by simp
  have only: "owns (spc z u) \<longleftrightarrow> owns p \<and> u = t" if "owns p \<or> owns (spc y t)" for u
  proof (cases "u = t")
    case False
    with assms(2) have "spc z u = spc y u" by simp
    moreover have "\<not> owns (spc y u)" using that assms(5) send_invD(1)[OF assms(1), of t u] False by blast
    ultimately show ?thesis using False by simp
  qed (use assms(2) in simp)
  have here: "spc z t = p" using assms(2) by simp
  show ?thesis
  proof (cases "owns p \<or> owns (spc y t)")
    case True
    have "mIsSending (sess z) \<and> sent z @ batch (spc z u) @ mPackets (sess z) = pushed z" if "owns (spc z u)" for u
      using that only[OF True, of u] assms(5) here by simp
    moreover have "sent z @ mPackets (sess z) = pushed z" if "\<forall>u. \<not> owns (spc z u)"
      using that only[OF True, of t] assms(6) True by blast
    moreover have "t' = u" if "owns (spc z t')" "owns (spc z u)" for t' u
      using that only[OF True] by metis
    ultimately show ?thesis using assms(4) refs unfolding send_inv_def by blast
  next
    case False
    with assms(7) obtain more where more: "mPackets (sess z) = mPackets (sess y) @ more" "pushed z = pushed y @ more"
        "handled z = handled y" "mIsSending (sess y) \<longrightarrow> mIsSending (sess z)" by blast
    have s: "sent z = sent y" using more(3) by (rule sent_cong)
    have owners: "owns (spc z u) \<longleftrightarrow> owns (spc y u)" "owns (spc z u) \<Longrightarrow> spc z u = spc y u" for u
      using assms(2) False by auto
    have "sent z @ batch (spc z u) @ mPackets (sess z) = pushed z \<and> mIsSending (sess z)" if "owns (spc z u)" for u
      using send_invD(2,3)[OF assms(1), of u] owners[of u] that more(1,2,4) unfolding s by (metis append.assoc)
    moreover have "sent z @ mPackets (sess z) = pushed z" if "\<forall>u. \<not> owns (spc z u)"
      using send_invD(4)[OF assms(1)] owners(1) that more(1,2) unfolding s by (metis append.assoc)
    moreover have "t' = u" if "owns (spc z t')" "owns (spc z u)" for t' u
      using that owners(1) send_invD(1)[OF assms(1)] by blast
    ultimately show ?thesis using assms(4) refs unfolding send_inv_def by blast
  qed
qed

lemma Disconnect_keeps:
  "Session_Disconnect srv s = (s', es) \<Longrightarrow> mPackets s' = mPackets s \<and> mIsSending s' = mIsSending s"
  by (drule Session_Disconnect_state) simp

lemma after_writev_keeps:
  "after_writev srv self s vs tot n = (s', es) \<Longrightarrow>
    mPackets s' = mPackets s \<and> mIsSending s' = (mIsSending s \<and> n \<noteq> tot)"
  by (auto simp: after_writev_def Let_def split: if_splits prod.splits)

lemma packets_bounded:
  assumes "send_inv y" and "iov_total (pushed y) < 2 ^ 31" and "pushed y = a @ vs @ b"
  shows "total_send_bytes 0 vs = iov_total vs" and "total_send_bytes 0 vs \<noteq> -1"
proof -
  have "\<forall>v\<in>set (pushed y). 0 < iov_len v" using send_invD(6)[OF assms(1)] by blast
  then have nonneg: "\<forall>v \<in> set vs. 0 \<le> iov_len v" "0 \<le> iov_total a" "0 \<le> iov_total b" "0 \<le> iov_total vs"
    unfolding assms(3) by (auto simp: iov_total_def less_imp_le intro!: sum_list_nonneg)
  with assms(2,3) have "0 + iov_total vs < 2 ^ 31" by simp
  from total_send_bytes_sum[OF _ nonneg(1) this] nonneg(4)
  show "total_send_bytes 0 vs = iov_total vs" "total_send_bytes 0 vs \<noteq> -1" by simp_all
qed

lemma send_step_inv:
  assumes "send_step srv self y t = Some z" and inv: "send_inv y" and "iov_total (pushed y) < 2 ^ 31"
  shows "send_inv z"
proof -
  consider (SSwap) "spc y t = SSwap" | (SDisconnect) vs on where "spc y t = SDisconnect vs on"
    | (SReset) vs where "spc y t = SReset vs" | (SDone) vs n where "spc y t = SDone vs n"
    | (simple) "spc y t \<noteq> SSwap" "\<forall>vs on n. spc y t \<notin> {SDisconnect vs on, SReset vs, SDone vs n}" by blast
  then show ?thesis
  proof cases
    case SSwap
    have "pushed y = sent y @ mPackets (sess y) @ []" using send_invD(3)[OF inv, of t] SSwap by simp
    from packets_bounded(2)[OF inv assms(3) this] SSwap assms(1) send_invD(2,3)[OF inv, of t] send_invD(6)[OF inv] show ?thesis
      by (cases "mPackets (sess y) = []"; intro send_inv_step[OF inv, of z t "spc z t"]; auto simp: sent_def)
  next
    case (SDisconnect vs on)
    obtain s' es where "Session_Disconnect srv (sess y) = (s', es)" by fastforce
    with Disconnect_keeps[OF this] SDisconnect assms(1) send_invD(5)[OF inv, of t] send_invD(6)[OF inv] show ?thesis
      by (intro send_inv_step[OF inv, of z t "if on then SReset vs else SArm"]) (auto simp: sent_def split: if_splits)
  next
    case (SReset vs)
    obtain s' es where "after_writev srv self (sess y) vs (total_send_bytes 0 vs) (-1) = (s', es)" by fastforce
    with after_writev_keeps[OF this] SReset assms(1) send_invD(5)[OF inv, of t] send_invD(6)[OF inv] show ?thesis
      by (intro send_inv_step[OF inv, of z t SArm]) (auto simp: sent_def)
  next
    case (SDone vs n)
    obtain s' es where "after_writev srv self (sess y) vs (total_send_bytes 0 vs) n = (s', es)" by fastforce
    with after_writev_keeps[OF this] SDone assms(1) send_invD(3)[OF inv, of t] send_invD(6)[OF inv] show ?thesis
      by (intro send_inv_step[OF inv, of z t SArm]) (auto simp: sent_def)
  next
    case simple
    have free: "(\<forall>u. \<not> owns (spc y u)) \<and> concat (map fst (handled y)) @ mPackets (sess y) = pushed y" if "\<not> mIsSending (sess y)"
      using that send_invD(2,4)[OF inv] unfolding sent_def by blast
    with simple assms(1) send_invD(2,3,5)[OF inv, of t] send_invD(6)[OF inv] show ?thesis
      by (intro send_inv_step[OF inv, of z t "spc z t"]; cases "spc y t"; auto simp: sent_def split: if_splits)
  qed
qed

lemma send_exec_inv:
  assumes "send_exec srv self y e = Some z" and inv: "send_inv y" and "iov_total (pushed y) < 2 ^ 31"
  shows "send_inv z"
proof (cases e)
  case (Begin t buffer sz)
  with assms(1) send_invD(6)[OF inv] show ?thesis
    by (intro send_inv_step[OF inv, of z t STest]) (auto simp: Let_def split: if_splits)
next
  case (Step t)
  with send_step_inv[OF _ inv assms(3)] assms(1) show ?thesis by simp
next
  case (Answer t answer)
  with assms(1) obtain vs where vs: "spc y t = SWrite vs" by (auto split: send_pc.splits)
  with Answer assms(1) send_invD(2,3,5)[OF inv, of t] send_invD(6)[OF inv] show ?thesis
    by (intro send_inv_step[OF inv, of z t "spc z t"]; cases answer; auto simp: sent_def Let_def split: errno.splits if_splits)
next
  case Hangup
  obtain s' es where d: "Session_Disconnect srv (Session_SetReceiveState (sess y) False) = (s', es)" by fastforce
  with Disconnect_keeps[OF d] Hangup assms(1) send_invD(2,3,5)[OF inv, of 0] send_invD(6)[OF inv] show ?thesis
    by (intro send_inv_step[OF inv, of z 0 "spc y 0"]) (auto simp: sent_def Session_SetReceiveState_def)
qed

section \<open>Histories\<close>

lemma send_exec_pushed:
  assumes "send_exec srv self y e = Some z"
  shows "\<exists>more. pushed z = pushed y @ more \<and> (\<forall>v\<in>set more. 0 < iov_len v)"
  using assms
  by (cases e) (auto simp: Let_def split: if_splits send_pc.splits writev_answer.splits errno.splits prod.splits)

lemma send_schedule_pushed:
  "send_schedule srv self y es = Some z \<Longrightarrow> \<exists>more. pushed z = pushed y @ more \<and> (\<forall>v\<in>set more. 0 < iov_len v)"
proof (induction es arbitrary: y)
  case (Cons e es)
  then obtain y1 where y1: "send_exec srv self y e = Some y1" "send_schedule srv self y1 es = Some z" by (auto split: option.splits)
  obtain m1 m2 where "pushed y1 = pushed y @ m1" "\<forall>v\<in>set m1. 0 < iov_len v" "pushed z = pushed y1 @ m2" "\<forall>v\<in>set m2. 0 < iov_len v"
    using send_exec_pushed[OF y1(1)] Cons.IH[OF y1(2)] by blast
  then show ?case by (intro exI[of _ "m1 @ m2"]) auto
qed simp

lemma iov_total_pos: "\<forall>v\<in>set vs. 0 < iov_len v \<Longrightarrow> 0 \<le> iov_total vs"
  by (auto simp: iov_total_def less_imp_le intro!: sum_list_nonneg)

lemma send_schedule_inv:
  "send_schedule srv self y es = Some z \<Longrightarrow> send_inv y \<Longrightarrow> iov_total (pushed z) < 2 ^ 31 \<Longrightarrow> send_inv z"
proof (induction es arbitrary: y)
  case (Cons e es)
  then obtain y1 where y1: "send_exec srv self y e = Some y1" "send_schedule srv self y1 es = Some z" by (auto split: option.splits)
  obtain more where "pushed z = pushed y @ more" "\<forall>v\<in>set more. 0 < iov_len v"
    using send_schedule_pushed[OF Cons.prems(1)] by blast
  then have "iov_total (pushed y) < 2 ^ 31" using Cons.prems(3) iov_total_pos[of more] by simp
  from Cons.IH[OF y1(2) send_exec_inv[OF y1(1) Cons.prems(2) this] Cons.prems(3)] show ?case .
qed simp

lemma send_start_inv: "\<forall>v\<in>set (mPackets s). 0 < iov_len v \<Longrightarrow> send_inv (send_start s)"
  by (simp add: send_inv_def send_start_def sent_def)

text \<open>Whatever is handed to \<^verbatim>\<open>writev\<close> is a batch that is handled or in the hands of a thread.\<close>

definition log_inv :: "send_sys \<Rightarrow> bool" where
  "log_inv y \<longleftrightarrow> (\<forall>fd vs. Writev fd vs \<in> set (slog y) \<longrightarrow>
     vs \<in> fst ` set (handled y) \<or> (\<exists>t. spc y t = SCheck vs \<or> spc y t = SWrite vs))"

lemma Disconnect_no_writev: "Session_Disconnect srv s = (s', es) \<Longrightarrow> \<forall>fd vs. Writev fd vs \<notin> set es"
  by (auto simp: Session_Disconnect_def Let_def split: if_splits)

lemma after_writev_no_writev: "after_writev srv self s us tot n = (s', es) \<Longrightarrow> \<forall>fd vs. Writev fd vs \<notin> set es"
  by (auto simp: after_writev_def Let_def send_event_def split: if_splits prod.splits)

lemma log_inv_step:
  assumes "log_inv y" and "spc z = (spc y)(t := p)" and "slog z = slog y @ es" and "set (handled y) \<subseteq> set (handled z)"
    and "\<And>fd vs. Writev fd vs \<in> set es \<Longrightarrow> spc y t = SWrite vs"
    and "\<And>vs. spc y t = SCheck vs \<or> spc y t = SWrite vs \<Longrightarrow> p = SCheck vs \<or> p = SWrite vs \<or> vs \<in> fst ` set (handled z)"
  shows "log_inv z"
  unfolding log_inv_def
proof (intro allI impI)
  fix fd vs assume "Writev fd vs \<in> set (slog z)"
  then have "Writev fd vs \<in> set (slog y) \<or> Writev fd vs \<in> set es" using assms(3) by simp
  then have "vs \<in> fst ` set (handled y) \<or> (\<exists>u. spc y u = SCheck vs \<or> spc y u = SWrite vs)"
    using assms(1,5) unfolding log_inv_def by blast
  then show "vs \<in> fst ` set (handled z) \<or> (\<exists>u. spc z u = SCheck vs \<or> spc z u = SWrite vs)"
    using assms(2,4) assms(6)[of vs] by (metis fun_upd_apply image_mono in_mono)
qed

lemma send_exec_log:
  assumes "send_exec srv self y e = Some z" and "log_inv y"
  shows "log_inv z"
proof (cases e)
  case (Begin t buffer sz)
  with assms(1) show ?thesis
    by (intro log_inv_step[OF assms(2), of z t STest "[]"]) (auto simp: Let_def split: if_splits)
next
  case (Step t)
  with assms(1) have "\<exists>es. slog z = slog y @ es \<and> (\<forall>fd vs. Writev fd vs \<notin> set es)"
    by (cases "spc y t")
      (auto simp: send_event_def dest: Disconnect_no_writev after_writev_no_writev split: if_splits prod.splits)
  then obtain es where "slog z = slog y @ es" "\<And>fd vs. Writev fd vs \<notin> set es" by blast
  with Step assms(1) show ?thesis
    by (intro log_inv_step[OF assms(2), of z t "spc z t" es])
      (cases "spc y t"; auto split: if_splits prod.splits)+
next
  case (Answer t answer)
  with assms(1) obtain vs where vs: "spc y t = SWrite vs" by (auto split: send_pc.splits)
  with Answer assms(1) show ?thesis
    by (intro log_inv_step[OF assms(2), of z t "spc z t" "[Writev (mSessionFD (sess y)) vs]"];
        cases answer; auto simp: Let_def split: errno.splits if_splits)
next
  case Hangup
  obtain s' es where d: "Session_Disconnect srv (Session_SetReceiveState (sess y) False) = (s', es)" by fastforce
  with Disconnect_no_writev[OF d] Hangup assms(1) show ?thesis
    by (intro log_inv_step[OF assms(2), of z 0 "spc y 0" es]) auto
qed

lemma send_schedule_log: "send_schedule srv self y es = Some z \<Longrightarrow> log_inv y \<Longrightarrow> log_inv z"
  by (induction es arbitrary: y) (auto simp del: send_exec.simps split: option.splits intro: send_exec_log)

section \<open>One call alone\<close>

text \<open>The steps of the write loop of one thread, taken without interruption, are the sequential loop.\<close>

definition runs_to :: "'a ServerFds_scheme \<Rightarrow> int \<Rightarrow> nat \<Rightarrow> send_sys \<Rightarrow> send_pc \<Rightarrow> Session \<times> effect list \<Rightarrow> bool" where
  "runs_to srv self t y p result \<longleftrightarrow> (\<exists>es z. send_schedule srv self y es = Some z \<and> spc z = (spc y)(t := p)
     \<and> sess z = fst result \<and> slog z = slog y @ snd result \<and> set es \<subseteq> insert (Step t) (range (Answer t)))"

lemma runs_to_step:
  assumes "send_exec srv self y e = Some y1" and "e = Step t \<or> (\<exists>a. e = Answer t a)"
    and "spc y1 = (spc y)(t := q)" and "slog y1 = slog y @ es1" and "runs_to srv self t y1 p (s', es2)" and "es = es1 @ es2"
  shows "runs_to srv self t y p (s', es)"
proof -
  obtain es' z where z: "send_schedule srv self y1 es' = Some z" "spc z = (spc y1)(t := p)" "sess z = s'"
      "slog z = slog y1 @ es2" "set es' \<subseteq> insert (Step t) (range (Answer t))"
    using assms(5) by (auto simp: runs_to_def)
  have "send_schedule srv self y (e # es') = Some z" using assms(1) z(1) by simp
  moreover have "set (e # es') \<subseteq> insert (Step t) (range (Answer t))" using assms(2) z(5) by auto
  ultimately show ?thesis using z(2-4) assms(3,4,6) unfolding runs_to_def
    by (intro exI[of _ "e # es'"] exI[of _ z]) auto
qed

lemma fail_runs:
  assumes "spc y t = SFail vs False" and "Session_Disconnect srv ((sess y)\<lparr>mIsSending := False\<rparr>) = (s', es)"
  shows "runs_to srv self t y SArm (s', es)"
  using assms unfolding runs_to_def by (intro exI[of _ "[Step t, Step t]"]) simp

lemma fail_on_runs:
  assumes "spc y t = SFail vs True" and "Session_Disconnect srv ((sess y)\<lparr>mIsSending := False\<rparr>) = (s', es)"
    and "after_writev srv self s' vs (total_send_bytes 0 vs) (-1) = (s'', es')"
  shows "runs_to srv self t y SArm (s'', es @ es')"
  using assms unfolding runs_to_def by (intro exI[of _ "[Step t, Step t, Step t]"]) simp

lemma done_runs:
  assumes "spc y t = SDone vs n" and "after_writev srv self (sess y) vs (total_send_bytes 0 vs) n = (s', es)"
  shows "runs_to srv self t y SArm (s', es)"
  using assms unfolding runs_to_def by (intro exI[of _ "[Step t]"]) simp

text \<open>A check of a valid descriptor and a call of \<^verbatim>\<open>writev\<close>.\<close>

lemma write_runs:
  assumes "spc y t = SCheck vs" and "mSessionFD (sess y) \<noteq> sINVALID_SOCKET_FD"
    and "send_answer (at y t (SWrite vs)) t a = Some y1" and "spc y1 = (spc y)(t := q)"
    and "slog y1 = slog y @ [Writev (mSessionFD (sess y)) vs]" and "runs_to srv self t y1 p (s', es)"
  shows "runs_to srv self t y p (s', Writev (mSessionFD (sess y)) vs # es)"
proof -
  have "runs_to srv self t (at y t (SWrite vs)) p (s', Writev (mSessionFD (sess y)) vs # es)"
    by (rule runs_to_step[of _ _ _ "Answer t a" y1 _ q "[Writev (mSessionFD (sess y)) vs]" _ _ es]) (use assms in simp_all)
  from runs_to_step[of srv self y "Step t" _ t "SWrite vs" "[]", OF _ _ _ _ this] assms(1,2) show ?thesis by simp
qed

lemma closed_runs:
  assumes "spc y t = SCheck vs" and "mSessionFD (sess y) = sINVALID_SOCKET_FD"
  shows "runs_to srv self t y SArm (Session_Disconnect srv ((sess y)\<lparr>mIsSending := False\<rparr>))"
proof -
  obtain s' es where d: "Session_Disconnect srv ((sess y)\<lparr>mIsSending := False\<rparr>) = (s', es)" by fastforce
  let ?y1 = "at (y\<lparr>handled := handled y @ [(vs, False)]\<rparr>) t (SFail vs False)"
  have "runs_to srv self t ?y1 SArm (s', es)" by (rule fail_runs[of _ _ vs]) (simp_all add: d)
  from runs_to_step[of srv self y "Step t" ?y1 t "SFail vs False" "[]", OF _ _ _ _ this] assms d show ?thesis by simp
qed

lemma again_runs:
  assumes "spc y t = SCheck vs" and "mSessionFD (sess y) \<noteq> sINVALID_SOCKET_FD"
    and "Session_Disconnect srv ((sess y)\<lparr>mIsSending := False\<rparr>) = (s', es)"
  shows "runs_to srv self t y SArm (s', Writev (mSessionFD (sess y)) vs # es)"
proof -
  let ?y1 = "at (y\<lparr>slog := slog y @ [Writev (mSessionFD (sess y)) vs], handled := handled y @ [(vs, False)]\<rparr>) t (SFail vs False)"
  have "runs_to srv self t ?y1 SArm (s', es)" by (rule fail_runs[of _ _ vs]) (simp_all add: assms(3))
  from write_runs[OF assms(1,2), of "WriteErr EAGAIN" ?y1, OF _ _ _ this] show ?thesis by simp
qed

lemma loop_runs:
  assumes "spc y t = SCheck vs"
  shows "runs_to srv self t y SArm (writev_loop srv self (sess y) vs (total_send_bytes 0 vs) answers)"
  using assms
proof (induction answers arbitrary: y)
  case Nil
  show ?case
  proof (cases "mSessionFD (sess y) = sINVALID_SOCKET_FD")
    case True
    with closed_runs[OF Nil True] show ?thesis by (simp add: writev_loop.simps)
  next
    case False
    with again_runs[OF Nil False] show ?thesis by (auto simp: writev_loop.simps split: prod.split)
  qed
next
  case (Cons a answers)
  show ?case
  proof (cases "mSessionFD (sess y) = sINVALID_SOCKET_FD")
    case True
    with closed_runs[OF Cons.prems True] show ?thesis by (simp add: writev_loop.simps)
  next
    case open_fd: False
    note wr = write_runs[OF Cons.prems open_fd]
    show ?thesis
    proof (cases a)
      case (WriteDone n)
      let ?y1 = "at (y\<lparr>slog := slog y @ [Writev (mSessionFD (sess y)) vs],
          handled := handled y @ [(vs, to_int32 n = total_send_bytes 0 vs)]\<rparr>) t (SDone vs (to_int32 n))"
      obtain s' es where w: "after_writev srv self (sess y) vs (total_send_bytes 0 vs) (to_int32 n) = (s', es)" by fastforce
      have "runs_to srv self t ?y1 SArm (s', es)" by (rule done_runs[of _ _ vs "to_int32 n"]) (simp_all add: w)
      from wr[of "WriteDone n" ?y1, OF _ _ _ this] open_fd WriteDone w show ?thesis
        by (simp add: writev_loop.simps)
    next
      case (WriteErr e)
      show ?thesis
      proof (cases "e = EAGAIN \<or> e = EINTR")
        case True
        then show ?thesis
        proof
          assume e: "e = EAGAIN"
          with again_runs[OF Cons.prems open_fd] open_fd WriteErr show ?thesis by (auto simp: writev_loop.simps split: prod.split)
        next
          assume e: "e = EINTR"
          let ?y1 = "at (y\<lparr>slog := slog y @ [Writev (mSessionFD (sess y)) vs]\<rparr>) t (SCheck vs)"
          obtain s' es where w: "writev_loop srv self (sess y) vs (total_send_bytes 0 vs) answers = (s', es)" by fastforce
          have "runs_to srv self t ?y1 SArm (s', es)" using Cons.IH[of ?y1] w by simp
          from wr[of a ?y1, OF _ _ _ this] open_fd WriteErr e w show ?thesis by (simp add: writev_loop.simps)
        qed
      next
        case False
        let ?y1 = "at (y\<lparr>slog := slog y @ [Writev (mSessionFD (sess y)) vs], handled := handled y @ [(vs, False)]\<rparr>) t (SFail vs True)"
        obtain s1 es1 where d: "Session_Disconnect srv ((sess y)\<lparr>mIsSending := False\<rparr>) = (s1, es1)" by fastforce
        obtain s' es where w: "after_writev srv self s1 vs (total_send_bytes 0 vs) (-1) = (s', es)" by fastforce
        have run: "runs_to srv self t ?y1 SArm (s', es1 @ es)" by (rule fail_on_runs[OF _ _ w]) (simp_all add: d)
        have "send_answer (at y t (SWrite vs)) t a = Some ?y1" using False WriteErr by (cases e) simp_all
        from wr[OF this _ _ run] have "runs_to srv self t y SArm (s', Writev (mSessionFD (sess y)) vs # es1 @ es)" by simp
        with False WriteErr open_fd d w show ?thesis by (cases e) (simp_all add: writev_loop.simps)
      qed
    qed
  qed
qed

section \<open>Properties\<close>


text \<open>
  C16. A packet can be left behind. If a second thread queues its packet after the first has taken the
  queue and exchanges the flag before the first clears it, both calls return, the flag is clear and the
  second packet is still in the queue: it is not written until some thread calls \<^verbatim>\<open>Send\<close> again, and the
  address that is written from then is the one its sender had passed to a call long returned.
\<close>

theorem send_race_strands:
  assumes "mSessionFD s \<noteq> sINVALID_SOCKET_FD" and "\<not> mIsSending s" and "mPackets s = []"
    and "iov_base v1 \<noteq> 0" and "iov_base v2 \<noteq> 0" and "iov_base v3 \<noteq> 0"
    and "0 < iov_len v1" and "0 < iov_len v2" and "0 < iov_len v3" and "iov_len v1 < 2 ^ 31" and "iov_len v2 + iov_len v3 < 2 ^ 31"
  shows "\<exists>es y. send_schedule srv self (send_start s) es = Some y \<and> (\<forall>t. spc y t = SOut) \<and> \<not> mIsSending (sess y)
    \<and> pushed y = [v1, v2] \<and> handled y = [([v1], True)] \<and> mPackets (sess y) = [v2]
    \<and> filter is_writev (slog y) = [Writev (mSessionFD s) [v1]]
    \<and> filter is_writev (snd (Session_Send srv self (sess y) (iov_base v3) (iov_len v3) [WriteDone (iov_len v2 + iov_len v3)]))
        = [Writev (mSessionFD s) [v2, v3]]"
proof -
  have v: "\<lparr>iov_base = iov_base x, iov_len = iov_len x\<rparr> = x" for x :: iovec by simp
  have n: "to_int32 (iov_len v1) = iov_len v1" using assms(7,10) by (simp add: to_int32_id in_int32_def)
  have t: "total_send_bytes 0 [v1] = iov_len v1" using total_send_bytes_sum[of 0 "[v1]"] assms(7,10) by simp
  then have c: "to_int32 (to_size_t (iov_len v1)) = iov_len v1" by simp
  let ?es = "[Begin 0 (iov_base v1) (iov_len v1), Step 0, Step 0, Begin 1 (iov_base v2) (iov_len v2), Step 1,
    Step 0, Answer 0 (WriteDone (iov_len v1)), Step 0, Step 0]"
  have "\<exists>y. send_schedule srv self (send_start s) ?es = Some y \<and> (\<forall>t. spc y t = SOut)
      \<and> pushed y = [v1, v2] \<and> handled y = [([v1], True)] \<and> sess y = s\<lparr>mPackets := [v2]\<rparr>
      \<and> filter is_writev (slog y) = [Writev (mSessionFD s) [v1]]"
    using assms(1-5,7,8) by (simp add: send_start_def n t c after_writev_def send_event_def Let_def v)
  then obtain y where y: "send_schedule srv self (send_start s) ?es = Some y" "\<forall>t. spc y t = SOut" "pushed y = [v1, v2]"
      "handled y = [([v1], True)]" "sess y = s\<lparr>mPackets := [v2]\<rparr>" "filter is_writev (slog y) = [Writev (mSessionFD s) [v1]]" by blast
  have "filter is_writev (snd (Session_Send srv self (sess y) (iov_base v3) (iov_len v3) [WriteDone (iov_len v2 + iov_len v3)]))
      = [Writev (mSessionFD s) [v2, v3]]"
    using Session_Send_whole[of "iov_base v3" "iov_len v3" "sess y" srv self 0] assms(1,2,6,8,9,11) by (simp add: y(5))
  with y assms(2) show ?thesis by (intro exI[of _ ?es] exI[of _ y]) simp
qed

text \<open>
  C15. The cut into steps is the code. The steps of one call of \<^verbatim>\<open>Send\<close>, taken without interruption, do to
  the session and ask of the kernel what the sequential \<^verbatim>\<open>Session::Send\<close> does, on every answer of the
  kernel, and the call always returns.
\<close>

theorem Send_steps_refine:
  assumes "spc y t = SOut" and "buffer \<noteq> 0" and "0 < bufferSize"
  shows "\<exists>es z. send_schedule srv self y (Begin t buffer bufferSize # es) = Some z \<and> spc z = spc y
    \<and> set es \<subseteq> insert (Step t) (range (Answer t))
    \<and> Session_Send srv self (sess y) buffer bufferSize answers = (sess z, drop (length (slog y)) (slog z))
    \<and> take (length (slog y)) (slog z) = slog y"
proof -
  let ?v = "\<lparr>iov_base = buffer, iov_len = bufferSize\<rparr>"
  let ?vs = "mPackets (sess y) @ [?v]"
  let ?y1 = "at (y\<lparr>sess := (sess y)\<lparr>mPackets := ?vs\<rparr>, pushed := pushed y @ [?v]\<rparr>) t STest"
  have first: "send_exec srv self y (Begin t buffer bufferSize) = Some ?y1" using assms by (simp add: Let_def)
  show ?thesis
  proof (cases "mIsSending (sess y)")
    case True
    with assms show ?thesis
      by (intro exI[of _ "[Step t]"]) (auto simp: Session_Send_def Let_def fun_eq_iff)
  next
    case False
    let ?y2 = "at (?y1\<lparr>sess := (sess y)\<lparr>mIsSending := True, mPackets := []\<rparr>\<rparr>) t (SCheck ?vs)"
    obtain s' es' where w: "writev_loop srv self (sess ?y2) ?vs (total_send_bytes 0 ?vs) answers = (s', es')" by fastforce
    from loop_runs[of ?y2 t ?vs srv self answers] obtain es z where
      z: "send_schedule srv self ?y2 es = Some z" "spc z = (spc ?y2)(t := SArm)" "sess z = s'" "slog z = slog y @ es'"
        "set es \<subseteq> insert (Step t) (range (Answer t))"
      unfolding w by (auto simp: runs_to_def)
    let ?z = "at (z\<lparr>slog := slog z @ [send_event srv self s']\<rparr>) t SOut"
    have "send_schedule srv self ?y1 ([Step t, Step t] @ es @ [Step t]) = Some ?z"
      using False z(1,2,3) by (simp add: send_schedule_append)
    with first have "send_schedule srv self y (Begin t buffer bufferSize # [Step t, Step t] @ es @ [Step t]) = Some ?z" by simp
    moreover have "spc ?z = spc y" using z(2) assms(1) by (simp add: fun_eq_iff)
    moreover have "Session_Send srv self (sess y) buffer bufferSize answers = (s', es' @ [send_event srv self s'])"
      using Session_Send_idle[OF assms(2,3) False, of srv self answers] w by (simp add: Let_def)
    ultimately show ?thesis using z(3-5)
      by (intro exI[of _ "[Step t, Step t] @ es @ [Step t]"] exI[of _ ?z]) auto
  qed
qed

definition packet_ex :: "int \<Rightarrow> iovec" where
  "packet_ex a = \<lparr>iov_base = a, iov_len = 10\<rparr>"

definition senders_ex :: "send_event list" where
  "senders_ex = [Begin 0 4096 10, Step 0, Step 0, Begin 1 8192 10, Step 0]"


theorem send_race_strands_witness:
  "\<exists>es y. send_schedule fds_ex 0 (send_start session_ex) es = Some y \<and> (\<forall>t. spc y t = SOut) \<and> mPackets (sess y) = [packet_ex 8192]
    \<and> filter is_writev (slog y) = [Writev 7 [packet_ex 4096]]"
  using send_race_strands[of session_ex "packet_ex 4096" "packet_ex 8192" "packet_ex 12288" fds_ex 0]
  by (auto simp: packet_ex_def session_ex_simps)

theorem Send_steps_refine_witness:
  "\<exists>es z. send_schedule fds_ex 0 (send_start session_ex) (Begin 3 4096 10 # es) = Some z
    \<and> Session_Send fds_ex 0 session_ex 4096 10 [WriteErr EINTR, WriteDone 10] = (sess z, slog z)"
  using Send_steps_refine[of "send_start session_ex" 3 4096 10 fds_ex 0 "[WriteErr EINTR, WriteDone 10]"]
  by (auto simp: send_start_def)

end
