(* ===== verification/Connect_Order.thy ===== *)
theory Connect_Order
  imports Epoll
begin

text \<open>
  What another worker can do while the accept job is between the registration of a new connection and
  the call of \<^verbatim>\<open>OnConnected\<close> (\<^verbatim>\<open>AcceptJob::Execute\<close> in \<^verbatim>\<open>src/src/lib-core/src/ServerJob.cpp\<close>).
\<close>

text \<open>
  C19. An application can be told of the end of a session before its beginning. Whatever
  \<^verbatim>\<open>OnConnected\<close> does, when it is called for a new connection the descriptor has been registered and armed
  with the receive job of the session, which is complete and in the table: epoll may report it, and a
  worker that runs the job on a connection the client has closed again disconnects the session and
  calls \<^verbatim>\<open>OnDisconnected\<close>, all before the accept job calls \<^verbatim>\<open>OnConnected\<close>, which is then called for a session
  that is gone.
\<close>

theorem disconnect_before_connect:
  assumes "mSessionGroup srv = Ptr g" and "table_inv g M" and "int (card (dom M)) < mMaxSession g"
    and "0 \<le> fd" and "I fd = None" and "mSendPollFD srv \<noteq> mEpollFD srv"
  shows "\<exists>i srv1 g1 s s' before.
      (\<forall>srv2 es. OnConnected i srv1 = Inr (srv2, es) \<longrightarrow>
         accept_one OnConnected (mEpollFD srv) srv fd = Inr (srv2, map Net before @ Net (CallOnConnected i) # es))
    \<and> may_report [fd] (epoll_log (mEpollFD srv) before I)
    \<and> reported_jobs [fd] (epoll_log (mEpollFD srv) before I) = [RecvJobRef (GetIndex i)]
    \<and> mSessionGroup srv1 = Ptr g1 \<and> session_at g1 (GetIndex i) = Inr s \<and> mSessionFD s = fd
    \<and> RecvJob_run srv1 (GetIndex i) OnRecv s [RecvData []] ok
        = Inr (s', [EpollCtl (mEpollFD srv) EPOLL_CTL_DEL fd None, CloseFD fd, CallOnDisconnected i])"
proof -
  obtain i s g1 where a: "Server_AddSession srv fd = Inr (i, srv\<lparr>mSessionGroup := Ptr g1\<rparr>)"
      "s = Session_ctor (mSessionVector g ! nat (GetIndex i)) i fd" "table_inv g1 (M(i \<mapsto> s))"
    using Server_AddSession_room[OF assms(1-3), of fd] by blast
  have t: "SessionGroup_GetSession g1 i = Inr (Some (GetIndex i))" "session_at g1 (GetIndex i) = Inr s"
    using table_get[OF a(3), of i s] by simp_all
  let ?srv1 = "srv\<lparr>mSessionGroup := Ptr g1\<rparr>"
  let ?before = "[SetNonBlock fd, SetSockOpt fd SOL_SOCKET TCP_NODELAY,
    EpollCtl (mSendPollFD srv) EPOLL_CTL_ADD fd (Some (NullJob, [EPOLLOUT, EPOLLONESHOT])),
    EpollCtl (mEpollFD srv) EPOLL_CTL_ADD fd (Some (RecvJobRef (GetIndex i), [EPOLLONESHOT, EPOLLIN, EPOLLET]))]"
  have one: "accept_one OnConnected (mEpollFD srv) srv fd = Inr (srv2, map Net ?before @ Net (CallOnConnected i) # es)"
    if "OnConnected i ?srv1 = Inr (srv2, es)" for srv2 es
    using a(1) t(1) that by (simp add: accept_one_def Server_GetSendPollFD_def Session_GetRecvJob_def)
  have "epoll_log (mEpollFD srv) ?before I
      = I(fd \<mapsto> \<lparr>reg_job = RecvJobRef (GetIndex i), reg_flags = [EPOLLONESHOT, EPOLLIN, EPOLLET], armed = True\<rparr>)"
    using assms(4-6) by simp
  then have report: "may_report [fd] (epoll_log (mEpollFD srv) ?before I)"
      "reported_jobs [fd] (epoll_log (mEpollFD srv) ?before I) = [RecvJobRef (GetIndex i)]"
    by (simp_all add: may_report_def reported_jobs_def sMAX_EVENTS_def)
  have fd: "mSessionFD s = fd" using a(2) by (simp add: Session_ctor_def)
  have "\<exists>s'. RecvJob_run ?srv1 (GetIndex i) OnRecv s [RecvData []] ok
      = Inr (s', [EpollCtl (mEpollFD srv) EPOLL_CTL_DEL fd None, CloseFD fd, CallOnDisconnected i])"
    using assms(4) a(2)
    by (simp add: RecvJob_run_def RecvJob_Execute.simps stop_receiving_def Session_ctor_def Session_Disconnect_def
        Session_GetSocketFD_def Session_SetReceiveState_def Server_GetEpollFD_def sINVALID_SOCKET_FD_def)
  then obtain s' where run: "RecvJob_run ?srv1 (GetIndex i) OnRecv s [RecvData []] ok
      = Inr (s', [EpollCtl (mEpollFD srv) EPOLL_CTL_DEL fd None, CloseFD fd, CallOnDisconnected i])" by blast
  show ?thesis
    by (intro exI[of _ i] exI[of _ ?srv1] exI[of _ g1] exI[of _ s] exI[of _ s'] exI[of _ ?before] conjI allI impI;
        (rule one report t(2) fd run)?; simp)
qed

theorem disconnect_before_connect_witness:
  "\<exists>i (srv1 :: Server) g1 s s'. mSessionGroup srv1 = Ptr g1 \<and> session_at g1 (GetIndex i) = Inr s
    \<and> RecvJob_run srv1 (GetIndex i) (\<lambda>i bs s. (0, s, [])) s [RecvData []] True
        = Inr (s', [EpollCtl 4 EPOLL_CTL_DEL 8 None, CloseFD 8, CallOnDisconnected i])"
proof -
  let ?g = "SessionGroup_ctor [session_ex, session_ex] 0"
  have g: "mSessionGroup server_ex = Ptr ?g" "table_inv ?g Map.empty" "int (card (dom Map.empty)) < mMaxSession ?g"
    using table_inv_ctor[of "[session_ex, session_ex]" 0] by (simp_all add: server_ex_def, simp add: SessionGroup_ctor_def)
  have p: "(0 :: int) \<le> 8" "Map.empty 8 = None" "mSendPollFD server_ex \<noteq> mEpollFD server_ex" by (simp_all add: server_ex_def)
  obtain i s s' g1 and srv1 :: Server where "mSessionGroup srv1 = Ptr g1" "session_at g1 (GetIndex i) = Inr s"
      "RecvJob_run srv1 (GetIndex i) (\<lambda>i bs s. (0, s, [])) s [RecvData []] True
        = Inr (s', [EpollCtl (mEpollFD server_ex) EPOLL_CTL_DEL 8 None, CloseFD 8, CallOnDisconnected i])"
    using disconnect_before_connect[OF g p, where OnConnected = "\<lambda>i srv. Inr (srv, [])"
        and OnRecv = "\<lambda>i bs s. (0, s, [])" and ok = True]
    by (elim exE conjE) (rule that)
  moreover have "mEpollFD server_ex = 4" by (simp add: server_ex_def)
  ultimately show ?thesis by (intro exI conjI) simp_all
qed

end
