(* ===== verification/Worker_Start.thy ===== *)
theory Worker_Start
  imports Worker_Pool
begin

text \<open>
  How the workers come to their contexts: \<^verbatim>\<open>WorkerThreadPool::Start\<close> creates thread \<open>i\<close> with a parameter that
  holds the pool and the index \<open>i\<close>, and \<^verbatim>\<open>WorkerThreadFunc\<close> runs \<^verbatim>\<open>PollEvents\<close> on the context at that index
  (\<^verbatim>\<open>src/src/lib-core/src/WorkerThreadPool.cpp\<close>).
\<close>

section \<open>The thread function\<close>

text \<open>The member \<^verbatim>\<open>mPool\<close> is the pool that the definitions below get as an argument.\<close>

record ThreadParameter =
  mIndex :: int

definition thread_parameter :: "nat \<Rightarrow> ThreadParameter" where
  "thread_parameter i = \<lparr>mIndex = to_int32 (int i)\<rparr>"

text \<open>The result is the context that the loop of the thread works with.\<close>

definition WorkerThreadFunc :: "'j WorkerThreadPool \<Rightarrow> ThreadParameter \<Rightarrow> ThreadContext cxx" where
  "WorkerThreadFunc p param =
     (if mIndex param < 0 \<or> int (length (mWorkerThreads p)) \<le> mIndex param then Inl OutOfBounds
      else Inr (mWorkerThreads p ! nat (mIndex param)))"

section \<open>The loop of Start\<close>

abbreviation blank :: ThreadContext where
  "blank \<equiv> \<lparr>mThreadHandle = 0, mEventFD = 0\<rparr>"

lemma start_threads_ok:
  "\<forall>j<n. snd (answers (i + j)) = 0 \<Longrightarrow> start_threads i (replicate n blank) answers
     = (True, map (\<lambda>j. \<lparr>mThreadHandle = j, mEventFD = fst (answers j)\<rparr>) [i..<i + n])"
proof (induction n arbitrary: i)
  case (Suc n)
  have "\<forall>j<n. snd (answers (Suc i + j)) = 0" using Suc.prems by (metis Suc_less_eq add_Suc add_Suc_right)
  from Suc.IH[OF this] Suc.prems[rule_format, of 0] show ?case
    by (simp add: upt_conv_Cons split_def Let_def del: upt_Suc)
qed simp

lemma start_threads_fails:
  "\<forall>j<k. snd (answers (i + j)) = 0 \<Longrightarrow> snd (answers (i + k)) \<noteq> 0 \<Longrightarrow>
     start_threads i (replicate (k + Suc m) blank) answers
     = (False, map (\<lambda>j. \<lparr>mThreadHandle = j, mEventFD = fst (answers j)\<rparr>) [i..<i + k]
         @ \<lparr>mThreadHandle = 0, mEventFD = fst (answers (i + k))\<rparr> # replicate m blank)"
proof (induction k arbitrary: i)
  case 0
  then show ?case by (simp add: split_def Let_def)
next
  case (Suc k)
  have "\<forall>j<k. snd (answers (Suc i + j)) = 0" "snd (answers (Suc i + k)) \<noteq> 0"
    using Suc.prems by (metis Suc_less_eq add_Suc add_Suc_right)+
  from Suc.IH[OF this] Suc.prems(1)[rule_format, of 0] show ?case
    by (simp add: upt_conv_Cons split_def Let_def del: upt_Suc)
qed

section \<open>Properties\<close>

text \<open>
  A pool that starts gives every worker a context of its own. If the creation of every thread
  succeeds and the event descriptors are different, \<^verbatim>\<open>Start\<close> returns true, and thread \<open>i\<close> polls, without
  leaving the vector, with the context that holds its own handle and the descriptor made for it; no two
  workers share a descriptor, so that a wake-up reaches the worker it is meant for.
\<close>

theorem worker_threads_start:
  assumes "\<forall>i<n. snd (answers i) = 0" and "inj_on (\<lambda>i. fst (answers i)) {..<n}" and "int n < 2 ^ 31"
  shows "\<exists>p. WorkerThreadPool_Start (WorkerThreadPool_ctor :: 'j WorkerThreadPool) n answers = (True, p)
    \<and> pool_mIsRunning p \<and> length (mWorkerThreads p) = n \<and> distinct (map mEventFD (mWorkerThreads p))
    \<and> (\<forall>i<n. WorkerThreadFunc p (thread_parameter i) = Inr \<lparr>mThreadHandle = i, mEventFD = fst (answers i)\<rparr>)"
proof -
  let ?threads = "map (\<lambda>j. \<lparr>mThreadHandle = j, mEventFD = fst (answers j)\<rparr>) [0..<n]"
  let ?p = "(WorkerThreadPool_ctor :: 'j WorkerThreadPool)\<lparr>pool_mIsRunning := True, mWorkerThreads := ?threads\<rparr>"
  have "WorkerThreadPool_Start WorkerThreadPool_ctor n answers = (True, ?p)"
    using start_threads_ok[of n answers 0] assms(1)
    by (simp add: WorkerThreadPool_Start_def WorkerThreadPool_ctor_def)
  moreover have "distinct (map mEventFD ?threads)"
    using assms(2) by (simp add: distinct_map comp_def inj_on_def)
  moreover have "WorkerThreadFunc ?p (thread_parameter i) = Inr \<lparr>mThreadHandle = i, mEventFD = fst (answers i)\<rparr>" if "i < n" for i
    using that assms(3) by (simp add: WorkerThreadFunc_def thread_parameter_def to_int32_id in_int32_def)
  ultimately show ?thesis by (intro exI[of _ ?p]) simp
qed

text \<open>
  A pool that fails to start is not safe to stop. If the creation of thread \<open>k\<close> fails, \<^verbatim>\<open>Start\<close> returns
  false and leaves the contexts of the threads it did not create in the vector; \<^verbatim>\<open>Stop\<close>, which \<^verbatim>\<open>Server::Stop\<close>
  calls because \<^verbatim>\<open>Server::Start\<close> does not look at the result, then writes to file descriptor 0 and joins the
  handle 0 for each thread after the \<open>k\<close>-th.
\<close>

theorem worker_start_failure:
  assumes "\<forall>i<k. snd (answers i) = 0" and "snd (answers k) \<noteq> 0"
  shows "\<exists>p. WorkerThreadPool_Start (WorkerThreadPool_ctor :: 'j WorkerThreadPool) (k + Suc m) answers = (False, p)
    \<and> snd (WorkerThreadPool_Stop p) = concat (map (\<lambda>i. [WriteEvent (fst (answers i)), Join i]) [0..<k])
        @ [WriteEvent (fst (answers k)), Join 0] @ concat (replicate m [WriteEvent 0, Join 0])"
  using start_threads_fails[of k answers 0 m] assms
  by (simp add: WorkerThreadPool_Start_def WorkerThreadPool_ctor_def WorkerThreadPool_Stop_def comp_def)

theorem worker_threads_start_witness:
  "\<exists>p. WorkerThreadPool_Start (WorkerThreadPool_ctor :: nat WorkerThreadPool) 2 (\<lambda>i. (int i + 10, 0)) = (True, p)
    \<and> WorkerThreadFunc p (thread_parameter 1) = Inr \<lparr>mThreadHandle = 1, mEventFD = 11\<rparr>"
proof -
  have "inj_on (\<lambda>i. fst (int i + 10, 0 :: int)) {..<2}" by (simp add: inj_on_def)
  from worker_threads_start[OF _ this, where 'j = nat] obtain p where
    p: "WorkerThreadPool_Start (WorkerThreadPool_ctor :: nat WorkerThreadPool) 2 (\<lambda>i. (int i + 10, 0)) = (True, p)"
      "\<forall>i<2. WorkerThreadFunc p (thread_parameter i) = Inr \<lparr>mThreadHandle = i, mEventFD = int i + 10\<rparr>" by auto
  from p(2)[rule_format, of 1] p(1) show ?thesis by simp
qed

theorem worker_start_failure_witness:
  "\<exists>p. WorkerThreadPool_Start (WorkerThreadPool_ctor :: nat WorkerThreadPool) 3 (\<lambda>i. (int i + 10, if i = 1 then 11 else 0)) = (False, p)
    \<and> snd (WorkerThreadPool_Stop p) = [WriteEvent 10, Join 0, WriteEvent 11, Join 0, WriteEvent 0, Join 0]"
  using worker_start_failure[of 1 "\<lambda>i. (int i + 10, if i = 1 then 11 else 0)" 1, where 'j = nat]
  by (simp add: numeral_3_eq_3)

end
