(* ===== verification/Job_Typing.thy ===== *)
theory Job_Typing
  imports Echo_Server
begin

text \<open>
  \<^verbatim>\<open>PollJob::Execute\<close> casts the pointer of every ready event to a job, and the workers run whatever is
  in the queue (\<^verbatim>\<open>src/src/lib-core/src/ServerJob.cpp\<close>, \<^verbatim>\<open>WorkerThreadPool.cpp\<close>). That these pointers are
  of jobs, and of jobs of sessions that exist, is a typing of the heap that the states of the running
  server keep.
\<close>

section \<open>Typing\<close>

definition session_of :: "reactor \<Rightarrow> int \<Rightarrow> Session option" where
  "session_of r k = (case mSessionGroup (rserver r) of
     Ptr g \<Rightarrow> (case session_at g k of Inr s \<Rightarrow> Some s | Inl _ \<Rightarrow> None) | _ \<Rightarrow> None)"

text \<open>
  A pointer is of a job if it is the poll job, the accept job, or the receive job of a slot that holds a
  session the application was told of.
\<close>

fun job_typed :: "reactor \<Rightarrow> job_ref \<Rightarrow> bool" where
  "job_typed r PollJobRef \<longleftrightarrow> True"
| "job_typed r AcceptJobRef \<longleftrightarrow> True"
| "job_typed r (RecvJobRef k) \<longleftrightarrow>
     (case session_of r k of Some s \<Rightarrow> mSessionID s \<in> set (issued r) \<and> GetIndex (mSessionID s) = k | None \<Rightarrow> False)"
| "job_typed r (SendJobRef k) \<longleftrightarrow> False"
| "job_typed r NullJob \<longleftrightarrow> False"

text \<open>A registration is of the accept job at the listening socket or of a receive job at the descriptor of its session.\<close>

definition registration_typed :: "reactor \<Rightarrow> int \<Rightarrow> job_ref \<Rightarrow> bool" where
  "registration_typed r fd j \<longleftrightarrow> job_typed r j \<and> 0 \<le> fd \<and>
     (case j of
        AcceptJobRef \<Rightarrow> fd = mListenFD (rserver r)
      | RecvJobRef k \<Rightarrow> map_option mSessionFD (session_of r k) = Some fd
      | _ \<Rightarrow> False)"

lemma session_of_live:
  assumes "mSessionGroup (rserver r) = Ptr g" and "table_inv g M" and "dom M = set (issued r)"
    and "session_fds g (issued r) k = Some fd"
  obtains s where "session_of r k = Some s" "mSessionFD s = fd" "mSessionID s \<in> set (issued r)" "GetIndex (mSessionID s) = k"
proof -
  obtain i s where s: "M i = Some s" "i \<in> set (issued r)" "GetIndex i = k" "mSessionFD s = fd"
    using session_fds_Some[OF assms(2) _ assms(4)] assms(3) by blast
  with table_get(2)[OF assms(2) s(1)] table_inv_live(5)[OF assms(2) s(1)] assms(1) that[of s] show ?thesis
    by (simp add: session_of_def)
qed

lemma placed_typed:
  assumes "mSessionGroup (rserver r) = Ptr g" and "table_inv g M" and "dom M = set (issued r)"
    and "count_ok (session_fds g (issued r)) c" and "0 < c j"
  shows "job_typed r j"
proof (cases j)
  case (RecvJobRef k)
  then obtain fd where "session_fds g (issued r) k = Some fd"
    using count_okD(1)[OF assms(4), of k] assms(5) by fastforce
  from session_of_live[OF assms(1-3) this] RecvJobRef show ?thesis by fastforce
qed (use assms(4,5) in \<open>simp_all add: count_ok_def\<close>)

section \<open>Properties\<close>

text \<open>
  C6. The pointers of the running echo server are well typed. In every state it can reach, every job in
  the queue, in the hands of a worker and registered with epoll is the poll job, the accept job, or the
  receive job of a slot that holds a session the application was told of, under an identifier of that
  slot; no null pointer is registered with the epoll instance that the poll job waits on; and a
  registration is of the accept job at the listening socket, or of a receive job at the descriptor that
  its own session holds. So the cast in \<^verbatim>\<open>PollJob::Execute\<close> always yields a job of the right session.
\<close>

theorem echo_server_jobs_typed:
  assumes "echo_start r0"
    and "reactor_reachable OnAccepeted TestServer_OnConnected TestServer_app stack r0 r"
    and "mWorkerThreadPool (rserver r) = Ptr p"
  shows "(\<forall>j\<in>set (mJobQueue p). job_typed r j) \<and> (\<forall>j. Some j \<in> set (running r) \<longrightarrow> job_typed r j)
    \<and> (\<forall>fd rg. interest r fd = Some rg \<longrightarrow> registration_typed r fd (reg_job rg))"
proof -
  have "reactor_inv r" using echo_reactor.reactor_invariant[OF assms(2) echo_start_inv(1)[OF assms(1)]] .
  then obtain g M where i: "mSessionGroup (rserver r) = Ptr g" "table_inv g M" "dom M = set (issued r)"
      "core_inv (mListenFD (rserver r)) (session_fds g (issued r)) (interest r) (mJobQueue p) (running r)"
    using reactor_invE assms(3) by (metis ptr.inject)
  have typed: "job_typed r j" if "places (mJobQueue p) (running r) (interest r) j \<noteq> 0" for j
    using placed_typed[OF i(1-3)] i(4) that by (auto simp: core_inv_def)
  have reg: "reg_ok (mListenFD (rserver r)) (session_fds g (issued r)) (interest r)" using i(4) by (simp add: core_inv_def)
  have "registration_typed r fd (reg_job rg)" if "interest r fd = Some rg" for fd rg
  proof -
    note ok = reg_okD(1)[OF reg that]
    then consider "fd = mListenFD (rserver r)" "reg_job rg = AcceptJobRef"
      | k where "reg_job rg = RecvJobRef k" "session_fds g (issued r) k = Some fd" "0 \<le> fd" by blast
    then show ?thesis
    proof cases
      case 1
      with ok show ?thesis by (simp add: registration_typed_def)
    next
      case 2
      from session_of_live[OF i(1-3) 2(2)] 2 show ?thesis by (fastforce simp: registration_typed_def)
    qed
  qed
  with typed show ?thesis by (auto simp: places_def count_list_0_iff)
qed

theorem echo_server_jobs_typed_witness:
  "\<exists>r s. reactor_reachable (\<lambda>_. True) TestServer_OnConnected TestServer_app (\<lambda>_. 0) reactor_ex r
    \<and> running r = [Some (RecvJobRef 0), None] \<and> session_of r 0 = Some s \<and> mSessionID s = make_session_id 0 0"
proof -
  obtain r where r: "reactor_reachable (\<lambda>_. True) TestServer_OnConnected TestServer_app (\<lambda>_. 0) reactor_ex r"
      "issued r = [make_session_id 0 0]" "running r = [Some (RecvJobRef 0), None]"
    by (rule reactor_ex_reachable)
  obtain p where p: "mWorkerThreadPool (rserver r) = Ptr p"
    using echo_reactor.reactor_invariant[OF r(1) echo_start_inv(1)[OF echo_start_ex]] reactor_invE by metis
  from echo_server_jobs_typed[OF echo_start_ex r(1) p] r(2,3) have "job_typed r (RecvJobRef 0)" by simp
  then obtain s where "session_of r 0 = Some s" "mSessionID s = make_session_id 0 0"
    using r(2) by (auto split: option.splits)
  with r show ?thesis by blast
qed

end
