(* ===== verification/Server_Workers.thy ===== *)
theory Server_Workers
  imports Server_Jobs
begin

text \<open>
  The worker pool in the use the server makes of it: \<^verbatim>\<open>Server::Start\<close> adds the poll job, and from then
  on every job is added by the worker that runs \<^verbatim>\<open>PollJob::Execute\<close> (\<^verbatim>\<open>src/src/lib-core/src/Server.cpp\<close>,
  \<^verbatim>\<open>ServerJob.cpp\<close>, \<^verbatim>\<open>WorkerThreadPool.cpp\<close>). The threads are interleaved at the steps of \<open>pool_exec\<close>,
  so several calls of \<^verbatim>\<open>AddJob\<close> may overlap.
\<close>

section \<open>The system\<close>

text \<open>
  Where a worker is in \<^verbatim>\<open>PollJob::Execute\<close>: in \<^verbatim>\<open>epoll_wait\<close>, or with these jobs still to add, the
  poll job itself being the last.
\<close>

datatype poll_phase = Waiting | Adding "job_ref list"

record server_sys =
  sp :: "job_ref pool_sys"
  phase :: "nat \<Rightarrow> poll_phase"

datatype server_event =
    MainAdd | Wake nat "job_ref pool_event" | Loop nat "job_ref pool_event"
  | Polled nat epoll_wait_answer | Add nat | Done nat

abbreviation workers :: "server_sys \<Rightarrow> nat" where
  "workers s \<equiv> length (mWorkerThreads (pool (sp s)))"

text \<open>
  The thread that called \<^verbatim>\<open>Server::Start\<close> has the number that follows those of the workers. \<open>Wake\<close> is a
  step of \<^verbatim>\<open>WakeOneThread\<close>, \<open>Loop\<close> one of \<^verbatim>\<open>PollEvents\<close> or \<^verbatim>\<open>Idle\<close>.
\<close>

fun server_exec :: "server_sys \<Rightarrow> server_event \<Rightarrow> server_sys option" where
  "server_exec s MainAdd =
     (if added (sp s) = []
      then map_option (\<lambda>p. s\<lparr>sp := p\<rparr>) (pool_exec (sp s) (AddPush (workers s) PollJobRef))
      else None)"
| "server_exec s (Wake a e) =
     (if e \<in> {WakeCheck a, WakeTake a, WakeWrite a} then map_option (\<lambda>p. s\<lparr>sp := p\<rparr>) (pool_exec (sp s) e) else None)"
| "server_exec s (Loop w e) =
     (if e \<in> {Pop w, IdlePush w, IdleRead w}
      then map_option (\<lambda>p. s\<lparr>sp := p, phase := (if e = Pop w \<and> wpc p w = WExec PollJobRef then (phase s)(w := Waiting) else phase s)\<rparr>)
             (pool_exec (sp s) e)
      else None)"
| "server_exec s (Polled w answer) =
     (if wpc (sp s) w = WExec PollJobRef \<and> phase s w = Waiting \<and> PollJobRef \<notin> set (ready_jobs answer)
         \<and> int (length (ready_jobs answer)) \<le> sMAX_EVENTS
      then Some (s\<lparr>phase := (phase s)(w := Adding (ready_jobs answer @ [PollJobRef]))\<rparr>)
      else None)"
| "server_exec s (Add w) =
     (case phase s w of
        Adding (j # js) \<Rightarrow>
          if wpc (sp s) w = WExec PollJobRef
          then map_option (\<lambda>p. s\<lparr>sp := p, phase := (phase s)(w := Adding js)\<rparr>) (pool_exec (sp s) (AddPush w j))
          else None
      | _ \<Rightarrow> None)"
| "server_exec s (Done w) =
     (if wpc (sp s) w = WExec PollJobRef \<and> (phase s w \<noteq> Adding [] \<or> apc (sp s) w \<noteq> AOut) then None
      else map_option (\<lambda>p. s\<lparr>sp := p\<rparr>) (pool_exec (sp s) (ExecDone w)))"

fun server_schedule :: "server_sys \<Rightarrow> server_event list \<Rightarrow> server_sys option" where
  "server_schedule s [] = Some s"
| "server_schedule s (e # es) = (case server_exec s e of None \<Rightarrow> None | Some t \<Rightarrow> server_schedule t es)"

text \<open>The pool has been started; the poll job has not been added yet.\<close>

definition server_init :: "ThreadContext list \<Rightarrow> server_sys" where
  "server_init threads = \<lparr>sp = pool_init threads, phase = (\<lambda>_. Waiting)\<rparr>"

inductive server_reachable :: "server_sys \<Rightarrow> server_sys \<Rightarrow> bool" for s0 where
  start: "server_reachable s0 s0"
| step: "server_reachable s0 s \<Longrightarrow> server_exec s e = Some t \<Longrightarrow> server_reachable s0 t"

lemma server_reachable_schedule:
  "server_reachable s0 s \<Longrightarrow> server_schedule s es = Some t \<Longrightarrow> server_reachable s0 t"
  by (induction es arbitrary: s) (auto split: option.splits intro: server_reachable.step)

text \<open>Every step is a step of the pool, or an answer of \<^verbatim>\<open>epoll_wait\<close>, which leaves the pool alone.\<close>

lemma server_exec_pool:
  "server_exec s e = Some t \<Longrightarrow> sp t = sp s \<or> (\<exists>e'. pool_exec (sp s) e' = Some (sp t) \<and> e' \<noteq> StopFlag)"
  by (cases e) (auto simp del: pool_exec.simps split: if_splits poll_phase.splits list.splits)

lemma server_reachable_pool:
  assumes "server_reachable (server_init threads) s"
  shows "pool_reachable threads (sp s)" and "pool_mIsRunning (pool (sp s))"
proof -
  have run: "pool_mIsRunning (pool t)" if "pool_exec s' e = Some t" "e \<noteq> StopFlag" "pool_mIsRunning (pool s')"
    for s' t :: "job_ref pool_sys" and e
    using that by (cases e) (auto simp: pool_defs split: if_splits list.splits worker_pc.splits adder_pc.splits)
  have "pool_reachable threads (sp s) \<and> pool_mIsRunning (pool (sp s))" using assms
  proof (induction rule: server_reachable.induct)
    case start
    show ?case using pool_reachable.init[of threads] by (simp add: server_init_def) (simp add: pool_init_def)
  next
    case (step s e t)
    with server_exec_pool[OF step.hyps(2)] run show ?case by (metis pool_reachable.step)
  qed
  then show "pool_reachable threads (sp s)" "pool_mIsRunning (pool (sp s))" by auto
qed

section \<open>Where the poll job is\<close>

text \<open>A worker holds the poll job from taking it off the queue to putting it back.\<close>

definition holders :: "server_sys \<Rightarrow> nat set" where
  "holders s = {w. wpc (sp s) w = WExec PollJobRef \<and> phase s w \<noteq> Adding []}"

definition in_hand :: "job_ref list \<Rightarrow> poll_phase \<Rightarrow> bool" where
  "in_hand queue ph \<longleftrightarrow> (case ph of Waiting \<Rightarrow> queue = [] | Adding js \<Rightarrow> \<exists>ks. js = ks @ [PollJobRef] \<and> PollJobRef \<notin> set ks)"

definition poll_place :: "server_sys \<Rightarrow> bool" where
  "poll_place s \<longleftrightarrow>
     (\<exists>js. mJobQueue (pool (sp s)) = js @ [PollJobRef] \<and> PollJobRef \<notin> set js \<and> holders s = {})
     \<or> PollJobRef \<notin> set (mJobQueue (pool (sp s))) \<and> (\<exists>w. holders s = {w} \<and> in_hand (mJobQueue (pool (sp s))) (phase s w))"

text \<open>A thread is inside \<^verbatim>\<open>AddJob\<close> only where the code calls it.\<close>

definition callers_inv :: "server_sys \<Rightarrow> bool" where
  "callers_inv s \<longleftrightarrow>
     (\<forall>a. apc (sp s) a \<noteq> AOut \<longrightarrow> a = workers s \<or> wpc (sp s) a = WExec PollJobRef \<and> phase s a \<noteq> Waiting)
   \<and> (\<forall>w. wpc (sp s) w \<noteq> WLoop \<longrightarrow> w < workers s)
   \<and> (added (sp s) = [] \<longrightarrow> mJobQueue (pool (sp s)) = [] \<and> popped (sp s) = [] \<and> (\<forall>w j. wpc (sp s) w \<noteq> WExec j))"

lemma poll_place_cong:
  assumes "mJobQueue (pool (sp t)) = mJobQueue (pool (sp s))" and "holders t = holders s"
    and "\<And>w. w \<in> holders s \<Longrightarrow> phase t w = phase s w"
  shows "poll_place t = poll_place s"
proof -
  have "(holders s = {w} \<and> in_hand (mJobQueue (pool (sp s))) (phase t w)) = (holders s = {w} \<and> in_hand (mJobQueue (pool (sp s))) (phase s w))" for w
    using assms(3)[of w] by (cases "holders s = {w}") simp_all
  then show ?thesis by (simp add: poll_place_def assms(1,2))
qed

lemma Wake_pool:
  assumes "server_exec s (Wake a e) = Some t"
  shows "phase t = phase s" "wpc (sp t) = wpc (sp s)" "mJobQueue (pool (sp t)) = mJobQueue (pool (sp s))"
    "added (sp t) = added (sp s)" "popped (sp t) = popped (sp s)" "workers t = workers s"
    "apc (sp t) b \<noteq> AOut \<Longrightarrow> apc (sp s) b \<noteq> AOut"
proof -
  obtain p where t: "t = s\<lparr>sp := p\<rparr>" and e: "pool_exec (sp s) e = Some p" "e \<in> {WakeCheck a, WakeTake a, WakeWrite a}"
    using assms unfolding server_exec.simps by (metis (no_types, lifting) map_option_eq_Some option.distinct(1))
  have "wpc p = wpc (sp s) \<and> mJobQueue (pool p) = mJobQueue (pool (sp s)) \<and> added p = added (sp s) \<and> popped p = popped (sp s)
    \<and> mWorkerThreads (pool p) = mWorkerThreads (pool (sp s)) \<and> (apc p b \<noteq> AOut \<longrightarrow> apc (sp s) b \<noteq> AOut)"
    using e by (auto simp: take_idle_def split: if_splits list.splits adder_pc.splits)
  then show "phase t = phase s" "wpc (sp t) = wpc (sp s)" "mJobQueue (pool (sp t)) = mJobQueue (pool (sp s))"
    "added (sp t) = added (sp s)" "popped (sp t) = popped (sp s)" "workers t = workers s"
    "apc (sp t) b \<noteq> AOut \<Longrightarrow> apc (sp s) b \<noteq> AOut"
    by (simp_all add: t)
qed

lemma Idle_pool:
  assumes "server_exec s (Loop w e) = Some t" and "e \<in> {IdlePush w, IdleRead w}"
  shows "phase t = phase s" "mJobQueue (pool (sp t)) = mJobQueue (pool (sp s))" "apc (sp t) = apc (sp s)"
    "added (sp t) = added (sp s)" "popped (sp t) = popped (sp s)" "workers t = workers s" "crashed (sp t) = crashed (sp s)"
    "wpc (sp t) v = WExec j \<longleftrightarrow> wpc (sp s) v = WExec j" "wpc (sp t) v \<noteq> WLoop \<Longrightarrow> wpc (sp s) v \<noteq> WLoop"
    "wpc (sp s) v = WLoop \<Longrightarrow> wpc (sp t) v = WLoop"
proof -
  obtain p where t: "t = s\<lparr>sp := p\<rparr>" and e: "pool_exec (sp s) e = Some p"
    using assms by (cases s) (auto simp del: pool_exec.simps split: if_splits)
  have "mJobQueue (pool p) = mJobQueue (pool (sp s)) \<and> apc p = apc (sp s) \<and> added p = added (sp s) \<and> popped p = popped (sp s)
    \<and> mWorkerThreads (pool p) = mWorkerThreads (pool (sp s)) \<and> crashed p = crashed (sp s)
    \<and> (wpc p v = WExec j \<longleftrightarrow> wpc (sp s) v = WExec j) \<and> (wpc p v \<noteq> WLoop \<longrightarrow> wpc (sp s) v \<noteq> WLoop)
    \<and> (wpc (sp s) v = WLoop \<longrightarrow> wpc p v = WLoop)"
    using e assms(2) by (auto simp: push_idle_def split: if_splits)
  then show "phase t = phase s" "mJobQueue (pool (sp t)) = mJobQueue (pool (sp s))" "apc (sp t) = apc (sp s)"
    "added (sp t) = added (sp s)" "popped (sp t) = popped (sp s)" "workers t = workers s" "crashed (sp t) = crashed (sp s)"
    "wpc (sp t) v = WExec j \<longleftrightarrow> wpc (sp s) v = WExec j" "wpc (sp t) v \<noteq> WLoop \<Longrightarrow> wpc (sp s) v \<noteq> WLoop"
    "wpc (sp s) v = WLoop \<Longrightarrow> wpc (sp t) v = WLoop"
    by (simp_all add: t)
qed

lemma Pop_cases:
  assumes "server_exec s (Loop w (Pop w)) = Some t" and "pool_mIsRunning (pool (sp s))"
  obtains (empty) "mJobQueue (pool (sp s)) = []" "w < workers s" "wpc (sp s) w = WLoop"
      "t = s\<lparr>sp := (sp s)\<lparr>wpc := (wpc (sp s))(w := WNull)\<rparr>\<rparr>"
    | (job) j q where "mJobQueue (pool (sp s)) = j # q" "w < workers s" "wpc (sp s) w = WLoop"
      "t = s\<lparr>sp := (sp s)\<lparr>pool := (pool (sp s))\<lparr>mJobQueue := q\<rparr>, wpc := (wpc (sp s))(w := WExec j), popped := popped (sp s) @ [j]\<rparr>,
             phase := (if j = PollJobRef then (phase s)(w := Waiting) else phase s)\<rparr>"
proof (cases "mJobQueue (pool (sp s))")
  case Nil
  show ?thesis
    by (rule empty) (use assms Nil in \<open>cases s; auto simp: pool_defs split: if_splits\<close>)+
next
  case (Cons j q)
  show ?thesis
    by (rule job[OF Cons]) (use assms Cons in \<open>cases s; auto simp: pool_defs split: if_splits\<close>)+
qed

lemma Done_cases:
  assumes "server_exec s (Done w) = Some t"
  obtains j where "wpc (sp s) w = WExec j" "t = s\<lparr>sp := (sp s)\<lparr>wpc := (wpc (sp s))(w := WLoop)\<rparr>\<rparr>"
    "j = PollJobRef \<Longrightarrow> phase s w = Adding [] \<and> apc (sp s) w = AOut"
  using assms by (auto split: if_splits worker_pc.splits)

lemma Add_cases:
  assumes "server_exec s (Add w) = Some t"
  obtains j js where "phase s w = Adding (j # js)" "wpc (sp s) w = WExec PollJobRef" "apc (sp s) w = AOut"
    "t = s\<lparr>sp := (sp s)\<lparr>pool := push_job (pool (sp s)) j, apc := (apc (sp s))(w := ACheck), added := added (sp s) @ [j]\<rparr>,
           phase := (phase s)(w := Adding js)\<rparr>"
  using assms by (auto split: if_splits poll_phase.splits list.splits)

lemma Polled_cases:
  assumes "server_exec s (Polled w answer) = Some t"
  obtains "wpc (sp s) w = WExec PollJobRef" "phase s w = Waiting" "PollJobRef \<notin> set (ready_jobs answer)"
    "t = s\<lparr>phase := (phase s)(w := Adding (ready_jobs answer @ [PollJobRef]))\<rparr>"
  using assms by (auto split: if_splits)

lemma MainAdd_cases:
  assumes "server_exec s MainAdd = Some t"
  obtains "added (sp s) = []" "apc (sp s) (workers s) = AOut"
    "t = s\<lparr>sp := (sp s)\<lparr>pool := push_job (pool (sp s)) PollJobRef, apc := (apc (sp s))(workers s := ACheck), added := [PollJobRef]\<rparr>\<rparr>"
  using assms by (auto split: if_splits)

declare server_exec.simps [simp del]

lemma Loop_cases:
  assumes "server_exec s (Loop w e) = Some t"
  obtains "e = Pop w" | "e \<in> {IdlePush w, IdleRead w}"
  using assms by (auto simp: server_exec.simps split: if_splits)

lemma server_exec_callers:
  assumes "server_exec s e = Some t" and "callers_inv s" and "pool_mIsRunning (pool (sp s))"
  shows "callers_inv t"
proof (cases e)
  case (Wake a e')
  with Wake_pool[of s a e' t] assms(1,2) show ?thesis by (auto simp: callers_inv_def)
next
  case (Loop w e')
  with assms(1) have step: "server_exec s (Loop w e') = Some t" by simp
  then show ?thesis
  proof (cases rule: Loop_cases)
    case 1
    with step have "server_exec s (Loop w (Pop w)) = Some t" by simp
    from this assms(3) show ?thesis by (cases rule: Pop_cases) (use assms(2) in \<open>auto simp: callers_inv_def\<close>)
  next
    case 2
    with Idle_pool[OF step 2] assms(2) show ?thesis by (auto simp: callers_inv_def)
  qed
next
  case (Done w)
  with assms(1) have "server_exec s (Done w) = Some t" by simp
  then show ?thesis by (cases rule: Done_cases) (use assms(2) in \<open>auto simp: callers_inv_def\<close>)
next
  case (Polled w answer)
  with assms(1,2) show ?thesis by (auto elim!: Polled_cases simp: callers_inv_def split: if_splits)
next
  case (Add w)
  with assms(1,2) show ?thesis by (auto elim!: Add_cases simp: callers_inv_def push_job_def split: if_splits)
next
  case MainAdd
  with assms(1,2) show ?thesis by (auto elim!: MainAdd_cases simp: callers_inv_def push_job_def)
qed

lemma poll_place_held: "poll_place s \<Longrightarrow> w \<in> holders s \<Longrightarrow>
    PollJobRef \<notin> set (mJobQueue (pool (sp s))) \<and> holders s = {w} \<and> in_hand (mJobQueue (pool (sp s))) (phase s w)"
  by (auto simp: poll_place_def)

lemma poll_place_queued: "poll_place s \<Longrightarrow> holders s = {} \<Longrightarrow>
    \<exists>js. mJobQueue (pool (sp s)) = js @ [PollJobRef] \<and> PollJobRef \<notin> set js"
  by (auto simp: poll_place_def)

lemma server_pop_place:
  assumes "poll_place s" and "mJobQueue (pool (sp s)) = j # q" and "wpc (sp s) w = WLoop"
    and t: "t = s\<lparr>sp := (sp s)\<lparr>pool := (pool (sp s))\<lparr>mJobQueue := q\<rparr>, wpc := (wpc (sp s))(w := WExec j), popped := popped (sp s) @ [j]\<rparr>,
             phase := (if j = PollJobRef then (phase s)(w := Waiting) else phase s)\<rparr>"
  shows "poll_place t"
proof (cases "holders s = {}")
  case True
  from poll_place_queued[OF assms(1) True] assms(2) obtain js where js: "j # q = js @ [PollJobRef]" "PollJobRef \<notin> set js" by auto
  show ?thesis
  proof (cases js)
    case Nil
    with js t True have "holders t = {w}" "phase t w = Waiting" "mJobQueue (pool (sp t)) = []" by (auto simp: holders_def)
    then show ?thesis by (simp add: poll_place_def in_hand_def)
  next
    case (Cons k ks)
    with js t True have "holders t = {}" "mJobQueue (pool (sp t)) = ks @ [PollJobRef]" "PollJobRef \<notin> set ks"
      by (auto simp: holders_def)
    then show ?thesis by (simp add: poll_place_def)
  qed
next
  case False
  then obtain v where vin: "v \<in> holders s" by auto
  from poll_place_held[OF assms(1) this] assms(2) have
    v: "PollJobRef \<notin> set (j # q)" "holders s = {v}" "in_hand (j # q) (phase s v)" by auto
  have "holders t = holders s" using t assms(3) v(1) by (auto simp: holders_def)
  with v(2) have "holders t = {v}" by simp
  moreover have "phase t v = phase s v" using t v(1) by auto
  then have "in_hand q (phase t v)" using v(3) by (simp add: in_hand_def split: poll_phase.splits)
  ultimately show ?thesis using v(1) t by (simp add: poll_place_def)
qed

lemma server_add_place:
  assumes "poll_place s" and "phase s w = Adding (j # js)" and "wpc (sp s) w = WExec PollJobRef"
    and t: "t = s\<lparr>sp := (sp s)\<lparr>pool := push_job (pool (sp s)) j, apc := (apc (sp s))(w := ACheck), added := added (sp s) @ [j]\<rparr>,
           phase := (phase s)(w := Adding js)\<rparr>"
  shows "poll_place t"
proof -
  have "w \<in> holders s" using assms(2,3) by (simp add: holders_def)
  from poll_place_held[OF assms(1) this] assms(2) obtain ks where
    ks: "PollJobRef \<notin> set (mJobQueue (pool (sp s)))" "holders s = {w}" "j # js = ks @ [PollJobRef]" "PollJobRef \<notin> set ks"
    by (auto simp: in_hand_def)
  show ?thesis
  proof (cases ks)
    case Nil
    with ks t have "holders t = {}" "mJobQueue (pool (sp t)) = mJobQueue (pool (sp s)) @ [PollJobRef]"
      by (auto simp: holders_def push_job_def)
    with ks(1) show ?thesis by (simp add: poll_place_def)
  next
    case (Cons k ls)
    with ks assms(3) t have "holders t = {w}" "phase t w = Adding (ls @ [PollJobRef])"
        "PollJobRef \<notin> set ls" "PollJobRef \<notin> set (mJobQueue (pool (sp t)))"
      by (auto simp: holders_def push_job_def)
    then show ?thesis by (simp add: poll_place_def in_hand_def)
  qed
qed

lemma server_exec_place:
  assumes ex: "server_exec s e = Some t" and inv: "callers_inv s" and run: "pool_mIsRunning (pool (sp s))"
    and place: "added (sp s) \<noteq> [] \<Longrightarrow> poll_place s" and added: "added (sp t) \<noteq> []"
  shows "poll_place t"
proof (cases e)
  case (Wake a e')
  with Wake_pool[of s a e' t] ex place added poll_place_cong[of t s] show ?thesis by (simp add: holders_def)
next
  case (Loop w e')
  with ex have step: "server_exec s (Loop w e') = Some t" by simp
  then show ?thesis
  proof (cases rule: Loop_cases)
    case 1
    with step have "server_exec s (Loop w (Pop w)) = Some t" by simp
    from this run show ?thesis
    proof (cases rule: Pop_cases)
      case empty
      then have "poll_place t = poll_place s" by (intro poll_place_cong) (auto simp: holders_def)
      with place added empty show ?thesis by simp
    next
      case (job j q)
      with server_pop_place[OF _ job(1,3,4)] place added show ?thesis by simp
    qed
  next
    case 2
    from Idle_pool[OF step 2] place added poll_place_cong[of t s] show ?thesis by (simp add: holders_def)
  qed
next
  case (Done w)
  with ex have "server_exec s (Done w) = Some t" by simp
  then show ?thesis
  proof (cases rule: Done_cases)
    case (1 j)
    then have "poll_place t = poll_place s" by (intro poll_place_cong) (auto simp: holders_def)
    with place added 1 show ?thesis by simp
  qed
next
  case (Polled w answer)
  with ex have "server_exec s (Polled w answer) = Some t" by simp
  then show ?thesis
  proof (cases rule: Polled_cases)
    case 1
    then have w: "w \<in> holders s" by (simp add: holders_def)
    from 1 place added have "poll_place s" by simp
    note held = poll_place_held[OF this w]
    have "holders t = holders s" using 1 by (auto simp: holders_def)
    with held 1 show ?thesis by (simp add: poll_place_def in_hand_def)
  qed
next
  case (Add w)
  with ex have "server_exec s (Add w) = Some t" by simp
  then show ?thesis
  proof (cases rule: Add_cases)
    case (1 j js)
    then have "added (sp s) \<noteq> []" using inv by (auto simp: callers_inv_def)
    from server_add_place[OF place[OF this] 1(1,2,4)] show ?thesis .
  qed
next
  case MainAdd
  with ex have "server_exec s MainAdd = Some t" by simp
  then show ?thesis
  proof (cases rule: MainAdd_cases)
    case 1
    with inv have "mJobQueue (pool (sp t)) = [PollJobRef]" "holders t = {}"
      by (auto simp: callers_inv_def holders_def push_job_def)
    then show ?thesis by (simp add: poll_place_def)
  qed
qed

text \<open>
  A worker is awake if it is about to look at the queue or runs a job. Once the poll job has been
  taken for the first time, jobs are added only by a worker, and no worker falls asleep but after it
  found the queue empty.
\<close>

definition awake :: "server_sys \<Rightarrow> nat \<Rightarrow> bool" where
  "awake s w \<longleftrightarrow> w < workers s \<and> (wpc (sp s) w = WLoop \<or> (\<exists>j. wpc (sp s) w = WExec j))"

definition awake_inv :: "server_sys \<Rightarrow> bool" where
  "awake_inv s \<longleftrightarrow> (popped (sp s) \<noteq> [] \<longrightarrow> mJobQueue (pool (sp s)) \<noteq> [] \<longrightarrow> (\<exists>w. awake s w))"

lemma server_exec_awake:
  assumes ex: "server_exec s e = Some t" and inv: "callers_inv s" and run: "pool_mIsRunning (pool (sp s))"
    and aw: "awake_inv s"
  shows "awake_inv t"
proof (cases e)
  case (Wake a e')
  with Wake_pool[of s a e' t] ex aw show ?thesis by (simp add: awake_inv_def awake_def)
next
  case (Loop w e')
  from ex Loop have step: "server_exec s (Loop w e') = Some t" by simp
  then show ?thesis
  proof (cases rule: Loop_cases)
    case 1
    with step have "server_exec s (Loop w (Pop w)) = Some t" by simp
    from this run show ?thesis by (cases rule: Pop_cases) (auto simp: awake_inv_def awake_def intro!: exI[of _ w])
  next
    case 2
    from Idle_pool(2,5,6,8,10)[OF step 2] aw show ?thesis by (simp add: awake_inv_def awake_def) blast
  qed
next
  case (Done w)
  from ex Done have "server_exec s (Done w) = Some t" by simp
  then show ?thesis using inv by (cases rule: Done_cases) (auto simp: awake_inv_def awake_def callers_inv_def intro!: exI[of _ w])
next
  case (Polled w answer)
  from ex Polled have "server_exec s (Polled w answer) = Some t" by simp
  then show ?thesis using aw by (cases rule: Polled_cases) (auto simp: awake_inv_def awake_def)
next
  case (Add w)
  from ex Add have "server_exec s (Add w) = Some t" by simp
  then show ?thesis using inv
    by (cases rule: Add_cases) (auto simp: awake_inv_def awake_def callers_inv_def push_job_def intro!: exI[of _ w])
next
  case MainAdd
  from ex MainAdd have "server_exec s MainAdd = Some t" by simp
  then show ?thesis using inv by (cases rule: MainAdd_cases) (auto simp: awake_inv_def callers_inv_def)
qed

lemma server_reachable_invs:
  assumes "server_reachable (server_init threads) s"
  shows "callers_inv s \<and> (added (sp s) \<noteq> [] \<longrightarrow> poll_place s) \<and> awake_inv s"
  using assms
proof (induction rule: server_reachable.induct)
  case start
  show ?case by (simp add: callers_inv_def awake_inv_def server_init_def pool_init_def)
next
  case (step s e t)
  with server_exec_callers[OF step.hyps(2)] server_exec_place[OF step.hyps(2)] server_exec_awake[OF step.hyps(2)]
    server_reachable_pool(2)[OF step.hyps(1)] show ?case by blast
qed

lemma server_step_enabled:
  assumes "callers_inv s" and "added (sp s) \<noteq> [] \<longrightarrow> poll_place s" and "awake_inv s" and "pool_mIsRunning (pool (sp s))"
    and "popped (sp s) \<noteq> []" and "mJobQueue (pool (sp s)) \<noteq> []"
  shows "\<exists>w e. w < workers s \<and> e \<in> {Wake w (WakeCheck w), Wake w (WakeTake w), Wake w (WakeWrite w), Loop w (Pop w), Add w, Done w}
    \<and> server_exec s e \<noteq> None"
proof -
  from assms(3,5,6) obtain w where w: "awake s w" by (auto simp: awake_inv_def)
  then consider (loop) "wpc (sp s) w = WLoop" | (job) j where "wpc (sp s) w = WExec j" "j \<noteq> PollJobRef"
    | (poll) "wpc (sp s) w = WExec PollJobRef" by (auto simp: awake_def)
  then have "\<exists>e\<in>{Wake w (WakeCheck w), Wake w (WakeTake w), Wake w (WakeWrite w), Loop w (Pop w), Add w, Done w}. server_exec s e \<noteq> None"
  proof cases
    case loop
    with w assms(4,6) have "server_exec s (Loop w (Pop w)) \<noteq> None"
      by (auto simp: server_exec.simps awake_def pool_defs split: list.splits)
    then show ?thesis by simp
  next
    case job
    then have "server_exec s (Done w) \<noteq> None" by (simp add: server_exec.simps)
    then show ?thesis by simp
  next
    case poll
    have "added (sp s) \<noteq> []" using assms(1) poll by (auto simp: callers_inv_def)
    then have place: "poll_place s" using assms(2) by simp
    have "phase s w \<noteq> Waiting"
      using poll_place_held[OF place, of w] poll assms(6) by (auto simp: holders_def in_hand_def)
    then obtain js where js: "phase s w = Adding js" by (cases "phase s w") auto
    show ?thesis
    proof (cases "apc (sp s) w")
      case AOut
      with poll js show ?thesis by (cases js) (simp_all add: server_exec.simps)
    next
      case ALocked
      then have "server_exec s (Wake w (WakeTake w)) \<noteq> None" by (simp add: server_exec.simps take_idle_def split: list.splits)
      then show ?thesis by simp
    qed (simp_all add: server_exec.simps)
  qed
  with w show ?thesis by (auto simp: awake_def)
qed

lemma server_schedule_append:
  "server_schedule s (xs @ ys) = (case server_schedule s xs of None \<Rightarrow> None | Some t \<Rightarrow> server_schedule t ys)"
  by (induction xs arbitrary: s) (auto split: option.splits)

text \<open>All workers look at the empty queue, the poll job is added, and the workers fall asleep.\<close>

definition before_idle :: "ThreadContext list \<Rightarrow> nat \<Rightarrow> server_sys" where
  "before_idle threads k = \<lparr>sp = (pool_init threads)\<lparr>wpc := (\<lambda>w. if w < k then WNull else WLoop)\<rparr>, phase = (\<lambda>_. Waiting)\<rparr>"

definition falling_asleep :: "ThreadContext list \<Rightarrow> nat \<Rightarrow> server_sys" where
  "falling_asleep threads k = \<lparr>sp = (pool_init threads)\<lparr>
     pool := \<lparr>pool_mIsRunning = True, mWorkerThreads = threads, mIdleThreads = rev (take k threads), mJobQueue = [PollJobRef]\<rparr>,
     wpc := (\<lambda>w. if w < k then WRead else if w < length threads then WNull else WLoop), added := [PollJobRef]\<rparr>, phase = (\<lambda>_. Waiting)\<rparr>"

lemma pops_empty:
  "k \<le> length threads \<Longrightarrow> server_schedule (server_init threads) (map (\<lambda>w. Loop w (Pop w)) [0..<k]) = Some (before_idle threads k)"
proof (induction k)
  case 0
  show ?case by (simp add: server_init_def before_idle_def pool_init_def)
next
  case (Suc k)
  then show ?case
    by (simp add: server_schedule_append server_exec.simps before_idle_def pool_init_def pool_defs fun_eq_iff less_Suc_eq)
qed

lemma pushes_idle:
  "k \<le> length threads \<Longrightarrow> server_schedule (falling_asleep threads 0) (map (\<lambda>w. Loop w (IdlePush w)) [0..<k]) = Some (falling_asleep threads k)"
proof (induction k)
  case (Suc k)
  then show ?case
    by (simp add: server_schedule_append server_exec.simps falling_asleep_def pool_init_def pool_defs fun_eq_iff less_Suc_eq
        context_of_def take_Suc_conv_app_nth)
qed simp

lemma falling_asleep_reachable: "server_reachable (server_init threads) (falling_asleep threads (length threads))"
proof -
  let ?n = "length threads"
  have "server_schedule (before_idle threads ?n) [MainAdd, Wake ?n (WakeCheck ?n)] = Some (falling_asleep threads 0)"
    by (simp add: server_exec.simps before_idle_def falling_asleep_def pool_init_def push_job_def fun_eq_iff)
  with pops_empty[of ?n threads] pushes_idle[of ?n threads]
  have "server_schedule (server_init threads) (map (\<lambda>w. Loop w (Pop w)) [0..<?n] @ [MainAdd, Wake ?n (WakeCheck ?n)]
      @ map (\<lambda>w. Loop w (IdlePush w)) [0..<?n]) = Some (falling_asleep threads ?n)"
    by (simp only: server_schedule_append option.case)
  from server_reachable_schedule[OF server_reachable.start this] show ?thesis .
qed

text \<open>Outside \<^verbatim>\<open>Start\<close>, two overlapping calls of \<^verbatim>\<open>AddJob\<close> need two workers, and a thread to wake a third.\<close>

definition lock_inv :: "server_sys \<Rightarrow> bool" where
  "lock_inv s \<longleftrightarrow> \<not> crashed (sp s) \<and> added (sp s) \<noteq> [] \<and> apc (sp s) (workers s) = AOut
     \<and> (\<forall>a. apc (sp s) a = ALocked \<longrightarrow> mIdleThreads (pool (sp s)) \<noteq> [])"

lemma idle_asleep:
  assumes "token_inv (sp s)" and "pool_mIsRunning (pool (sp s))" and "w < workers s" and "wpc (sp s) w \<noteq> WRead"
  shows "context_of (sp s) w \<notin> set (mIdleThreads (pool (sp s)))"
  using assms by (auto simp: token_inv_def tokens_def count_list_0_iff)

lemma locked_worker:
  assumes "lock_inv s" and "callers_inv s" and "apc (sp s) a = ALocked"
  shows "a < workers s \<and> wpc (sp s) a \<noteq> WRead"
proof -
  have "a \<noteq> workers s" "apc (sp s) a \<noteq> AOut" using assms(1,3) by (auto simp: lock_inv_def)
  with assms(2) have w: "wpc (sp s) a = WExec PollJobRef" unfolding callers_inv_def by blast
  then have "wpc (sp s) a \<noteq> WLoop" by simp
  with assms(2) w show ?thesis unfolding callers_inv_def by auto
qed

lemma server_exec_lock:
  assumes ex: "server_exec s e = Some t" and lock: "lock_inv s" and callers: "callers_inv s"
    and tokens: "token_inv (sp s)" "contexts_inv (sp s)" and run: "pool_mIsRunning (pool (sp s))" and two: "workers s \<le> 2"
  shows "lock_inv t"
proof (cases e)
  case (Wake a e')
  with ex obtain p where t: "t = s\<lparr>sp := p\<rparr>" and e: "pool_exec (sp s) e' = Some p" "e' \<in> {WakeCheck a, WakeTake a, WakeWrite a}"
    unfolding server_exec.simps by (metis (no_types, lifting) map_option_eq_Some option.distinct(1) server_exec.simps(2))
  show ?thesis
  proof (cases "e' = WakeTake a")
    case True
    with e(1) have a: "apc (sp s) a = ALocked" by (auto split: if_splits)
    then obtain c cs where cs: "mIdleThreads (pool (sp s)) = c # cs" using lock by (auto simp: lock_inv_def neq_Nil_conv)
    have sole: "b = a" if b: "apc (sp s) b = ALocked" for b
    proof (rule ccontr)
      assume "b \<noteq> a"
      have lt: "a < workers s" "b < workers s" and nr: "wpc (sp s) a \<noteq> WRead" "wpc (sp s) b \<noteq> WRead"
        using locked_worker[OF lock callers a] locked_worker[OF lock callers b] by auto
      then have "set (mWorkerThreads (pool (sp s))) \<subseteq> {context_of (sp s) a, context_of (sp s) b}"
        using two \<open>b \<noteq> a\<close> by (auto simp: in_set_conv_nth context_of_def) (metis le_neq_implies_less less_2_cases less_le_trans)
      then show False
        using idle_asleep[OF tokens(1) run lt(1) nr(1)] idle_asleep[OF tokens(1) run lt(2) nr(2)] tokens(2) cs
        by (auto simp: contexts_inv_def)
    qed
    have p: "p = (sp s)\<lparr>pool := (pool (sp s))\<lparr>mIdleThreads := cs\<rparr>, apc := (apc (sp s))(a := AWrite c)\<rparr>"
      using e(1) True a cs by (simp add: take_idle_def)
    have "a \<noteq> workers s" using a lock by (auto simp: lock_inv_def)
    moreover have "apc p b \<noteq> ALocked" for b using sole[of b] by (auto simp: p)
    ultimately show ?thesis using lock by (simp add: lock_inv_def t) (simp add: p)
  next
    case False
    with e t lock show ?thesis by (auto simp: lock_inv_def split: if_splits adder_pc.splits)
  qed
next
  case (Loop w e')
  with ex have step: "server_exec s (Loop w e') = Some t" by simp
  then show ?thesis
  proof (cases rule: Loop_cases)
    case 1
    with step have "server_exec s (Loop w (Pop w)) = Some t" by simp
    from this run show ?thesis by (cases rule: Pop_cases) (use lock in \<open>auto simp: lock_inv_def\<close>)
  next
    case 2
    have "mIdleThreads (pool (sp s)) \<noteq> [] \<longrightarrow> mIdleThreads (pool (sp t)) \<noteq> []"
      using step 2 by (auto simp: server_exec.simps push_idle_def split: if_splits)
    with Idle_pool[OF step 2] lock show ?thesis by (simp add: lock_inv_def)
  qed
next
  case (Done w)
  with ex have "server_exec s (Done w) = Some t" by simp
  then show ?thesis using lock by (cases rule: Done_cases) (auto simp: lock_inv_def)
next
  case (Polled w answer)
  with ex have "server_exec s (Polled w answer) = Some t" by simp
  then show ?thesis using lock by (cases rule: Polled_cases) (auto simp: lock_inv_def)
next
  case (Add w)
  with ex have "server_exec s (Add w) = Some t" by simp
  then show ?thesis
  proof (cases rule: Add_cases)
    case (1 j js)
    have "w < workers s" using callers 1(2) by (auto simp: callers_inv_def)
    with lock 1 show ?thesis by (auto simp: lock_inv_def push_job_def)
  qed
next
  case MainAdd
  with ex lock show ?thesis by (auto simp: lock_inv_def elim: MainAdd_cases)
qed

lemma server_reachable_lock:
  assumes "server_reachable s0 s" and "server_reachable (server_init threads) s0" and "lock_inv s0"
    and "length threads \<le> 2" and "distinct (map mEventFD threads)"
  shows "server_reachable (server_init threads) s \<and> lock_inv s"
  using assms(1)
proof (induction rule: server_reachable.induct)
  case start
  show ?case using assms(2,3) by simp
next
  case (step s e t)
  then have r: "server_reachable (server_init threads) s" by simp
  have "workers s \<le> 2" using pool_reachable_threads[OF server_reachable_pool(1)[OF r]] assms(4) by simp
  with step server_exec_lock[OF step.hyps(2)] server_reachable_invs[OF r] server_reachable_pool(2)[OF r]
    pool_reachable_invs[OF server_reachable_pool(1)[OF r] assms(5)] show ?case
    by (blast intro: server_reachable.step)
qed

section \<open>Properties\<close>

text \<open>
  C5. Jobs that wait for a worker are served. In every state of the server, under every interleaving of
  its threads: a worker that waits in \<^verbatim>\<open>epoll_wait\<close> is the only one to hold the poll job, and while it
  waits no job is in the queue; and once the poll job has been taken for the first time, whenever a job
  is queued some worker is awake and can take a step of its own that waits for nothing. So the wake-ups
  that the pool can lose leave workers asleep, but never strand a job.
\<close>

theorem server_jobs_served:
  assumes "server_reachable (server_init threads) s"
  shows "(\<forall>w. wpc (sp s) w = WExec PollJobRef \<and> phase s w = Waiting \<longrightarrow>
            mJobQueue (pool (sp s)) = [] \<and> (\<forall>v. wpc (sp s) v = WExec PollJobRef \<longrightarrow> v = w \<or> phase s v = Adding []))
    \<and> (popped (sp s) \<noteq> [] \<longrightarrow> mJobQueue (pool (sp s)) \<noteq> [] \<longrightarrow>
        (\<exists>w e. w < length threads \<and> server_exec s e \<noteq> None
           \<and> e \<in> {Wake w (WakeCheck w), Wake w (WakeTake w), Wake w (WakeWrite w), Loop w (Pop w), Add w, Done w}))"
proof -
  from server_reachable_invs[OF assms] have inv: "callers_inv s" "added (sp s) \<noteq> [] \<longrightarrow> poll_place s" "awake_inv s" by auto
  have n: "workers s = length threads"
    using pool_reachable_threads[OF server_reachable_pool(1)[OF assms]] by simp
  have waiting: "mJobQueue (pool (sp s)) = [] \<and> (\<forall>v. wpc (sp s) v = WExec PollJobRef \<longrightarrow> v = w \<or> phase s v = Adding [])"
    if "wpc (sp s) w = WExec PollJobRef" "phase s w = Waiting" for w
  proof -
    have "added (sp s) \<noteq> []" using inv(1) that(1) by (auto simp: callers_inv_def)
    then have "poll_place s" using inv(2) by simp
    from poll_place_held[OF this, of w] that show ?thesis by (auto simp: holders_def in_hand_def)
  qed
  have enabled: "\<exists>w e. w < length threads \<and> server_exec s e \<noteq> None
      \<and> e \<in> {Wake w (WakeCheck w), Wake w (WakeTake w), Wake w (WakeWrite w), Loop w (Pop w), Add w, Done w}"
    if "popped (sp s) \<noteq> []" "mJobQueue (pool (sp s)) \<noteq> []"
    using server_step_enabled[OF inv server_reachable_pool(2)[OF assms] that] n by metis
  show ?thesis
  proof (intro conjI[OF allI] impI)
    fix w assume "wpc (sp s) w = WExec PollJobRef \<and> phase s w = Waiting"
    then show "mJobQueue (pool (sp s)) = [] \<and> (\<forall>v. wpc (sp s) v = WExec PollJobRef \<longrightarrow> v = w \<or> phase s v = Adding [])"
      by (elim conjE) (rule waiting)
  qed (rule enabled)
qed

text \<open>
  C22. A server can be dead from the start. Whatever the number of workers, \<^verbatim>\<open>Start\<close> can leave the poll
  job in the queue with every worker asleep: each worker found the queue empty before the poll job was
  added and registered as idle after \<^verbatim>\<open>WakeOneThread\<close> had looked. No thread of the server can then take a
  step, so no connection is ever accepted.
\<close>

theorem server_start_strands:
  "\<exists>s. server_reachable (server_init threads) s \<and> mJobQueue (pool (sp s)) = [PollJobRef] \<and> \<not> crashed (sp s)
    \<and> map (wpc (sp s)) [0..<length threads] = replicate (length threads) WRead \<and> (\<forall>e. server_exec s e = None)"
proof -
  let ?s = "falling_asleep threads (length threads)"
  have "server_exec ?s e = None" for e
    by (cases e) (auto simp: falling_asleep_def pool_init_def server_exec.simps)
  moreover have "map (wpc (sp ?s)) [0..<length threads] = replicate (length threads) WRead"
    by (rule nth_equalityI) (simp_all add: falling_asleep_def)
  moreover have "mJobQueue (pool (sp ?s)) = [PollJobRef]" "\<not> crashed (sp ?s)" by (simp_all add: falling_asleep_def pool_init_def)
  ultimately show ?thesis using falling_asleep_reachable[of threads] by blast
qed

text \<open>
  C23. The idle stack can be popped when it is empty. With three workers or more the running server
  reaches the state in which two workers, one still waking a thread for the poll job it has put back and
  the other adding the next ready job, have both seen one idle thread and both take it: the second call
  of \<^verbatim>\<open>top()\<close> and \<^verbatim>\<open>pop()\<close> is on an empty stack.
\<close>

theorem server_wake_race:
  "\<exists>s. server_reachable (server_init (c0 # c1 # c2 # rest)) s \<and> crashed (sp s)
    \<and> apc (sp s) (workers s) = AOut \<and> mIdleThreads (pool (sp s)) = []"
proof -
  let ?n = "length (c0 # c1 # c2 # rest)"
  let ?es = "[MainAdd, Wake ?n (WakeCheck ?n), Loop 0 (Pop 0), Polled 0 (Ready [RecvJobRef 0]), Add 0, Wake 0 (WakeCheck 0),
    Loop 1 (Pop 1), Loop 2 (Pop 2), Loop 2 (IdlePush 2), Add 0, Wake 0 (WakeCheck 0),
    Done 1, Loop 1 (Pop 1), Polled 1 (Ready [AcceptJobRef]), Add 1, Wake 1 (WakeCheck 1),
    Wake 0 (WakeTake 0), Wake 1 (WakeTake 1)]"
  have "\<exists>s. server_schedule (server_init (c0 # c1 # c2 # rest)) ?es = Some s \<and> crashed (sp s)
    \<and> apc (sp s) (workers s) = AOut \<and> mIdleThreads (pool (sp s)) = []"
    by (simp add: server_exec.simps server_init_def pool_eval sMAX_EVENTS_def)
  with server_reachable_schedule[OF server_reachable.start] show ?thesis by blast
qed

text \<open>
  With one or two workers that cannot happen once \<^verbatim>\<open>Start\<close> is over: from a state in which no thread is
  inside \<^verbatim>\<open>AddJob\<close>, no interleaving pops the empty idle stack.
\<close>

theorem server_two_workers_safe:
  assumes "server_reachable (server_init threads) s0" and "length threads \<le> 2" and "distinct (map mEventFD threads)"
    and "\<forall>a. apc (sp s0) a = AOut" and "added (sp s0) \<noteq> []" and "\<not> crashed (sp s0)" and "server_reachable s0 s"
  shows "\<not> crashed (sp s)"
proof -
  have "lock_inv s0" using assms(4-6) by (simp add: lock_inv_def)
  from server_reachable_lock[OF assms(7,1) this assms(2,3)] show ?thesis by (simp add: lock_inv_def)
qed

definition threads2_ex :: "ThreadContext list" where
  "threads2_ex = [\<lparr>mThreadHandle = 0, mEventFD = 10\<rparr>, \<lparr>mThreadHandle = 1, mEventFD = 11\<rparr>]"

definition start_ex :: "server_event list" where
  "start_ex = [MainAdd, Wake 2 (WakeCheck 2)]"

definition work_ex :: "server_event list" where
  "work_ex = [Loop 0 (Pop 0), Loop 1 (Pop 1), Loop 1 (IdlePush 1), Polled 0 (Ready [RecvJobRef 0]), Add 0,
     Wake 0 (WakeCheck 0), Wake 0 (WakeTake 0)]"

lemma start_ex_run:
  obtains s0 s where "server_reachable (server_init threads2_ex) s0" and "server_reachable s0 s"
    and "\<forall>a. apc (sp s0) a = AOut" and "added (sp s0) \<noteq> []" and "\<not> crashed (sp s0)"
    and "popped (sp s) \<noteq> []" and "mJobQueue (pool (sp s)) = [RecvJobRef 0]" and "mIdleThreads (pool (sp s)) = []"
proof -
  have "\<exists>s0. server_schedule (server_init threads2_ex) start_ex = Some s0 \<and> (\<forall>a. apc (sp s0) a = AOut)
      \<and> added (sp s0) \<noteq> [] \<and> \<not> crashed (sp s0) \<and> (\<exists>s. server_schedule s0 work_ex = Some s
      \<and> popped (sp s) \<noteq> [] \<and> mJobQueue (pool (sp s)) = [RecvJobRef 0] \<and> mIdleThreads (pool (sp s)) = [])"
    by (simp add: start_ex_def work_ex_def server_exec.simps server_init_def pool_eval sMAX_EVENTS_def threads2_ex_def)
  then show ?thesis using that server_reachable_schedule[OF server_reachable.start] by metis
qed

theorem server_two_workers_safe_witness:
  "\<exists>s0 s. server_reachable s0 s \<and> mJobQueue (pool (sp s)) = [RecvJobRef 0] \<and> mIdleThreads (pool (sp s)) = [] \<and> \<not> crashed (sp s)"
proof -
  obtain s0 s where s: "server_reachable (server_init threads2_ex) s0" "server_reachable s0 s"
      "\<forall>a. apc (sp s0) a = AOut" "added (sp s0) \<noteq> []" "\<not> crashed (sp s0)"
      "mJobQueue (pool (sp s)) = [RecvJobRef 0]" "mIdleThreads (pool (sp s)) = []" by (rule start_ex_run)
  from server_two_workers_safe[OF s(1) _ _ s(3-5,2)] s show ?thesis by (auto simp: threads2_ex_def)
qed

theorem server_jobs_served_witness:
  "\<exists>s. server_reachable (server_init threads2_ex) s \<and> mJobQueue (pool (sp s)) = [RecvJobRef 0]
    \<and> (\<exists>e. server_exec s e \<noteq> None)"
proof -
  obtain s0 s where s: "server_reachable (server_init threads2_ex) s0" "server_reachable s0 s"
      "popped (sp s) \<noteq> []" "mJobQueue (pool (sp s)) = [RecvJobRef 0]" by (rule start_ex_run)
  from s(2,1) have r: "server_reachable (server_init threads2_ex) s"
    by (induction rule: server_reachable.induct) (auto intro: server_reachable.step)
  from server_jobs_served[OF r] s(3,4) r show ?thesis by auto
qed

end
