(* ===== verification/Server_Shutdown.thy ===== *)
theory Server_Shutdown
  imports Server_Workers
begin

text \<open>
  Stopping the running server: \<^verbatim>\<open>WorkerThreadPool::Stop\<close>, called by \<^verbatim>\<open>Server::Stop\<close>, beside the workers of
  \<open>Server_Workers\<close> (\<^verbatim>\<open>src/src/lib-core/src/WorkerThreadPool.cpp\<close>). Before the call \<^verbatim>\<open>Server::Stop\<close> closes the
  epoll descriptors; a worker that is inside \<^verbatim>\<open>epoll_wait\<close> at that moment is not woken by it.
\<close>

section \<open>The system\<close>

text \<open>
  \<open>Writing i\<close>: about to write the event descriptor of worker \<open>i\<close>, or to leave the loop when there is no
  such worker; \<open>Joining i\<close>: in \<^verbatim>\<open>pthread_join\<close> of worker \<open>i\<close>.
\<close>

datatype stop_pc = Writing nat | Joining nat | Returned

record stop_sys =
  sys :: server_sys
  stopper :: stop_pc

datatype stop_event = Run server_event | StopNext

definition stop_begin :: "server_sys \<Rightarrow> stop_sys" where
  "stop_begin s = \<lparr>sys = s\<lparr>sp := (sp s)\<lparr>pool := (pool (sp s))\<lparr>pool_mIsRunning := False\<rparr>\<rparr>\<rparr>, stopper = Writing 0\<rparr>"

fun stop_exec :: "stop_sys \<Rightarrow> stop_event \<Rightarrow> stop_sys option" where
  "stop_exec t (Run e) = map_option (\<lambda>s. t\<lparr>sys := s\<rparr>) (server_exec (sys t) e)"
| "stop_exec t StopNext =
     (case stopper t of
        Writing i \<Rightarrow>
          if i < workers (sys t)
          then map_option (\<lambda>p. t\<lparr>sys := (sys t)\<lparr>sp := p\<rparr>, stopper := Joining i\<rparr>) (pool_exec (sp (sys t)) (StopWrite i))
          else Some (t\<lparr>sys := (sys t)\<lparr>sp := (sp (sys t))\<lparr>pool := (pool (sp (sys t)))\<lparr>mWorkerThreads := []\<rparr>\<rparr>\<rparr>,
                       stopper := Returned\<rparr>)
      | Joining i \<Rightarrow> if wpc (sp (sys t)) i = WDone then Some (t\<lparr>stopper := Writing (Suc i)\<rparr>) else None
      | Returned \<Rightarrow> None)"

fun stop_schedule :: "stop_sys \<Rightarrow> stop_event list \<Rightarrow> stop_sys option" where
  "stop_schedule t [] = Some t"
| "stop_schedule t (e # es) = (case stop_exec t e of None \<Rightarrow> None | Some u \<Rightarrow> stop_schedule u es)"

text \<open>A step in which \<^verbatim>\<open>epoll_wait\<close> does not return.\<close>

fun quiet :: "stop_event \<Rightarrow> bool" where
  "quiet (Run (Polled _ _)) = False"
| "quiet _ = True"

definition waits :: "server_sys \<Rightarrow> nat \<Rightarrow> bool" where
  "waits s w \<longleftrightarrow> wpc (sp s) w = WExec PollJobRef \<and> phase s w = Waiting"

section \<open>The work that is left\<close>

text \<open>No thread can take more steps than its work, as no worker takes another job.\<close>

fun phase_work :: "poll_phase \<Rightarrow> nat" where
  "phase_work Waiting = 511"
| "phase_work (Adding js) = 2 + 4 * length js"

fun worker_work :: "job_ref worker_pc \<Rightarrow> poll_phase \<Rightarrow> nat" where
  "worker_work WLoop ph = 1"
| "worker_work WNull ph = 3"
| "worker_work WRead ph = 2"
| "worker_work WDone ph = 0"
| "worker_work (WExec j) ph = (if j = PollJobRef then phase_work ph else 2)"

fun adder_work :: "adder_pc \<Rightarrow> nat" where
  "adder_work AOut = 0"
| "adder_work ACheck = 3"
| "adder_work ALocked = 2"
| "adder_work (AWrite _) = 1"

definition thread_work :: "server_sys \<Rightarrow> nat \<Rightarrow> nat" where
  "thread_work s w = worker_work (wpc (sp s) w) (phase s w) + adder_work (apc (sp s) w)"

definition server_work :: "nat \<Rightarrow> server_sys \<Rightarrow> nat" where
  "server_work n s = (\<Sum>w<n. thread_work s w)"

fun stopper_work :: "nat \<Rightarrow> stop_pc \<Rightarrow> nat" where
  "stopper_work n (Writing i) = 2 * (n - i) + 1"
| "stopper_work n (Joining i) = 2 * (n - i)"
| "stopper_work n Returned = 0"

section \<open>The server after the flag is cleared\<close>

definition stopping :: "ThreadContext list \<Rightarrow> server_sys \<Rightarrow> bool" where
  "stopping threads s \<longleftrightarrow> \<not> pool_mIsRunning (pool (sp s)) \<and> mWorkerThreads (pool (sp s)) = threads \<and> callers_inv s
     \<and> added (sp s) \<noteq> [] \<and> apc (sp s) (length threads) = AOut"

lemma stopping_callers:
  assumes "stopping threads s"
  shows "apc (sp s) a \<noteq> AOut \<Longrightarrow> a < length threads \<and> wpc (sp s) a = WExec PollJobRef \<and> phase s a \<noteq> Waiting"
    and "wpc (sp s) w \<noteq> WLoop \<Longrightarrow> w < length threads"
  using assms by (auto simp: stopping_def callers_inv_def)

lemma server_work_less:
  assumes "stopping threads s" and "w < length threads \<or> wpc (sp s) w \<noteq> WLoop \<or> apc (sp s) w \<noteq> AOut"
    and "thread_work t w < thread_work s w" and "\<forall>v. v \<noteq> w \<longrightarrow> thread_work t v = thread_work s v"
  shows "server_work (length threads) t < server_work (length threads) s"
proof -
  have w: "w < length threads" using assms(2) stopping_callers[OF assms(1)] by blast
  have "server_work (length threads) x = thread_work x w + (\<Sum>v\<in>{..<length threads} - {w}. thread_work x v)" for x
    unfolding server_work_def using w by (subst sum.remove[of _ w]) simp_all
  moreover have "(\<Sum>v\<in>{..<length threads} - {w}. thread_work t v) = (\<Sum>v\<in>{..<length threads} - {w}. thread_work s v)"
    by (rule sum.cong) (simp_all add: assms(4))
  ultimately show ?thesis using assms(3) by simp
qed

text \<open>The steps that are left, one case each.\<close>

lemma stopping_cases:
  assumes "server_exec s e = Some t" and "stopping threads s"
  obtains (check) a where "apc (sp s) a = ACheck"
      "t = s\<lparr>sp := (sp s)\<lparr>apc := (apc (sp s))(a := (if mIdleThreads (pool (sp s)) = [] then AOut else ALocked))\<rparr>\<rparr>"
    | (crash) "crashed (sp t)"
    | (grab) a c cs where "apc (sp s) a = ALocked" "mIdleThreads (pool (sp s)) = c # cs"
      "t = s\<lparr>sp := (sp s)\<lparr>pool := (pool (sp s))\<lparr>mIdleThreads := cs\<rparr>, apc := (apc (sp s))(a := AWrite c)\<rparr>\<rparr>"
    | (wrote) a c where "apc (sp s) a = AWrite c"
      "t = s\<lparr>sp := (sp s)\<lparr>evfd := (evfd (sp s))(mEventFD c := Suc (evfd (sp s) (mEventFD c))), apc := (apc (sp s))(a := AOut)\<rparr>\<rparr>"
    | (leave) w where "w < length threads" "wpc (sp s) w = WLoop" "t = s\<lparr>sp := (sp s)\<lparr>wpc := (wpc (sp s))(w := WDone)\<rparr>\<rparr>"
    | (idle) w where "wpc (sp s) w = WNull"
      "t = s\<lparr>sp := (sp s)\<lparr>pool := push_idle (pool (sp s)) (threads ! w), wpc := (wpc (sp s))(w := WRead)\<rparr>\<rparr>"
    | (read) w where "wpc (sp s) w = WRead" "0 < evfd (sp s) (mEventFD (threads ! w))"
      "t = s\<lparr>sp := (sp s)\<lparr>evfd := (evfd (sp s))(mEventFD (threads ! w) := 0), wpc := (wpc (sp s))(w := WLoop)\<rparr>\<rparr>"
    | (polled) w answer where "waits s w" "length (ready_jobs answer) \<le> 126" "e = Polled w answer"
      "t = s\<lparr>phase := (phase s)(w := Adding (ready_jobs answer @ [PollJobRef]))\<rparr>"
    | (add) w j js where "phase s w = Adding (j # js)" "wpc (sp s) w = WExec PollJobRef" "apc (sp s) w = AOut"
      "t = s\<lparr>sp := (sp s)\<lparr>pool := push_job (pool (sp s)) j, apc := (apc (sp s))(w := ACheck), added := added (sp s) @ [j]\<rparr>,
             phase := (phase s)(w := Adding js)\<rparr>"
    | (finish) w j where "wpc (sp s) w = WExec j" "t = s\<lparr>sp := (sp s)\<lparr>wpc := (wpc (sp s))(w := WLoop)\<rparr>\<rparr>"
      "j = PollJobRef \<Longrightarrow> phase s w = Adding [] \<and> apc (sp s) w = AOut"
proof (cases e)
  case MainAdd
  with assms show ?thesis by (auto simp: server_exec.simps stopping_def split: if_splits)
next
  case (Wake a f)
  with assms consider "f = WakeCheck a" | "f = WakeTake a" | "f = WakeWrite a" by (auto simp: server_exec.simps split: if_splits)
  then show ?thesis
  proof cases
    case 1
    with Wake assms check[of a] show ?thesis by (auto simp: server_exec.simps split: if_splits)
  next
    case 2
    with Wake assms crash grab[of a] show ?thesis by (auto simp: server_exec.simps take_idle_def split: if_splits list.splits)
  next
    case 3
    with Wake assms wrote[of a] show ?thesis by (auto simp: server_exec.simps split: if_splits adder_pc.splits)
  qed
next
  case (Loop w f)
  with assms consider "f = Pop w" | "f = IdlePush w" | "f = IdleRead w" by (auto simp: server_exec.simps split: if_splits)
  then show ?thesis
  proof cases
    case 1
    with Loop assms leave[of w] show ?thesis by (cases s) (auto simp: server_exec.simps stopping_def split: if_splits)
  next
    case 2
    with Loop assms idle[of w] show ?thesis
      by (cases s) (auto simp: server_exec.simps stopping_def context_of_def split: if_splits)
  next
    case 3
    with Loop assms read[of w] show ?thesis
      by (cases s) (auto simp: server_exec.simps stopping_def context_of_def split: if_splits)
  qed
next
  case (Polled w answer)
  with assms(1) have "waits s w" "length (ready_jobs answer) \<le> 126"
      "t = s\<lparr>phase := (phase s)(w := Adding (ready_jobs answer @ [PollJobRef]))\<rparr>"
    by (auto simp: server_exec.simps waits_def sMAX_EVENTS_def split: if_splits)
  with Polled polled show ?thesis by blast
next
  case (Add w)
  from assms(1)[unfolded Add] show ?thesis by (cases rule: Add_cases) (rule add)
next
  case (Done w)
  from assms(1)[unfolded Done] show ?thesis by (cases rule: Done_cases) (rule finish; blast)
qed

text \<open>What a step of the server keeps, and that it uses up work.\<close>

lemmas step_keeps = stopping_def callers_inv_def waits_def thread_work_def push_idle_def push_job_def

lemma stopping_step:
  assumes "server_exec s e = Some t" and "stopping threads s" and "\<not> crashed (sp t)"
  shows "stopping threads t" and "server_work (length threads) t < server_work (length threads) s"
    and "wpc (sp s) v = WDone \<Longrightarrow> wpc (sp t) v = WDone"
    and "waits t v \<Longrightarrow> waits s v" and "waits s v \<Longrightarrow> quiet (Run e) \<Longrightarrow> waits t v"
proof -
  have "stopping threads t \<and> server_work (length threads) t < server_work (length threads) s
    \<and> (wpc (sp s) v = WDone \<longrightarrow> wpc (sp t) v = WDone) \<and> (waits t v \<longrightarrow> waits s v)
    \<and> (waits s v \<longrightarrow> quiet (Run e) \<longrightarrow> waits t v)"
    using assms(1,2)
  proof (cases rule: stopping_cases)
    case (check a)
    with assms(2) server_work_less[OF assms(2), of a t] stopping_callers[OF assms(2), of a] show ?thesis by (auto simp: step_keeps)
  next
    case (grab a c cs)
    with assms(2) server_work_less[OF assms(2), of a t] stopping_callers[OF assms(2), of a] show ?thesis by (auto simp: step_keeps)
  next
    case (wrote a c)
    with assms(2) server_work_less[OF assms(2), of a t] stopping_callers[OF assms(2), of a] show ?thesis by (auto simp: step_keeps)
  next
    case (leave w)
    with assms(2) server_work_less[OF assms(2), of w t] stopping_callers[OF assms(2), of w] show ?thesis by (auto simp: step_keeps)
  next
    case (idle w)
    with assms(2) server_work_less[OF assms(2), of w t] stopping_callers[OF assms(2), of w] show ?thesis by (auto simp: step_keeps)
  next
    case (read w)
    with assms(2) server_work_less[OF assms(2), of w t] stopping_callers[OF assms(2), of w] show ?thesis by (auto simp: step_keeps)
  next
    case (polled w answer)
    with assms(2) server_work_less[OF assms(2), of w t] stopping_callers[OF assms(2), of w] show ?thesis by (auto simp: step_keeps)
  next
    case (add w j js)
    with assms(2) server_work_less[OF assms(2), of w t] stopping_callers[OF assms(2), of w] show ?thesis by (auto simp: step_keeps)
  next
    case (finish w j)
    with assms(2) server_work_less[OF assms(2), of w t] stopping_callers[OF assms(2), of w] show ?thesis by (auto simp: step_keeps)
  next
    case crash
    with assms(3) show ?thesis by simp
  qed
  then show "stopping threads t" "server_work (length threads) t < server_work (length threads) s"
    "wpc (sp s) v = WDone \<Longrightarrow> wpc (sp t) v = WDone" "waits t v \<Longrightarrow> waits s v"
    "waits s v \<Longrightarrow> quiet (Run e) \<Longrightarrow> waits t v" by blast+
qed

text \<open>The wake-up that \<^verbatim>\<open>Stop\<close> has written for a worker is there until the worker uses it to leave.\<close>

definition woken :: "ThreadContext list \<Rightarrow> server_sys \<Rightarrow> nat \<Rightarrow> bool" where
  "woken threads s i \<longleftrightarrow> 0 < evfd (sp s) (mEventFD (threads ! i)) \<or> wpc (sp s) i \<in> {WLoop, WDone}"

lemma woken_step:
  assumes "server_exec s e = Some t" and "stopping threads s" and "\<not> crashed (sp t)"
    and "distinct (map mEventFD threads)" and "i < length threads" and "woken threads s i"
  shows "woken threads t i"
  using assms(1,2)
proof (cases rule: stopping_cases)
  case (read w)
  have "w < length threads" using stopping_callers(2)[OF assms(2), of w] read(1) by simp
  then have "mEventFD (threads ! w) = mEventFD (threads ! i) \<longleftrightarrow> w = i"
    using assms(4,5) by (auto simp: distinct_conv_nth)
  with read assms(6) show ?thesis by (auto simp: woken_def)
next
  case (wrote a c)
  with assms(6) show ?thesis by (cases "mEventFD c = mEventFD (threads ! i)") (simp_all add: woken_def)
next
  case crash
  with assms(3) show ?thesis by simp
qed (use assms(6) in \<open>auto simp: woken_def waits_def\<close>)

text \<open>A worker that can take no step has left, sleeps without a wake-up, or waits in \<^verbatim>\<open>epoll_wait\<close>.\<close>

lemma stuck_worker:
  assumes "stopping threads s" and "\<And>e. quiet (Run e) \<Longrightarrow> server_exec s e = None" and "w < length threads"
    and "\<not> waits s w" and "woken threads s w"
  shows "wpc (sp s) w = WDone"
proof -
  have out: "apc (sp s) w = AOut"
  proof (cases "apc (sp s) w")
    case ACheck
    with assms(2)[of "Wake w (WakeCheck w)"] show ?thesis by (simp add: server_exec.simps)
  next
    case ALocked
    with assms(2)[of "Wake w (WakeTake w)"] show ?thesis by (simp add: server_exec.simps take_idle_def split: list.splits)
  next
    case (AWrite c)
    with assms(2)[of "Wake w (WakeWrite w)"] show ?thesis by (simp add: server_exec.simps)
  qed
  show ?thesis
  proof (cases "wpc (sp s) w")
    case WLoop
    with assms(1,3) assms(2)[of "Loop w (Pop w)"] show ?thesis by (auto simp: server_exec.simps stopping_def)
  next
    case WNull
    with assms(2)[of "Loop w (IdlePush w)"] show ?thesis by (simp add: server_exec.simps)
  next
    case WRead
    with assms(1,5) assms(2)[of "Loop w (IdleRead w)"] show ?thesis
      by (simp add: server_exec.simps woken_def context_of_def stopping_def)
  next
    case (WExec j)
    show ?thesis
    proof (cases "j = PollJobRef")
      case True
      with WExec assms(4) obtain js where "phase s w = Adding js" by (cases "phase s w") (auto simp: waits_def)
      with True WExec out assms(2)[of "Add w"] assms(2)[of "Done w"] show ?thesis
        by (cases js) (simp_all add: server_exec.simps)
    next
      case False
      with WExec assms(2)[of "Done w"] show ?thesis by (simp add: server_exec.simps)
    qed
  qed
qed

section \<open>Stop beside the server\<close>

definition all_left :: "nat \<Rightarrow> server_sys \<Rightarrow> bool" where
  "all_left n s \<longleftrightarrow> (\<forall>w. wpc (sp s) w = (if w < n then WDone else WLoop)) \<and> (\<forall>a. apc (sp s) a = AOut) \<and> added (sp s) \<noteq> []
     \<and> workers s \<le> n"

definition stop_inv :: "ThreadContext list \<Rightarrow> stop_sys \<Rightarrow> bool" where
  "stop_inv threads t \<longleftrightarrow>
     (case stopper t of
        Writing i \<Rightarrow> stopping threads (sys t) \<and> i \<le> length threads \<and> (\<forall>j<i. wpc (sp (sys t)) j = WDone)
      | Joining i \<Rightarrow> stopping threads (sys t) \<and> i < length threads \<and> (\<forall>j<i. wpc (sp (sys t)) j = WDone)
          \<and> woken threads (sys t) i
      | Returned \<Rightarrow> all_left (length threads) (sys t))"

definition stop_work :: "nat \<Rightarrow> stop_sys \<Rightarrow> nat" where
  "stop_work n t = server_work n (sys t) + stopper_work n (stopper t)"

lemma all_left_idle: "all_left n s \<Longrightarrow> wpc (sp s) w \<noteq> WExec j"
  by (simp add: all_left_def)

lemma all_left_stuck:
  assumes "all_left n s"
  shows "server_exec s e = None"
proof (cases e)
  case (Add w)
  with all_left_idle[OF assms, of w] show ?thesis by (simp add: server_exec.simps split: poll_phase.split list.split)
qed (use assms in \<open>auto simp: server_exec.simps all_left_def split: if_splits\<close>)

lemma stopping_all_left:
  assumes "stopping threads s" and "\<forall>j<length threads. wpc (sp s) j = WDone"
  shows "all_left (length threads) s"
proof -
  have "apc (sp s) a = AOut" for a using stopping_callers(1)[OF assms(1), of a] assms(2) by (metis worker_pc.distinct(19))
  with stopping_callers(2)[OF assms(1)] assms show ?thesis by (auto simp: all_left_def stopping_def)
qed

lemma StopNext_step:
  assumes "stop_exec t StopNext = Some u" and "stop_inv threads t"
  shows "stop_inv threads u" and "stop_work (length threads) u < stop_work (length threads) t"
    and "waits (sys u) v = waits (sys t) v" and "crashed (sp (sys u)) = crashed (sp (sys t))"
proof -
  have "stop_inv threads u \<and> stop_work (length threads) u < stop_work (length threads) t \<and> waits (sys u) v = waits (sys t) v
    \<and> crashed (sp (sys u)) = crashed (sp (sys t))"
  proof (cases "stopper t")
    case (Writing i)
    with assms(2) have inv: "stopping threads (sys t)" "i \<le> length threads" "\<forall>j<i. wpc (sp (sys t)) j = WDone"
      by (simp_all add: stop_inv_def)
    show ?thesis
    proof (cases "i < length threads")
      case True
      with assms(1) Writing inv(1) have
        "u = t\<lparr>sys := (sys t)\<lparr>sp := (sp (sys t))\<lparr>evfd := (evfd (sp (sys t)))(mEventFD (threads ! i) :=
            Suc (evfd (sp (sys t)) (mEventFD (threads ! i))))\<rparr>\<rparr>, stopper := Joining i\<rparr>"
        by (auto simp: stopping_def context_of_def)
      with True Writing inv show ?thesis
        by (auto simp: stop_inv_def step_keeps woken_def stop_work_def server_work_def)
    next
      case False
      with assms(1) Writing inv(1) have
        "u = t\<lparr>sys := (sys t)\<lparr>sp := (sp (sys t))\<lparr>pool := (pool (sp (sys t)))\<lparr>mWorkerThreads := []\<rparr>\<rparr>\<rparr>, stopper := Returned\<rparr>"
        by (simp add: stopping_def)
      moreover have "all_left (length threads) (sys t)" using stopping_all_left[OF inv(1)] inv(2,3) False by simp
      ultimately show ?thesis using Writing
        by (simp add: stop_inv_def all_left_def waits_def stop_work_def server_work_def thread_work_def)
    qed
  next
    case (Joining i)
    with assms have "u = t\<lparr>stopper := Writing (Suc i)\<rparr>" "wpc (sp (sys t)) i = WDone" "i < length threads"
      by (auto simp: stop_inv_def split: if_splits)
    with Joining assms(2) show ?thesis by (auto simp: stop_inv_def stop_work_def less_Suc_eq)
  next
    case Returned
    with assms(1) show ?thesis by simp
  qed
  then show "stop_inv threads u" "stop_work (length threads) u < stop_work (length threads) t"
    "waits (sys u) v = waits (sys t) v" "crashed (sp (sys u)) = crashed (sp (sys t))" by blast+
qed

lemma Run_step:
  assumes "stop_exec t (Run e) = Some u" and "stop_inv threads t" and "\<not> crashed (sp (sys u))" and "distinct (map mEventFD threads)"
  shows "stop_inv threads u" and "stop_work (length threads) u < stop_work (length threads) t"
    and "waits (sys u) v \<Longrightarrow> waits (sys t) v" and "waits (sys t) v \<Longrightarrow> quiet (Run e) \<Longrightarrow> waits (sys u) v"
proof -
  from assms(1) obtain s where s: "server_exec (sys t) e = Some s" "u = t\<lparr>sys := s\<rparr>" by auto
  have "stopper t \<noteq> Returned" using assms(2) s(1) all_left_stuck by (auto simp: stop_inv_def)
  then have st: "stopping threads (sys t)" using assms(2) by (simp add: stop_inv_def split: stop_pc.splits)
  have nc: "\<not> crashed (sp s)" using assms(3) s(2) by simp
  note step = stopping_step[OF s(1) st nc]
  show "stop_inv threads u"
    using assms(2) s(2) step(1,3) woken_step[OF s(1) st nc assms(4)] \<open>stopper t \<noteq> Returned\<close>
    by (auto simp: stop_inv_def split: stop_pc.splits)
  show "stop_work (length threads) u < stop_work (length threads) t" using step(2) s(2) by (simp add: stop_work_def)
  show "waits (sys u) v \<Longrightarrow> waits (sys t) v" "waits (sys t) v \<Longrightarrow> quiet (Run e) \<Longrightarrow> waits (sys u) v"
    using step(4,5)[of v] s(2) by auto
qed

lemma crash_stays: "server_exec s e = Some t \<Longrightarrow> crashed (sp s) \<Longrightarrow> crashed (sp t)"
  by (cases e) (auto simp: server_exec.simps take_idle_def pool_defs
      split: if_splits list.splits adder_pc.splits worker_pc.splits poll_phase.splits)

lemma stop_crash_stays: "stop_schedule t es = Some u \<Longrightarrow> crashed (sp (sys t)) \<Longrightarrow> crashed (sp (sys u))"
proof (induction es arbitrary: t)
  case (Cons e es)
  then obtain t1 where t1: "stop_exec t e = Some t1" "stop_schedule t1 es = Some u" by (auto split: option.splits)
  have "crashed (sp (sys t1))"
  proof (cases e)
    case (Run f)
    with t1(1) Cons.prems(2) crash_stays show ?thesis by auto
  next
    case StopNext
    with t1(1) Cons.prems(2) show ?thesis by (auto split: stop_pc.splits if_splits)
  qed
  from Cons.IH[OF t1(2) this] show ?case .
qed simp

lemma stop_schedule_inv:
  assumes "stop_schedule t es = Some u" and "stop_inv threads t" and "\<not> crashed (sp (sys u))" and "distinct (map mEventFD threads)"
  shows "stop_inv threads u \<and> length es + stop_work (length threads) u \<le> stop_work (length threads) t
    \<and> (list_all quiet es \<longrightarrow> (\<forall>v. waits (sys u) v \<longleftrightarrow> waits (sys t) v))"
  using assms(1-3)
proof (induction es arbitrary: t)
  case (Cons e es)
  then obtain t1 where t1: "stop_exec t e = Some t1" "stop_schedule t1 es = Some u" by (auto split: option.splits)
  have nc: "\<not> crashed (sp (sys t1))" using stop_crash_stays[OF t1(2)] Cons.prems(3) by blast
  have "stop_inv threads t1 \<and> stop_work (length threads) t1 < stop_work (length threads) t
    \<and> (quiet e \<longrightarrow> (\<forall>v. waits (sys t1) v \<longleftrightarrow> waits (sys t) v))"
  proof (cases e)
    case (Run f)
    with Run_step[OF _ Cons.prems(2) nc assms(4)] t1(1) show ?thesis by blast
  next
    case StopNext
    with StopNext_step[OF _ Cons.prems(2)] t1(1) show ?thesis by blast
  qed
  with Cons.IH[OF t1(2)] Cons.prems(3) show ?case by auto
qed simp

section \<open>The end\<close>

lemma adding_small:
  "server_reachable (server_init threads) s \<Longrightarrow> phase s w = Adding js \<Longrightarrow> length js \<le> 127"
proof (induction arbitrary: w js rule: server_reachable.induct)
  case start
  then show ?case by (simp add: server_init_def)
next
  case (step s e t)
  consider "phase t w = phase s w" | j where "phase s w = Adding (j # js)" | "phase t w = Waiting"
    | answer where "phase t w = Adding (ready_jobs answer @ [PollJobRef])" "length (ready_jobs answer) \<le> 126"
    using step.hyps(2) step.prems
    by (cases e) (auto simp: server_exec.simps sMAX_EVENTS_def split: if_splits poll_phase.splits list.splits)
  then show ?case using step.IH step.prems by cases (fastforce+)
qed

lemma stop_begin_inv:
  assumes "server_reachable (server_init threads) s" and "added (sp s) \<noteq> []" and "apc (sp s) (workers s) = AOut"
  shows "stop_inv threads (stop_begin s)" and "stop_work (length threads) (stop_begin s) \<le> 516 * length threads + 1"
proof -
  have th: "mWorkerThreads (pool (sp s)) = threads"
    using pool_reachable_threads[OF server_reachable_pool(1)[OF assms(1)]] by simp
  with assms server_reachable_invs[OF assms(1)] show "stop_inv threads (stop_begin s)"
    by (simp add: stop_inv_def stop_begin_def stopping_def callers_inv_def)
  have "thread_work s w \<le> 514" for w
  proof -
    have "phase_work (phase s w) \<le> 511" using adding_small[OF assms(1), of w] by (cases "phase s w") auto
    then have "worker_work (wpc (sp s) w) (phase s w) \<le> 511" by (cases "wpc (sp s) w") auto
    moreover have "adder_work (apc (sp s) w) \<le> 3" by (cases "apc (sp s) w") auto
    ultimately show ?thesis by (simp add: thread_work_def)
  qed
  then have "server_work (length threads) s \<le> 514 * length threads"
    unfolding server_work_def using sum_bounded_above[of "{..<length threads}" "thread_work s" 514] by simp
  then show "stop_work (length threads) (stop_begin s) \<le> 516 * length threads + 1"
    by (simp add: stop_work_def stop_begin_def server_work_def thread_work_def)
qed

text \<open>At most one worker waits in \<^verbatim>\<open>epoll_wait\<close>: the one that holds the poll job.\<close>

lemma waits_unique:
  assumes "server_reachable (server_init threads) s" and "added (sp s) \<noteq> []" and "waits s v" and "waits s w"
  shows "v = w"
proof -
  have hold: "v \<in> holders s" "w \<in> holders s" using assms(3,4) by (simp_all add: holders_def waits_def)
  have "poll_place s" using server_reachable_invs[OF assms(1)] assms(2) by blast
  from poll_place_held[OF this hold(1)] hold(2) show ?thesis by auto
qed

text \<open>Where \<^verbatim>\<open>Stop\<close> is when no thread can take a step.\<close>

lemma stop_final:
  assumes inv: "stop_inv threads t" and stuck: "\<forall>e. quiet e \<longrightarrow> stop_exec t e = None"
    and same: "\<forall>v. waits (sys t) v \<longleftrightarrow> waits s v" and unique: "\<And>v w. waits s v \<Longrightarrow> waits s w \<Longrightarrow> v = w"
  shows "(\<forall>w. waits s w \<longrightarrow> stopper t = Joining w)
    \<and> ((\<forall>w. \<not> waits s w) \<longrightarrow> stopper t = Returned \<and> (\<forall>w<length threads. wpc (sp (sys t)) w = WDone))"
proof -
  have nxt: "stop_exec t StopNext = None" using stuck by (simp del: stop_exec.simps)
  show ?thesis
  proof (cases "stopper t")
    case (Writing i)
    with nxt inv show ?thesis by (auto simp: stop_inv_def stopping_def split: if_splits)
  next
    case (Joining i)
    with inv have i: "stopping threads (sys t)" "i < length threads" "woken threads (sys t) i" by (simp_all add: stop_inv_def)
    have "server_exec (sys t) e = None" if "quiet (Run e)" for e
      using stuck[rule_format, OF that] by simp
    moreover have "wpc (sp (sys t)) i \<noteq> WDone" using nxt Joining by (simp split: if_splits)
    ultimately have "waits s i" using stuck_worker[OF i(1) _ i(2) _ i(3)] same by metis
    with unique Joining show ?thesis by blast
  next
    case Returned
    with inv have left: "all_left (length threads) (sys t)" by (simp add: stop_inv_def)
    then have "\<not> waits s v" for v using same all_left_idle by (auto simp: waits_def)
    with Returned left show ?thesis by (simp add: all_left_def)
  qed
qed

section \<open>Properties\<close>


definition waiting_ex :: "server_event list" where
  "waiting_ex = [MainAdd, Wake 2 (WakeCheck 2), Loop 1 (Pop 1)]"

definition stopping_ex :: "stop_event list" where
  "stopping_ex = [StopNext, Run (Loop 0 (Pop 0)), StopNext, StopNext]"

lemma stopping_ex_run:
  obtains s t where "server_schedule (server_init threads2_ex) waiting_ex = Some s" and "added (sp s) \<noteq> []"
    and "apc (sp s) (workers s) = AOut" and "waits s 1" and "stop_schedule (stop_begin s) stopping_ex = Some t"
    and "\<not> crashed (sp (sys t))" and "\<forall>e. quiet e \<longrightarrow> stop_exec t e = None"
proof -
  have "\<exists>s t. server_schedule (server_init threads2_ex) waiting_ex = Some s \<and> added (sp s) \<noteq> [] \<and> apc (sp s) (workers s) = AOut
      \<and> waits s 1 \<and> stop_schedule (stop_begin s) stopping_ex = Some t \<and> \<not> crashed (sp (sys t))
      \<and> stopper t = Joining 1 \<and> workers (sys t) = 2 \<and> added (sp (sys t)) \<noteq> [] \<and> (\<forall>a. apc (sp (sys t)) a = AOut)
      \<and> (\<forall>w. wpc (sp (sys t)) w = (if w = 0 then WDone else if w = 1 then WExec PollJobRef else WLoop))
      \<and> phase (sys t) 1 = Waiting"
    by (simp add: waiting_ex_def stopping_ex_def server_exec.simps server_init_def pool_eval threads2_ex_def stop_begin_def waits_def)
  then obtain s t where st: "server_schedule (server_init threads2_ex) waiting_ex = Some s" "added (sp s) \<noteq> []"
      "apc (sp s) (workers s) = AOut" "waits s 1" "stop_schedule (stop_begin s) stopping_ex = Some t" "\<not> crashed (sp (sys t))"
    and t: "stopper t = Joining 1" "workers (sys t) = 2" "added (sp (sys t)) \<noteq> []" "\<forall>a. apc (sp (sys t)) a = AOut"
      "\<forall>w. wpc (sp (sys t)) w = (if w = 0 then WDone else if w = 1 then WExec PollJobRef else WLoop)"
      "phase (sys t) 1 = Waiting" by blast
  have "server_exec (sys t) e = None" if "quiet (Run e)" for e
  proof (cases e)
    case (Add w)
    with t(5,6) show ?thesis by (cases "w = 1") (simp_all add: server_exec.simps split: poll_phase.split list.split)
  qed (use t that in \<open>simp_all add: server_exec.simps\<close>)
  then have "stop_exec t e = None" if "quiet e" for e using t that by (cases e) simp_all
  with st show thesis using that by blast
qed


end
