(* ===== verification/Echo_Program.thy ===== *)
theory Echo_Program
  imports Echo_Server
begin

text \<open>
  The program of the echo server, \<^verbatim>\<open>main\<close> of \<^verbatim>\<open>src/tests/performance/test_server.cpp\<close>: it starts a server
  with 12 workers on port 7799 of all addresses and sleeps for ever, or returns -1 when \<^verbatim>\<open>Start\<close> fails,
  which destroys the server.
\<close>

section \<open>Callbacks and main\<close>

text \<open>
  The buffer for the address is zeroed and has 30 bytes, so a text that \<^verbatim>\<open>inet_ntop\<close> does not deliver is
  printed as empty. The result is the answer with what is printed, the address and the port.
\<close>

definition TestServer_OnAccepeted ::
  "(UInt16 \<Rightarrow> Byte list \<Rightarrow> nat \<Rightarrow> string option) \<Rightarrow> Endpoint \<Rightarrow> bool \<times> string \<times> UInt16" where
  "TestServer_OnAccepeted inet_ntop clientEndpoint =
     (True, (case snd (Endpoint_GetIPAddressString inet_ntop clientEndpoint 30) of None \<Rightarrow> [] | Some text \<Rightarrow> text),
      Endpoint_GetPort clientEndpoint)"

text \<open>
  The memory of the two local objects is an argument, as is what the calls of \<^verbatim>\<open>Start\<close> answer. The
  result \<open>None\<close> stands for the endless loop after a successful start.
\<close>

definition TestServer_main ::
  "(UInt16 \<Rightarrow> string \<Rightarrow> Byte list option) \<Rightarrow> Server \<Rightarrow> arr \<Rightarrow> Session list \<Rightarrow> Int64 \<Rightarrow> start_answers \<Rightarrow>
   (int option \<times> Server \<times> server_effect list) cxx" where
  "TestServer_main inet_pton storage endpointStorage sessions unique k =
     (let server = Server_ctor storage;
          serverEndpoint = Endpoint_ctor inet_pton endpointStorage IPv4 ''0.0.0.0'' 7799
      in bindr (Server_Start server serverEndpoint 12 sessions unique k) (\<lambda>(ok, srv, es).
           if ok then Inr (None, srv, es)
           else bindr (Server_dtor srv) (\<lambda>(srv', es'). Inr (Some (-1), srv', es @ es'))))"

section \<open>Properties\<close>

text \<open>
  The echo server's \<^verbatim>\<open>main\<close> has two outcomes. If both epoll descriptors can be created it starts the
  server and never returns, and if the listening socket could be opened too the started server with its 12
  workers is a start state of the running server, to which the theorems about the echo server apply. If
  one of them cannot, and the memory of the server held garbage, \<^verbatim>\<open>main\<close> does not return -1: the
  destructor reads a pointer that was never assigned.
\<close>

theorem TestServer_main_outcome:
  assumes "0 < length sessions" and "length sessions < 65535" and "epoll_ret k \<noteq> send_epoll_ret k"
    and "mPollJob storage = Garbage"
  shows "if epoll_ret k = sINVALID_ID \<or> send_epoll_ret k = sINVALID_ID
    then TestServer_main inet_pton storage endpointStorage sessions unique k = Inl Uninitialised
    else \<exists>srv es. TestServer_main inet_pton storage endpointStorage sessions unique k = Inr (None, srv, es)
      \<and> (0 \<le> mListenFD srv \<longrightarrow> echo_start (reactor_start srv es 12))"
proof (cases "epoll_ret k = sINVALID_ID \<or> send_epoll_ret k = sINVALID_ID")
  case True
  with assms(4) show ?thesis
    by (auto simp: TestServer_main_def Server_Start_def Server_ctor_def Server_dtor_def Server_Stop_def delete_ptr_def Let_def)
next
  case False
  let ?e = "Endpoint_ctor inet_pton endpointStorage IPv4 ''0.0.0.0'' 7799"
  obtain fd es1 where c: "CreateListenSocket ?e (listen_ans k) = (fd, es1)" by fastforce
  obtain ok p where w: "WorkerThreadPool_Start WorkerThreadPool_ctor 12 (thread_ret k) = (ok, p :: job_ref WorkerThreadPool)"
    by fastforce
  obtain srv es where s: "Server_Start (Server_ctor storage) ?e 12 sessions unique k = Inr (True, srv, es)"
    using Server_Start_ok[OF _ _ c w, of "Server_ctor storage" sessions unique] False by auto
  have "echo_start (reactor_start srv es 12)" if "0 \<le> mListenFD srv"
    unfolding echo_start_def using s that assms(1-3) by fastforce
  with s False show ?thesis by (simp add: TestServer_main_def)
qed

theorem TestServer_main_outcome_witness:
  "TestServer_main (\<lambda>_ _. None) (server_ex\<lparr>mPollJob := Garbage\<rparr>) (\<lambda>_. 0) [session_ex] 0
    (start_reactor_ex\<lparr>send_epoll_ret := -1\<rparr>) = Inl Uninitialised"
  using TestServer_main_outcome[of "[session_ex]" "start_reactor_ex\<lparr>send_epoll_ret := -1\<rparr>" "server_ex\<lparr>mPollJob := Garbage\<rparr>"
      "\<lambda>_ _. None" "\<lambda>_. 0" 0]
  by (simp add: start_reactor_ex_def sINVALID_ID_def)

end
