(* ===== verification/Ring_Buffer.thy ===== *)
theory Ring_Buffer
  imports Recv_Buffer
begin

text \<open>
  The ring buffer of the stress client, \<^verbatim>\<open>src/src/exe-StressTest/RingBuffer.hpp\<close>. The class is a
  second copy of the server's \<open>RecvBuffer\<close>, with a constructor that does reset the indices. Its
  operations are translated from its own source and then related to those of \<open>RecvBuffer\<close> by an
  isomorphism of the two states, which carries the lemmas over.
\<close>

section \<open>State and operations\<close>

definition RING_BUFFER_SIZE :: int where
  "RING_BUFFER_SIZE = 1024 * 1024"

record RingBuffer =
  ring_mFront :: int
  ring_mRear :: int
  ring_mBuffer :: arr

definition RingBuffer_Reset :: "RingBuffer \<Rightarrow> RingBuffer" where
  "RingBuffer_Reset b = b\<lparr>ring_mFront := 0, ring_mRear := 0\<rparr>"

definition RingBuffer_ctor :: "RingBuffer \<Rightarrow> RingBuffer" where
  "RingBuffer_ctor storage = RingBuffer_Reset storage"

definition RingBuffer_GetBufferPtr :: "RingBuffer \<Rightarrow> int" where
  "RingBuffer_GetBufferPtr b = 0"

definition RingBuffer_GetFrontBufferPtr :: "RingBuffer \<Rightarrow> int" where
  "RingBuffer_GetFrontBufferPtr b = RingBuffer_GetBufferPtr b + ring_mFront b"

definition RingBuffer_GetRearBufferPtr :: "RingBuffer \<Rightarrow> int" where
  "RingBuffer_GetRearBufferPtr b = RingBuffer_GetBufferPtr b + ring_mRear b"

definition RingBuffer_GetDirectWriteSize :: "RingBuffer \<Rightarrow> int" where
  "RingBuffer_GetDirectWriteSize b =
     (if ring_mFront b \<le> ring_mRear b then RING_BUFFER_SIZE - ring_mRear b - 1
      else ring_mFront b - ring_mRear b - 1)"

definition RingBuffer_GetDIrectReadSize :: "RingBuffer \<Rightarrow> int" where
  "RingBuffer_GetDIrectReadSize b =
     (if ring_mFront b \<le> ring_mRear b then ring_mRear b - ring_mFront b else RING_BUFFER_SIZE - ring_mFront b)"

definition RingBuffer_GetUsedSize :: "RingBuffer \<Rightarrow> int" where
  "RingBuffer_GetUsedSize b =
     (if ring_mFront b \<le> ring_mRear b then ring_mRear b - ring_mFront b
      else RING_BUFFER_SIZE - ring_mFront b + ring_mRear b)"

definition RingBuffer_GetRemainSize :: "RingBuffer \<Rightarrow> int" where
  "RingBuffer_GetRemainSize b = RING_BUFFER_SIZE - 1 - RingBuffer_GetUsedSize b"

definition RingBuffer_Write :: "RingBuffer \<Rightarrow> Byte list \<Rightarrow> int \<Rightarrow> (bool \<times> RingBuffer) cxx" where
  "RingBuffer_Write b inputBuffer sz =
     (let remainSize = RingBuffer_GetRemainSize b in
      if remainSize < sz then Inr (False, b)
      else
        let directWriteSize = RingBuffer_GetDirectWriteSize b in
        bindr
          (if sz \<le> directWriteSize
           then memcpy_in RING_BUFFER_SIZE (ring_mBuffer b) (ring_mRear b) inputBuffer 0 sz
           else bindr (memcpy_in RING_BUFFER_SIZE (ring_mBuffer b) (ring_mRear b) inputBuffer 0 directWriteSize)
                  (\<lambda>m. memcpy_in RING_BUFFER_SIZE m 0 inputBuffer directWriteSize (sz - directWriteSize)))
          (\<lambda>m. bindr (add32 (ring_mRear b) sz)
             (\<lambda>r. Inr (True, b\<lparr>ring_mBuffer := m, ring_mRear := crem r RING_BUFFER_SIZE\<rparr>))))"

definition RingBuffer_Peek :: "RingBuffer \<Rightarrow> Byte list \<Rightarrow> int \<Rightarrow> (int \<times> Byte list) cxx" where
  "RingBuffer_Peek b readBuffer sz =
     (let usedSize = RingBuffer_GetUsedSize b;
          peekSize = (if usedSize \<le> sz then usedSize else sz);
          directReadSize = RingBuffer_GetDIrectReadSize b
      in bindr
          (if peekSize \<le> directReadSize
           then memcpy_out RING_BUFFER_SIZE readBuffer 0 (ring_mBuffer b) (ring_mFront b) peekSize
           else bindr (memcpy_out RING_BUFFER_SIZE readBuffer 0 (ring_mBuffer b) (ring_mFront b) directReadSize)
                  (\<lambda>d. memcpy_out RING_BUFFER_SIZE d directReadSize (ring_mBuffer b) 0 (peekSize - directReadSize)))
          (\<lambda>d. Inr (peekSize, d)))"

definition RingBuffer_Read :: "RingBuffer \<Rightarrow> Byte list \<Rightarrow> int \<Rightarrow> (int \<times> Byte list \<times> RingBuffer) cxx" where
  "RingBuffer_Read b readBuffer sz =
     bindr (RingBuffer_Peek b readBuffer sz) (\<lambda>(peekSize, d).
       bindr (add32 (ring_mFront b) peekSize) (\<lambda>f.
         Inr (peekSize, d, b\<lparr>ring_mFront := crem f RING_BUFFER_SIZE\<rparr>)))"

definition RingBuffer_MoveReadOffset :: "RingBuffer \<Rightarrow> int \<Rightarrow> RingBuffer cxx" where
  "RingBuffer_MoveReadOffset b moveSize =
     bindr (add32 (ring_mFront b) moveSize) (\<lambda>f. Inr (b\<lparr>ring_mFront := crem f RING_BUFFER_SIZE\<rparr>))"

definition RingBuffer_MoveWriteOffset :: "RingBuffer \<Rightarrow> int \<Rightarrow> RingBuffer cxx" where
  "RingBuffer_MoveWriteOffset b moveSize =
     bindr (add32 (ring_mRear b) moveSize) (\<lambda>r. Inr (b\<lparr>ring_mRear := crem r RING_BUFFER_SIZE\<rparr>))"

section \<open>Isomorphism with RecvBuffer\<close>

definition to_recv :: "RingBuffer \<Rightarrow> RecvBuffer" where
  "to_recv b = \<lparr>mFront = ring_mFront b, mRear = ring_mRear b, mBuffer = ring_mBuffer b\<rparr>"

definition of_recv :: "RecvBuffer \<Rightarrow> RingBuffer" where
  "of_recv b = \<lparr>ring_mFront = mFront b, ring_mRear = mRear b, ring_mBuffer = mBuffer b\<rparr>"

lemma to_recv_of_recv [simp]: "to_recv (of_recv b) = b" "of_recv (to_recv r) = r"
  by (simp_all add: to_recv_def of_recv_def)

lemma to_recv_fields [simp]:
  "mFront (to_recv b) = ring_mFront b" "mRear (to_recv b) = ring_mRear b" "mBuffer (to_recv b) = ring_mBuffer b"
  by (simp_all add: to_recv_def)

lemma of_recv_fields [simp]:
  "ring_mFront (of_recv r) = mFront r" "ring_mRear (of_recv r) = mRear r" "ring_mBuffer (of_recv r) = mBuffer r"
  by (simp_all add: of_recv_def)

lemma to_recv_update:
  "of_recv ((to_recv b)\<lparr>mBuffer := m, mRear := r\<rparr>) = b\<lparr>ring_mBuffer := m, ring_mRear := r\<rparr>"
  "of_recv ((to_recv b)\<lparr>mFront := f\<rparr>) = b\<lparr>ring_mFront := f\<rparr>"
  "of_recv ((to_recv b)\<lparr>mRear := r\<rparr>) = b\<lparr>ring_mRear := r\<rparr>"
  by (simp_all add: to_recv_def of_recv_def)

lemmas ring_sizes_def = RingBuffer_GetDirectWriteSize_def RingBuffer_GetDIrectReadSize_def
  RingBuffer_GetUsedSize_def RingBuffer_GetRemainSize_def

lemma ring_size [simp]: "RING_BUFFER_SIZE = BUFFER_SIZE"
  by (simp add: RING_BUFFER_SIZE_def BUFFER_SIZE_def)

lemma ring_sizes [simp]:
  "RingBuffer_GetDirectWriteSize b = RecvBuffer_GetDirectWriteSize (to_recv b)"
  "RingBuffer_GetDIrectReadSize b = RecvBuffer_GetDIrectReadSize (to_recv b)"
  "RingBuffer_GetUsedSize b = RecvBuffer_GetUsedSize (to_recv b)"
  "RingBuffer_GetRemainSize b = RecvBuffer_GetRemainSize (to_recv b)"
  by (simp_all add: ring_sizes_def RecvBuffer_sizes)

lemma bindr_map_sum: "bindr (map_sum id f r) g = bindr r (\<lambda>x. g (f x))"
  by (cases r) simp_all

lemma map_sum_bindr: "map_sum id f (bindr r g) = bindr r (\<lambda>x. map_sum id f (g x))"
  by (cases r) simp_all

lemma RingBuffer_Write_recv:
  "RingBuffer_Write b xs n = map_sum id (map_prod id of_recv) (RecvBuffer_Write (to_recv b) xs n)"
  by (simp add: RingBuffer_Write_def RecvBuffer_Write_def Let_def map_sum_bindr to_recv_update)

lemma RingBuffer_Peek_recv: "RingBuffer_Peek b xs n = RecvBuffer_Peek (to_recv b) xs n"
  by (simp add: RingBuffer_Peek_def RecvBuffer_Peek_def Let_def)

lemma RingBuffer_Read_recv:
  "RingBuffer_Read b xs n = map_sum id (map_prod id (map_prod id of_recv)) (RecvBuffer_Read (to_recv b) xs n)"
  by (simp add: RingBuffer_Read_def RecvBuffer_Read_def RingBuffer_Peek_recv map_sum_bindr to_recv_update
      split_def)

lemma RingBuffer_Move_recv:
  "RingBuffer_MoveReadOffset b n = map_sum id of_recv (RecvBuffer_MoveReadOffset (to_recv b) n)"
  "RingBuffer_MoveWriteOffset b n = map_sum id of_recv (RecvBuffer_MoveWriteOffset (to_recv b) n)"
  by (simp_all add: RingBuffer_MoveReadOffset_def RingBuffer_MoveWriteOffset_def RecvBuffer_MoveReadOffset_def
      RecvBuffer_MoveWriteOffset_def map_sum_bindr to_recv_update)

section \<open>The contract\<close>

definition RingBuffer_inv :: "RingBuffer \<Rightarrow> bool" where
  "RingBuffer_inv b \<longleftrightarrow> RecvBuffer_inv (to_recv b)"

definition RingBuffer_contents :: "RingBuffer \<Rightarrow> Byte list" where
  "RingBuffer_contents b = RecvBuffer_contents (to_recv b)"

definition RingBuffer_put :: "RingBuffer \<Rightarrow> Byte list \<Rightarrow> (bool \<times> RingBuffer) cxx" where
  "RingBuffer_put b xs = RingBuffer_Write b xs (int (length xs))"

definition RingBuffer_get :: "RingBuffer \<Rightarrow> nat \<Rightarrow> (Byte list \<times> RingBuffer) cxx" where
  "RingBuffer_get b n =
     bindr (RingBuffer_Read b (replicate n 0) (int n)) (\<lambda>(cnt, dst, b'). Inr (take (nat cnt) dst, b'))"

definition RingBuffer_contiguous :: "RingBuffer \<Rightarrow> Byte list \<Rightarrow> bool" where
  "RingBuffer_contiguous b xs \<longleftrightarrow>
     RingBuffer_GetRemainSize b < int (length xs) \<or> int (length xs) \<le> RingBuffer_GetDirectWriteSize b"

lemma RingBuffer_put_recv: "RingBuffer_put b xs = map_sum id (map_prod id of_recv) (RecvBuffer_put (to_recv b) xs)"
  by (simp add: RingBuffer_put_def RecvBuffer_put_def RingBuffer_Write_recv)

lemma RingBuffer_get_recv: "RingBuffer_get b n = map_sum id (map_prod id of_recv) (RecvBuffer_get (to_recv b) n)"
  by (simp add: RingBuffer_get_def RecvBuffer_get_def RingBuffer_Read_recv bindr_map_sum map_sum_bindr split_def)

lemma RingBuffer_ctor_empty [simp]:
  "RingBuffer_inv (RingBuffer_ctor storage)" "RingBuffer_contents (RingBuffer_ctor storage) = []"
  by (simp_all add: RingBuffer_inv_def RingBuffer_ctor_def RingBuffer_Reset_def RecvBuffer_inv_def
      RingBuffer_contents_def RecvBuffer_contents_def BUFFER_SIZE_def)

interpretation ring_fifo: byte_fifo RingBuffer_inv RingBuffer_contents RingBuffer_put RingBuffer_get
  RingBuffer_contiguous "nat (BUFFER_SIZE - 1)"
proof
  fix b xs n
  assume "RingBuffer_inv b"
  then have inv: "RecvBuffer_inv (to_recv b)" by (simp add: RingBuffer_inv_def)
  show "length (RingBuffer_contents b) \<le> nat (BUFFER_SIZE - 1)"
    using recv_fifo.bounded[OF inv] by (simp add: RingBuffer_contents_def)
  show "RingBuffer_put b xs = Inr (False, b)"
    if "nat (BUFFER_SIZE - 1) < length (RingBuffer_contents b) + length xs"
    using recv_fifo.put_full[OF inv] that by (simp add: RingBuffer_contents_def RingBuffer_put_recv)
  show "\<exists>b'. RingBuffer_put b xs = Inr (True, b') \<and> RingBuffer_inv b'
      \<and> RingBuffer_contents b' = RingBuffer_contents b @ xs"
    if "length (RingBuffer_contents b) + length xs \<le> nat (BUFFER_SIZE - 1)" and "RingBuffer_contiguous b xs"
    using recv_fifo.put_stores[OF inv, of xs] that
    by (auto simp: RingBuffer_contents_def RingBuffer_put_recv RingBuffer_contiguous_def RecvBuffer_contiguous_def
        RingBuffer_inv_def)
  show "\<exists>b'. RingBuffer_get b n = Inr (take n (RingBuffer_contents b), b') \<and> RingBuffer_inv b'
      \<and> RingBuffer_contents b' = drop n (RingBuffer_contents b)"
    using recv_fifo.get_takes[OF inv, of n]
    by (auto simp: RingBuffer_contents_def RingBuffer_get_recv RingBuffer_inv_def)
qed

section \<open>Operations on the stored bytes\<close>

lemma ring_used: "RingBuffer_inv b \<Longrightarrow> RecvBuffer_GetUsedSize (to_recv b) = int (length (RingBuffer_contents b))"
  using RecvBuffer_length_contents[of "to_recv b"] by (simp add: RingBuffer_inv_def RingBuffer_contents_def)

lemma ring_Write_appends:
  assumes "RingBuffer_inv b" and "int (length xs) \<le> RingBuffer_GetDirectWriteSize b"
  shows "\<exists>b'. RingBuffer_Write b xs (int (length xs)) = Inr (True, b') \<and> RingBuffer_inv b'
    \<and> RingBuffer_contents b' = RingBuffer_contents b @ xs
    \<and> ring_mFront b' = ring_mFront b \<and> ring_mRear b' = ring_mRear b + int (length xs)"
  using RecvBuffer_Write_direct[of "to_recv b" "int (length xs)" xs] assms
  by (auto simp: RingBuffer_inv_def RingBuffer_contents_def RingBuffer_Write_recv)

lemma ring_Write_ok:
  assumes "RingBuffer_inv b"
  shows "\<exists>ok b'. RingBuffer_Write b xs (int (length xs)) = Inr (ok, b') \<and> RingBuffer_inv b'"
  using RecvBuffer_Write_ok[of "to_recv b" "int (length xs)" xs] assms
  by (auto simp: RingBuffer_inv_def RingBuffer_Write_recv)

lemma ring_Peek_prefix:
  assumes "RingBuffer_inv b" and "n \<le> length (RingBuffer_contents b)" and "n = length dst"
  shows "RingBuffer_Peek b dst (int n) = Inr (int n, take n (RingBuffer_contents b))"
  using RecvBuffer_Peek_prefix[of "to_recv b" "int n" dst] assms ring_used[OF assms(1)]
  by (simp add: RingBuffer_Peek_recv RingBuffer_inv_def RingBuffer_contents_def)

lemma ring_Read_prefix:
  assumes "RingBuffer_inv b" and "n \<le> length (RingBuffer_contents b)" and "n = length dst"
  shows "\<exists>b'. RingBuffer_Read b dst (int n) = Inr (int n, take n (RingBuffer_contents b), b')
    \<and> RingBuffer_inv b' \<and> RingBuffer_contents b' = drop n (RingBuffer_contents b)"
  using RecvBuffer_Read_prefix[of "to_recv b" "int n" dst] assms ring_used[OF assms(1)]
  by (auto simp: RingBuffer_Read_recv RingBuffer_inv_def RingBuffer_contents_def)

lemma ring_MoveReadOffset_drops:
  assumes "RingBuffer_inv b" and "n \<le> length (RingBuffer_contents b)"
  shows "\<exists>b'. RingBuffer_MoveReadOffset b (int n) = Inr b' \<and> RingBuffer_inv b'
    \<and> RingBuffer_contents b' = drop n (RingBuffer_contents b)"
  using RecvBuffer_advance_front[of "to_recv b" "int n"] assms ring_used[OF assms(1)]
  by (auto simp: RingBuffer_Move_recv RecvBuffer_MoveReadOffset_def RingBuffer_inv_def RingBuffer_contents_def)

lemma ring_Reset_empty:
  "RingBuffer_inv (RingBuffer_Reset b)" "RingBuffer_contents (RingBuffer_Reset b) = []"
  using RingBuffer_ctor_empty[of b] by (simp_all add: RingBuffer_ctor_def)

section \<open>Properties\<close>

text \<open>
  C35. The two ring buffers of the repository are equivalent: under the correspondence of their
  fields, every operation of the client's buffer returns the same values, fails in the same cases
  and leaves the same state as the server's; the one difference is the constructor, after which the
  client's buffer is always empty and well formed, so that every history of contiguous writes and
  reads from a new buffer hands the accepted bytes out in order.
\<close>

theorem RingBuffer_equivalent:
  shows "RingBuffer_Write b xs n = map_sum id (map_prod id of_recv) (RecvBuffer_Write (to_recv b) xs n)
    \<and> RingBuffer_Peek b xs n = RecvBuffer_Peek (to_recv b) xs n
    \<and> RingBuffer_Read b xs n = map_sum id (map_prod id (map_prod id of_recv)) (RecvBuffer_Read (to_recv b) xs n)
    \<and> RingBuffer_MoveReadOffset b n = map_sum id of_recv (RecvBuffer_MoveReadOffset (to_recv b) n)
    \<and> RingBuffer_MoveWriteOffset b n = map_sum id of_recv (RecvBuffer_MoveWriteOffset (to_recv b) n)
    \<and> (fifo_run_ok RingBuffer_contiguous RingBuffer_put RingBuffer_get (RingBuffer_ctor b) ops \<longrightarrow>
        (\<exists>i out b'. fifo_run RingBuffer_put RingBuffer_get (RingBuffer_ctor b) ops = Inr (i, out, b')
           \<and> RingBuffer_inv b' \<and> out @ RingBuffer_contents b' = i))"
  using ring_fifo.run_preserves_stream[of "RingBuffer_ctor b" ops] RingBuffer_Write_recv RingBuffer_Peek_recv
    RingBuffer_Read_recv RingBuffer_Move_recv by auto

theorem RingBuffer_equivalent_witness:
  "\<exists>i out b'. fifo_run RingBuffer_put RingBuffer_get (RingBuffer_ctor (of_recv \<lparr>mFront = 7, mRear = 5, mBuffer = (\<lambda>_. 0)\<rparr>))
       [Put [1, 2, 3], Get 2] = Inr (i, out, b')
    \<and> RingBuffer_inv b' \<and> out @ RingBuffer_contents b' = i"
proof -
  have "fifo_run_ok RingBuffer_contiguous RingBuffer_put RingBuffer_get
      (RingBuffer_ctor (of_recv \<lparr>mFront = 7, mRear = 5, mBuffer = (\<lambda>_. 0)\<rparr>)) [Put [1, 2, 3], Get 2]"
    by (simp add: RingBuffer_ctor_def RingBuffer_Reset_def RingBuffer_contiguous_def of_recv_def to_recv_def
        RingBuffer_put_recv RingBuffer_get_recv RecvBuffer_eval)
  with RingBuffer_equivalent[of "of_recv \<lparr>mFront = 7, mRear = 5, mBuffer = (\<lambda>_. 0)\<rparr>" "[]" 0 "[Put [1, 2, 3], Get 2]"]
  show ?thesis by blast
qed

end
