(* ===== verification/Stress_Session.thy ===== *)
theory Stress_Session
  imports Ring_Buffer Net_Types
begin

text \<open>
  A client of the stress test, \<^verbatim>\<open>src/src/exe-StressTest/Session.hpp\<close> and \<^verbatim>\<open>Session.cpp\<close>: the ping
  packet, the session that sends one when it is created, and \<^verbatim>\<open>DoRecv\<close> and \<^verbatim>\<open>DoSend\<close>. A failed
  \<^verbatim>\<open>assert\<close> ends the program; it is the error value \<open>AssertionFailed\<close>. The clock is an argument: call
  \<open>k\<close> of \<^verbatim>\<open>QueryPerformanceCounter\<close> yields \<open>tick k\<close>.
\<close>

unbundle bit_operations_syntax

section \<open>Packets\<close>

definition ePacketID_PING :: UInt16 where
  "ePacketID_PING = 0"

record PacketHeader =
  mSize :: UInt16
  mID :: UInt16

record PingPacket =
  mSendTick :: Int64

definition sPACKET_HEADER_SIZE :: int where
  "sPACKET_HEADER_SIZE = 4"

definition sPING_PACKET_SIZE :: int where
  "sPING_PACKET_SIZE = 12"

text \<open>The bytes of an object on the little-endian machines of the program.\<close>

definition bytes16 :: "UInt16 \<Rightarrow> Byte list" where
  "bytes16 w = [ucast w, ucast (drop_bit 8 w)]"

definition of_bytes16 :: "Byte list \<Rightarrow> UInt16" where
  "of_bytes16 bs = ucast (bs ! 0) OR push_bit 8 (ucast (bs ! 1))"

definition bytes64 :: "Int64 \<Rightarrow> Byte list" where
  "bytes64 w = map (\<lambda>i. ucast (drop_bit (8 * i) w)) [0..<8]"

definition of_bytes64 :: "Byte list \<Rightarrow> Int64" where
  "of_bytes64 bs = foldr (\<lambda>b acc. ucast b OR push_bit 8 acc) (take 8 bs) 0"

definition header_bytes :: "PacketHeader \<Rightarrow> Byte list" where
  "header_bytes h = bytes16 (mSize h) @ bytes16 (mID h)"

definition of_header_bytes :: "Byte list \<Rightarrow> PacketHeader" where
  "of_header_bytes bs = \<lparr>mSize = of_bytes16 (take 2 bs), mID = of_bytes16 (drop 2 bs)\<rparr>"

definition ping_bytes :: "PingPacket \<Rightarrow> Byte list" where
  "ping_bytes p = bytes64 (mSendTick p)"

definition of_ping_bytes :: "Byte list \<Rightarrow> PingPacket" where
  "of_ping_bytes bs = \<lparr>mSendTick = of_bytes64 bs\<rparr>"

definition ping_header :: PacketHeader where
  "ping_header = \<lparr>mSize = word_of_int sPING_PACKET_SIZE, mID = ePacketID_PING\<rparr>"

section \<open>The session\<close>

record StressSession =
  mSocket :: int
  mRecvRing :: RingBuffer
  mSendRing :: RingBuffer

text \<open>The results of the two writes are not looked at.\<close>

definition StressSession_ctor :: "RingBuffer \<Rightarrow> RingBuffer \<Rightarrow> int \<Rightarrow> Int64 \<Rightarrow> StressSession cxx" where
  "StressSession_ctor recvStorage sendStorage clientFD now =
     bindr (RingBuffer_Write (RingBuffer_ctor sendStorage) (header_bytes ping_header) sPACKET_HEADER_SIZE) (\<lambda>(_, b1).
       bindr (RingBuffer_Write b1 (ping_bytes \<lparr>mSendTick = now\<rparr>) 8) (\<lambda>(_, b2).
         Inr \<lparr>mSocket = clientFD, mRecvRing = RingBuffer_ctor recvStorage, mSendRing = b2\<rparr>))"

definition sub64 :: "Int64 \<Rightarrow> Int64 \<Rightarrow> int cxx" where
  "sub64 a b = (let d = sint a - sint b in
     if - (2 ^ 63) \<le> d \<and> d < 2 ^ 63 then Inr d else Inl SignedOverflow)"

text \<open>One packet of the loop of \<^verbatim>\<open>DoRecv\<close>, from the peek at its header to the answer: \<open>None\<close> for \<^verbatim>\<open>break\<close>.\<close>

definition ping_step :: "Int64 \<Rightarrow> StressSession \<Rightarrow> int \<Rightarrow> (StressSession \<times> int) option cxx" where
  "ping_step now s maxRtt =
     (let bufferUsedSize = RingBuffer_GetUsedSize (mRecvRing s) in
      if bufferUsedSize < sPACKET_HEADER_SIZE then Inr None
      else bindr (RingBuffer_Peek (mRecvRing s) (replicate 4 0) sPACKET_HEADER_SIZE) (\<lambda>(peekSize, hb).
        let header = of_header_bytes hb in
        if peekSize \<noteq> sPACKET_HEADER_SIZE \<or> mID header \<noteq> ePacketID_PING
           \<or> uint (mSize header) \<noteq> sPING_PACKET_SIZE then Inl AssertionFailed
        else if bufferUsedSize < uint (mSize header) then Inr None
        else bindr (RingBuffer_MoveReadOffset (mRecvRing s) sPACKET_HEADER_SIZE) (\<lambda>r1.
          bindr (RingBuffer_Read r1 (replicate 8 0) 8) (\<lambda>(readSize, pb, r2).
            if readSize \<noteq> 8 then Inl AssertionFailed
            else bindr (sub64 now (mSendTick (of_ping_bytes pb))) (\<lambda>interval.
              bindr (RingBuffer_Write (mSendRing s) (header_bytes header) sPACKET_HEADER_SIZE) (\<lambda>(_, b1).
                bindr (RingBuffer_Write b1 (ping_bytes \<lparr>mSendTick = now\<rparr>) 8) (\<lambda>(_, b2).
                  Inr (Some (s\<lparr>mRecvRing := r2, mSendRing := b2\<rparr>, max maxRtt interval)))))))))"

text \<open>
  The loop, with fuel: every round consumes a whole packet, so a buffer never holds more rounds than
  its size. The result counts the readings of the clock; \<open>None\<close> means that the fuel did not suffice.
\<close>

fun ping_loop :: "nat \<Rightarrow> (nat \<Rightarrow> Int64) \<Rightarrow> nat \<Rightarrow> StressSession \<Rightarrow> int \<Rightarrow> (StressSession \<times> int \<times> nat) cxx option" where
  "ping_loop 0 tick k s maxRtt = None"
| "ping_loop (Suc fuel) tick k s maxRtt =
     (case ping_step (tick k) s maxRtt of
        Inl e \<Rightarrow> Some (Inl e)
      | Inr None \<Rightarrow> Some (Inr (s, maxRtt, k))
      | Inr (Some (s', maxRtt')) \<Rightarrow> ping_loop fuel tick (Suc k) s' maxRtt')"

datatype stress_answer = GotBytes "Byte list" | SocketError

text \<open>
  \<^verbatim>\<open>DoRecv\<close>: the flag, the session, the largest round trip, the clock readings so far, and the
  sockets closed.
\<close>

definition StressSession_DoRecv ::
  "(nat \<Rightarrow> Int64) \<Rightarrow> nat \<Rightarrow> StressSession \<Rightarrow> int \<Rightarrow> stress_answer \<Rightarrow>
   (bool \<times> StressSession \<times> int \<times> nat \<times> int list) cxx option" where
  "StressSession_DoRecv tick k s maxRtt answer =
     (case answer of
        SocketError \<Rightarrow> Some (Inr (False, s, maxRtt, k, [mSocket s]))
      | GotBytes bs \<Rightarrow>
          if bs = [] then Some (Inr (False, s, maxRtt, k, [mSocket s]))
          else
            (case bindr (memcpy_in RING_BUFFER_SIZE (ring_mBuffer (mRecvRing s))
                    (RingBuffer_GetRearBufferPtr (mRecvRing s)) bs 0 (int (length bs)))
                  (\<lambda>m. RingBuffer_MoveWriteOffset ((mRecvRing s)\<lparr>ring_mBuffer := m\<rparr>) (int (length bs))) of
               Inl e \<Rightarrow> Some (Inl e)
             | Inr r \<Rightarrow>
                 map_option (\<lambda>res. bindr res (\<lambda>(s', rtt, k').
                     let r' = (if RingBuffer_GetUsedSize (mRecvRing s') = 0
                               then RingBuffer_Reset (mRecvRing s') else mRecvRing s')
                     in Inr (True, s'\<lparr>mRecvRing := r'\<rparr>, rtt, k', [])))
                   (ping_loop (nat RING_BUFFER_SIZE) tick k (s\<lparr>mRecvRing := r\<rparr>) maxRtt)))"

text \<open>
  \<^verbatim>\<open>DoSend\<close>: \<open>Sent n\<close> is a call of \<^verbatim>\<open>send\<close> that took \<open>n\<close> bytes. The result is the flag, the session, the
  bytes handed to the call and the sockets closed.
\<close>

datatype send_answer = Sent int | SendError

definition StressSession_DoSend ::
  "StressSession \<Rightarrow> send_answer \<Rightarrow> (bool \<times> StressSession \<times> Byte list \<times> int list) cxx" where
  "StressSession_DoSend s answer =
     (if RingBuffer_GetUsedSize (mSendRing s) = 0 then Inr (False, s, [], [])
      else
        let b = mSendRing s; front = RingBuffer_GetFrontBufferPtr b; n = RingBuffer_GetDIrectReadSize b in
        if front < 0 \<or> RING_BUFFER_SIZE < front + n then Inl OutOfBounds
        else
          let block = bytes_at (ring_mBuffer b) front n in
          (case answer of
             SendError \<Rightarrow> Inr (False, s, block, [mSocket s])
           | Sent result \<Rightarrow>
               if result = 0 then Inr (False, s, block, [])
               else bindr (RingBuffer_MoveReadOffset b result) (\<lambda>b1.
                 let b2 = (if RingBuffer_GetUsedSize b1 = 0 then RingBuffer_Reset b1 else b1)
                 in Inr (True, s\<lparr>mSendRing := b2\<rparr>, block, []))))"

definition StressSession_dtor :: "StressSession \<Rightarrow> StressSession" where
  "StressSession_dtor s = s\<lparr>mRecvRing := RingBuffer_Reset (mRecvRing s), mSendRing := RingBuffer_Reset (mSendRing s)\<rparr>"

section \<open>Packets round-trip\<close>

lemma length_header_bytes [simp]: "length (header_bytes h) = 4"
  by (simp add: header_bytes_def bytes16_def)

lemma length_ping_bytes [simp]: "length (ping_bytes p) = 8"
  by (simp add: ping_bytes_def bytes64_def)

lemma of_bytes16_bytes16: "of_bytes16 (bytes16 w) = w"
  by (rule bit_word_eqI) (auto simp: of_bytes16_def bytes16_def bit_or_iff bit_push_bit_iff bit_ucast_iff bit_drop_bit_eq)

lemma of_header_bytes_bytes [simp]: "of_header_bytes (header_bytes h) = h"
  using of_bytes16_bytes16[of "mSize h"] of_bytes16_bytes16[of "mID h"]
  by (simp add: of_header_bytes_def header_bytes_def bytes16_def of_bytes16_def)

lemma of_bytes_fold:
  fixes w :: Int64
  assumes "m < 64"
  shows "bit (foldr (\<lambda>b acc. ucast b OR push_bit 8 acc)
      (map (\<lambda>i. ucast (drop_bit (8 * i) w) :: Byte) [a..<a + n]) 0 :: Int64) m \<longleftrightarrow> m < 8 * n \<and> bit w (8 * a + m)"
  using assms
proof (induction n arbitrary: a m)
  case 0
  then show ?case by simp
next
  case (Suc n)
  have split: "[a..<a + Suc n] = a # [Suc a..<Suc a + n]" by (simp add: upt_conv_Cons)
  have "m - 8 < 64" using Suc.prems by simp
  note ih = Suc.IH[OF this, of "Suc a"]
  have "8 + 8 * a + (m - 8) = 8 * a + m" if "8 \<le> m" using that by simp
  then show ?case
    unfolding split using Suc.prems ih
    by (cases "m < 8") (auto simp: bit_or_iff bit_push_bit_iff bit_ucast_iff bit_drop_bit_eq)
qed

lemma of_bytes64_bytes64: "of_bytes64 (bytes64 w) = w"
proof -
  have "bit (of_bytes64 (bytes64 w)) n = bit w n" if "n < 64" for n
    using of_bytes_fold[OF that, of w 0 8] that by (simp add: of_bytes64_def bytes64_def)
  then show ?thesis by (intro bit_word_eqI) simp
qed

lemma of_ping_bytes_bytes [simp]: "of_ping_bytes (ping_bytes p) = p"
  by (cases p) (simp add: of_ping_bytes_def ping_bytes_def of_bytes64_bytes64)

section \<open>One packet and many\<close>

definition ping :: "Int64 \<Rightarrow> Byte list" where
  "ping t = header_bytes ping_header @ ping_bytes \<lparr>mSendTick = t\<rparr>"

lemma length_ping [simp]: "length (ping t) = 12"
  by (simp add: ping_def)

lemma ping_header_ok: "mID ping_header = ePacketID_PING" "uint (mSize ping_header) = sPING_PACKET_SIZE"
  by (simp_all add: ping_header_def sPING_PACKET_SIZE_def)

lemma sub64_nonneg: "0 \<le> sint a \<Longrightarrow> 0 \<le> sint b \<Longrightarrow> sub64 a b = Inr (sint a - sint b)"
  using sint_lt[of a] sint_lt[of b] by (simp add: sub64_def)

definition recv_bytes :: "StressSession \<Rightarrow> Byte list" where
  "recv_bytes s = RingBuffer_contents (mRecvRing s)"

definition send_bytes :: "StressSession \<Rightarrow> Byte list" where
  "send_bytes s = RingBuffer_contents (mSendRing s)"

text \<open>Both rings are well formed and the send ring has \<open>n\<close> bytes left before the end of its array.\<close>

definition stress_inv :: "nat \<Rightarrow> StressSession \<Rightarrow> bool" where
  "stress_inv n s \<longleftrightarrow> RingBuffer_inv (mRecvRing s) \<and> RingBuffer_inv (mSendRing s)
     \<and> ring_mFront (mSendRing s) \<le> ring_mRear (mSendRing s)
     \<and> ring_mRear (mSendRing s) + int n < BUFFER_SIZE"

lemma send_ring_Write:
  assumes "stress_inv (n + length xs) s"
  shows "\<exists>b. RingBuffer_Write (mSendRing s) xs (int (length xs)) = Inr (True, b)
    \<and> stress_inv n (s\<lparr>mSendRing := b\<rparr>) \<and> send_bytes (s\<lparr>mSendRing := b\<rparr>) = send_bytes s @ xs"
proof -
  have "int (length xs) \<le> RingBuffer_GetDirectWriteSize (mSendRing s)"
    using assms by (simp add: stress_inv_def RecvBuffer_GetDirectWriteSize_def)
  with assms ring_Write_appends[of "mSendRing s" xs] show ?thesis
    by (auto simp: stress_inv_def send_bytes_def)
qed

lemma ping_step_packet:
  assumes inv: "stress_inv (n + 12) s" and pkt: "recv_bytes s = ping t @ rest"
    and nonneg: "0 \<le> sint now" "0 \<le> sint t"
  shows "\<exists>s'. ping_step now s m = Inr (Some (s', max m (sint now - sint t))) \<and> stress_inv n s'
    \<and> recv_bytes s' = rest \<and> send_bytes s' = send_bytes s @ ping now \<and> mSocket s' = mSocket s"
proof -
  let ?r = "mRecvRing s"
  have ri: "RingBuffer_inv ?r" using inv by (simp add: stress_inv_def)
  have used: "RecvBuffer_GetUsedSize (to_recv ?r) = 12 + int (length rest)"
    using ring_used[OF ri] pkt by (simp add: recv_bytes_def)
  have peek: "RingBuffer_Peek ?r (replicate 4 0) sPACKET_HEADER_SIZE = Inr (4, header_bytes ping_header)"
    using ring_Peek_prefix[OF ri, of 4 "replicate 4 0"] pkt
    by (simp add: recv_bytes_def ping_def sPACKET_HEADER_SIZE_def)
  obtain r1 where r1: "RingBuffer_MoveReadOffset ?r sPACKET_HEADER_SIZE = Inr r1" "RingBuffer_inv r1"
      "RingBuffer_contents r1 = ping_bytes \<lparr>mSendTick = t\<rparr> @ rest"
    using ring_MoveReadOffset_drops[OF ri, of 4] pkt
    by (auto simp: recv_bytes_def ping_def sPACKET_HEADER_SIZE_def)
  obtain r2 where r2: "RingBuffer_Read r1 (replicate 8 0) 8 = Inr (8, ping_bytes \<lparr>mSendTick = t\<rparr>, r2)" "RingBuffer_inv r2"
      "RingBuffer_contents r2 = rest"
    using ring_Read_prefix[OF r1(2), of 8 "replicate 8 0"] r1(3) by auto
  have "stress_inv ((n + length (ping_bytes \<lparr>mSendTick = now\<rparr>)) + length (header_bytes ping_header)) s"
    using inv by (simp add: ac_simps)
  from send_ring_Write[OF this] obtain b1 where
    b1: "RingBuffer_Write (mSendRing s) (header_bytes ping_header) sPACKET_HEADER_SIZE = Inr (True, b1)"
      "stress_inv (n + length (ping_bytes \<lparr>mSendTick = now\<rparr>)) (s\<lparr>mSendRing := b1\<rparr>)"
      "send_bytes (s\<lparr>mSendRing := b1\<rparr>) = send_bytes s @ header_bytes ping_header"
    by (auto simp: sPACKET_HEADER_SIZE_def)
  from send_ring_Write[OF b1(2)] obtain b2 where
    b2: "RingBuffer_Write b1 (ping_bytes \<lparr>mSendTick = now\<rparr>) 8 = Inr (True, b2)"
      "stress_inv n (s\<lparr>mSendRing := b2\<rparr>)"
      "send_bytes (s\<lparr>mSendRing := b2\<rparr>) = send_bytes s @ ping now"
    using b1(3) by (auto simp: ping_def)
  let ?s' = "s\<lparr>mRecvRing := r2, mSendRing := b2\<rparr>"
  have "ping_step now s m = Inr (Some (?s', max m (sint now - sint t)))"
    using used peek r1(1) r2(1) b1(1) b2(1) nonneg ping_header_ok
    by (simp add: ping_step_def sub64_nonneg sPACKET_HEADER_SIZE_def sPING_PACKET_SIZE_def)
  moreover have "stress_inv n ?s'" "recv_bytes ?s' = rest" "send_bytes ?s' = send_bytes s @ ping now"
    using b2 r2 by (simp_all add: stress_inv_def recv_bytes_def send_bytes_def)
  ultimately show ?thesis by auto
qed

text \<open>A proper prefix of a packet makes the loop stop.\<close>

lemma ping_step_partial:
  assumes "stress_inv n s" and "recv_bytes s = take j (ping t)" and "j < 12"
  shows "ping_step now s m = Inr None"
proof -
  have ri: "RingBuffer_inv (mRecvRing s)" using assms(1) by (simp add: stress_inv_def)
  have used: "RecvBuffer_GetUsedSize (to_recv (mRecvRing s)) = int j"
    using ring_used[OF ri] assms(2,3) by (simp add: recv_bytes_def)
  show ?thesis
  proof (cases "j < 4")
    case True
    with used show ?thesis by (simp add: ping_step_def sPACKET_HEADER_SIZE_def)
  next
    case False
    then have "take 4 (RingBuffer_contents (mRecvRing s)) = header_bytes ping_header"
      using assms(2,3) by (simp add: recv_bytes_def ping_def min_def)
    then have "RingBuffer_Peek (mRecvRing s) (replicate 4 0) sPACKET_HEADER_SIZE = Inr (4, header_bytes ping_header)"
      using ring_Peek_prefix[OF ri, of 4 "replicate 4 0"] False assms(2,3)
      by (simp add: recv_bytes_def sPACKET_HEADER_SIZE_def)
    with used False assms(3) ping_header_ok show ?thesis
      by (simp add: ping_step_def sPACKET_HEADER_SIZE_def sPING_PACKET_SIZE_def)
  qed
qed

fun rtt_after :: "(nat \<Rightarrow> Int64) \<Rightarrow> nat \<Rightarrow> int \<Rightarrow> Int64 list \<Rightarrow> int" where
  "rtt_after tick k m [] = m"
| "rtt_after tick k m (t # ts) = rtt_after tick (Suc k) (max m (sint (tick k) - sint t)) ts"

lemma ping_loop_packets:
  assumes "stress_inv (12 * length ts + n) s" and "recv_bytes s = concat (map ping ts) @ take j (ping t)" and "j < 12"
    and "\<forall>t\<in>set ts. 0 \<le> sint t" and "\<forall>i. 0 \<le> sint (tick i)" and "length ts < fuel"
  shows "\<exists>s'. ping_loop fuel tick k s m = Some (Inr (s', rtt_after tick k m ts, k + length ts))
    \<and> stress_inv n s' \<and> recv_bytes s' = take j (ping t) \<and> mSocket s' = mSocket s
    \<and> send_bytes s' = send_bytes s @ concat (map (\<lambda>i. ping (tick i)) [k..<k + length ts])"
  using assms
proof (induction ts arbitrary: fuel k s m)
  case Nil
  then obtain f where "fuel = Suc f" by (cases fuel) auto
  with Nil ping_step_partial[of n s j t] show ?case by simp
next
  case (Cons u ts)
  obtain f where fuel: "fuel = Suc f" using Cons.prems(6) by (cases fuel) auto
  have "stress_inv ((12 * length ts + n) + 12) s" "recv_bytes s = ping u @ (concat (map ping ts) @ take j (ping t))"
      "0 \<le> sint (tick k)" "0 \<le> sint u"
    using Cons.prems by (simp_all add: ac_simps)
  from ping_step_packet[OF this, of m] obtain s1 where
    s1: "ping_step (tick k) s m = Inr (Some (s1, max m (sint (tick k) - sint u)))" "stress_inv (12 * length ts + n) s1"
      "recv_bytes s1 = concat (map ping ts) @ take j (ping t)" "send_bytes s1 = send_bytes s @ ping (tick k)"
      "mSocket s1 = mSocket s" by blast
  from Cons.IH[OF s1(2,3) Cons.prems(3), of f "Suc k" "max m (sint (tick k) - sint u)"] Cons.prems(4-6) fuel s1(1,4,5)
  obtain s' where
    s': "ping_loop f tick (Suc k) s1 (max m (sint (tick k) - sint u)) = Some (Inr (s', rtt_after tick k m (u # ts), Suc k + length ts))"
      "stress_inv n s'" "recv_bytes s' = take j (ping t)" "mSocket s' = mSocket s"
      "send_bytes s' = send_bytes s1 @ concat (map (\<lambda>i. ping (tick i)) [Suc k..<Suc k + length ts])" by auto
  have "[k..<k + length (u # ts)] = k # [Suc k..<Suc k + length ts]"
    using upt_conv_Cons[of k "k + Suc (length ts)"] by simp
  with s' s1(1,4) show ?case by (simp add: fuel del: upt_Suc)
qed

lemma ring_recv_appends:
  assumes "RingBuffer_inv b" and "int (length bs) \<le> RingBuffer_GetDirectWriteSize b"
  shows "\<exists>r. bindr (memcpy_in RING_BUFFER_SIZE (ring_mBuffer b) (RingBuffer_GetRearBufferPtr b) bs 0 (int (length bs)))
        (\<lambda>m. RingBuffer_MoveWriteOffset (b\<lparr>ring_mBuffer := m\<rparr>) (int (length bs))) = Inr r
    \<and> RingBuffer_inv r \<and> RingBuffer_contents r = RingBuffer_contents b @ bs \<and> ring_mFront r = ring_mFront b"
proof -
  have "int (length bs) \<le> RecvBuffer_GetRemainSize (to_recv b)"
    using assms by (auto simp: RingBuffer_inv_def RecvBuffer_inv_def RecvBuffer_sizes split: if_splits)
  then have "RingBuffer_Write b bs (int (length bs)) = bindr
      (bindr (memcpy_in RING_BUFFER_SIZE (ring_mBuffer b) (RingBuffer_GetRearBufferPtr b) bs 0 (int (length bs)))
        (\<lambda>m. RingBuffer_MoveWriteOffset (b\<lparr>ring_mBuffer := m\<rparr>) (int (length bs)))) (\<lambda>r. Inr (True, r))"
    using assms(2)
    by (auto simp: RingBuffer_Write_def RingBuffer_MoveWriteOffset_def RingBuffer_GetRearBufferPtr_def
        RingBuffer_GetBufferPtr_def bindr_def split: sum.splits)
  with ring_Write_appends[OF assms] show ?thesis by (auto simp: bindr_Inr_iff)
qed

lemma send_front_order:
  assumes "stress_inv n s" and "RingBuffer_MoveReadOffset (mSendRing s) k = Inr b" and "0 \<le> k"
    and "nat k \<le> length (send_bytes s)"
  shows "ring_mFront b \<le> ring_mRear b \<and> ring_mRear b < BUFFER_SIZE"
proof -
  have inv: "RingBuffer_inv (mSendRing s)" and le: "ring_mFront (mSendRing s) \<le> ring_mRear (mSendRing s)"
    and lt: "ring_mRear (mSendRing s) < BUFFER_SIZE" using assms(1) by (auto simp: stress_inv_def)
  have "k \<le> ring_mRear (mSendRing s) - ring_mFront (mSendRing s)"
    using ring_used[OF inv] le assms(3,4) by (simp add: send_bytes_def RecvBuffer_GetUsedSize_def)
  moreover have "0 \<le> ring_mFront (mSendRing s)" using inv by (simp add: RingBuffer_inv_def RecvBuffer_inv_def)
  ultimately show ?thesis
    using assms(2,3) le lt by (auto simp: RingBuffer_MoveReadOffset_def bindr_Inr_iff add32_def split: if_splits)
qed

section \<open>A receive call\<close>

lemma DoRecv_packets:
  assumes "stress_inv (12 * length ts) s" and "bs \<noteq> []"
    and "int (length bs) \<le> RingBuffer_GetDirectWriteSize (mRecvRing s)"
    and "recv_bytes s @ bs = concat (map ping ts) @ take j (ping t)" and "j < 12"
    and "\<forall>t\<in>set ts. 0 \<le> sint t" and "\<forall>i. 0 \<le> sint (tick i)"
  shows "\<exists>s'. StressSession_DoRecv tick k s m (GotBytes bs)
      = Some (Inr (True, s', rtt_after tick k m ts, k + length ts, []))
    \<and> stress_inv 0 s' \<and> recv_bytes s' = take j (ping t) \<and> mSocket s' = mSocket s
    \<and> send_bytes s' = send_bytes s @ concat (map (\<lambda>i. ping (tick i)) [k..<k + length ts])
    \<and> (ts = [] \<longrightarrow> mSendRing s' = mSendRing s)
    \<and> (ts = [] \<and> ring_mFront (mRecvRing s) = 0 \<or> j = 0 \<longrightarrow> ring_mFront (mRecvRing s') = 0)"
proof -
  let ?r = "mRecvRing s"
  have ri: "RingBuffer_inv ?r" using assms(1) by (simp add: stress_inv_def)
  obtain r where r: "bindr (memcpy_in RING_BUFFER_SIZE (ring_mBuffer ?r) (RingBuffer_GetRearBufferPtr ?r) bs 0 (int (length bs)))
        (\<lambda>m. RingBuffer_MoveWriteOffset (?r\<lparr>ring_mBuffer := m\<rparr>) (int (length bs))) = Inr r"
      "RingBuffer_inv r" "RingBuffer_contents r = RingBuffer_contents ?r @ bs" "ring_mFront r = ring_mFront ?r"
    using ring_recv_appends[OF ri assms(3)] by blast
  let ?s = "s\<lparr>mRecvRing := r\<rparr>"
  have "stress_inv (12 * length ts + 0) ?s" using assms(1) r(2) by (simp add: stress_inv_def)
  moreover have all: "recv_bytes ?s = concat (map ping ts) @ take j (ping t)"
    using r(3) assms(4) by (simp add: recv_bytes_def)
  moreover have "length ts < nat RING_BUFFER_SIZE"
  proof -
    have "length (concat (map ping ts)) = 12 * length ts" by (induction ts) simp_all
    moreover have "length (RingBuffer_contents r) \<le> nat (BUFFER_SIZE - 1)" using ring_fifo.bounded[OF r(2)] .
    ultimately show ?thesis using all by (simp add: recv_bytes_def BUFFER_SIZE_def)
  qed
  ultimately obtain s' where
    s': "ping_loop (nat RING_BUFFER_SIZE) tick k ?s m = Some (Inr (s', rtt_after tick k m ts, k + length ts))"
      "stress_inv 0 s'" "recv_bytes s' = take j (ping t)" "mSocket s' = mSocket s"
      "send_bytes s' = send_bytes s @ concat (map (\<lambda>i. ping (tick i)) [k..<k + length ts])"
    using ping_loop_packets[of ts 0 ?s j t tick "nat RING_BUFFER_SIZE" k m] assms(5-7)
    by (auto simp: send_bytes_def)
  have stay: "s' = ?s" if "ts = []"
  proof -
    have "ping_step (tick k) ?s m = Inr None"
      using ping_step_partial[of 0 ?s j t] assms(1,4,5) r(2,3) that by (simp add: stress_inv_def recv_bytes_def)
    moreover obtain f where "nat RING_BUFFER_SIZE = Suc f" by (cases "nat RING_BUFFER_SIZE") (auto simp: BUFFER_SIZE_def)
    ultimately show ?thesis using s'(1) that by (simp del: ring_size)
  qed
  let ?r' = "if RingBuffer_GetUsedSize (mRecvRing s') = 0 then RingBuffer_Reset (mRecvRing s') else mRecvRing s'"
  have "RingBuffer_inv ?r' \<and> RingBuffer_contents ?r' = RingBuffer_contents (mRecvRing s')"
    using s'(2) ring_used[of "mRecvRing s'"] ring_Reset_empty[of "mRecvRing s'"] by (auto simp: stress_inv_def)
  then have "stress_inv 0 (s'\<lparr>mRecvRing := ?r'\<rparr>)" "recv_bytes (s'\<lparr>mRecvRing := ?r'\<rparr>) = take j (ping t)"
      "send_bytes (s'\<lparr>mRecvRing := ?r'\<rparr>) = send_bytes s'"
    using s'(2,3) by (simp_all add: stress_inv_def recv_bytes_def send_bytes_def)
  moreover have "StressSession_DoRecv tick k s m (GotBytes bs)
      = Some (Inr (True, s'\<lparr>mRecvRing := ?r'\<rparr>, rtt_after tick k m ts, k + length ts, []))"
    using assms(2) r(1) s'(1) by (simp add: StressSession_DoRecv_def)
  moreover have "ring_mFront ?r' = 0" if "ts = [] \<and> ring_mFront ?r = 0 \<or> j = 0"
    using that stay r(4) s'(2,3) ring_used[of "mRecvRing s'"]
    by (auto simp: RingBuffer_Reset_def stress_inv_def recv_bytes_def)
  moreover have "mSendRing s' = mSendRing s" if "ts = []" using stay[OF that] by simp
  ultimately show ?thesis using s'(4,5) by (intro exI[of _ "s'\<lparr>mRecvRing := ?r'\<rparr>"]) simp
qed

text \<open>A new session has one ping packet to send.\<close>

lemma StressSession_ctor_ok:
  "\<exists>s. StressSession_ctor r1 r2 fd t = Inr s \<and> stress_inv 0 s \<and> mSocket s = fd
    \<and> recv_bytes s = [] \<and> send_bytes s = ping t"
proof -
  let ?s = "\<lparr>mSocket = fd, mRecvRing = RingBuffer_ctor r1, mSendRing = RingBuffer_ctor r2\<rparr>"
  have inv: "stress_inv ((0 + length (ping_bytes \<lparr>mSendTick = t\<rparr>)) + length (header_bytes ping_header)) ?s"
    and empty: "send_bytes ?s = []" "recv_bytes ?s = []"
    by (simp_all add: stress_inv_def send_bytes_def recv_bytes_def RingBuffer_ctor_def[of r2] RingBuffer_Reset_def
        BUFFER_SIZE_def RingBuffer_inv_def RecvBuffer_inv_def RingBuffer_ctor_def[of r1] RingBuffer_contents_def
        RecvBuffer_contents_def)
  from send_ring_Write[OF inv] obtain b1 where
    b1: "RingBuffer_Write (RingBuffer_ctor r2) (header_bytes ping_header) sPACKET_HEADER_SIZE = Inr (True, b1)"
      "stress_inv (0 + length (ping_bytes \<lparr>mSendTick = t\<rparr>)) (?s\<lparr>mSendRing := b1\<rparr>)"
      "send_bytes (?s\<lparr>mSendRing := b1\<rparr>) = header_bytes ping_header"
    using empty by (auto simp: sPACKET_HEADER_SIZE_def)
  from send_ring_Write[OF b1(2)] obtain b2 where
    "RingBuffer_Write b1 (ping_bytes \<lparr>mSendTick = t\<rparr>) 8 = Inr (True, b2)"
      "stress_inv 0 (?s\<lparr>mSendRing := b2\<rparr>)" "send_bytes (?s\<lparr>mSendRing := b2\<rparr>) = ping t"
    using b1(3) by (auto simp: ping_def)
  with b1(1) empty(2) show ?thesis
    by (auto simp: StressSession_ctor_def recv_bytes_def)
qed

section \<open>Progress of the loop on any input\<close>

text \<open>Both rings are well formed; nothing is said about the bytes in them.\<close>

definition rings_ok :: "StressSession \<Rightarrow> bool" where
  "rings_ok s \<longleftrightarrow> RingBuffer_inv (mRecvRing s) \<and> RingBuffer_inv (mSendRing s)"

text \<open>The two ways in which the client gives up on its input: a failed assertion and a clock difference out of range.\<close>

abbreviation client_abort :: "ub \<Rightarrow> bool" where
  "client_abort e \<equiv> e \<in> {AssertionFailed, SignedOverflow}"

lemma ping_step_progress:
  assumes "rings_ok s"
  shows "(\<exists>e. ping_step now s m = Inl e \<and> client_abort e) \<or> ping_step now s m = Inr None
    \<or> (\<exists>s' m'. ping_step now s m = Inr (Some (s', m')) \<and> rings_ok s' \<and> mSocket s' = mSocket s
         \<and> length (recv_bytes s) = 12 + length (recv_bytes s'))"
proof -
  let ?r = "mRecvRing s"
  have ri: "RingBuffer_inv ?r" and si: "RingBuffer_inv (mSendRing s)" using assms by (auto simp: rings_ok_def)
  note used = ring_used[OF ri]
  show ?thesis
  proof (cases "length (recv_bytes s) < 4")
    case True
    with used show ?thesis by (simp add: ping_step_def sPACKET_HEADER_SIZE_def recv_bytes_def)
  next
    case False
    define hb where "hb = take 4 (RingBuffer_contents ?r)"
    have peek: "RingBuffer_Peek ?r (replicate 4 0) sPACKET_HEADER_SIZE = Inr (4, hb)"
      using ring_Peek_prefix[OF ri, of 4 "replicate 4 0"] False by (simp add: sPACKET_HEADER_SIZE_def recv_bytes_def hb_def)
    show ?thesis
    proof (cases "mID (of_header_bytes hb) = ePacketID_PING \<and> uint (mSize (of_header_bytes hb)) = sPING_PACKET_SIZE
        \<and> 12 \<le> length (recv_bytes s)")
      case False
      with peek used show ?thesis
        by (auto simp: ping_step_def sPACKET_HEADER_SIZE_def sPING_PACKET_SIZE_def recv_bytes_def Let_def)
    next
      case True
      obtain r1 where r1: "RingBuffer_MoveReadOffset ?r sPACKET_HEADER_SIZE = Inr r1" "RingBuffer_inv r1"
          "RingBuffer_contents r1 = drop 4 (RingBuffer_contents ?r)"
        using ring_MoveReadOffset_drops[OF ri, of 4] True by (auto simp: sPACKET_HEADER_SIZE_def recv_bytes_def)
      have "8 \<le> length (RingBuffer_contents r1)" using r1(3) conjunct2[OF conjunct2[OF True]] by (simp add: recv_bytes_def)
      then obtain pb r2 where r2: "RingBuffer_Read r1 (replicate 8 0) 8 = Inr (8, pb, r2)" "RingBuffer_inv r2"
          "RingBuffer_contents r2 = drop 12 (RingBuffer_contents ?r)"
        using ring_Read_prefix[OF r1(2), of 8 "replicate 8 0"] r1(3) by auto
      obtain ok1 b1 where b1: "RingBuffer_Write (mSendRing s) (header_bytes (of_header_bytes hb)) sPACKET_HEADER_SIZE = Inr (ok1, b1)"
          "RingBuffer_inv b1"
        using ring_Write_ok[OF si, of "header_bytes (of_header_bytes hb)"] by (auto simp: sPACKET_HEADER_SIZE_def)
      obtain ok2 b2 where b2: "RingBuffer_Write b1 (ping_bytes \<lparr>mSendTick = now\<rparr>) 8 = Inr (ok2, b2)" "RingBuffer_inv b2"
        using ring_Write_ok[OF b1(2), of "ping_bytes \<lparr>mSendTick = now\<rparr>"] by auto
      have "ping_step now s m = bindr (sub64 now (mSendTick (of_ping_bytes pb))) (\<lambda>interval.
          Inr (Some (s\<lparr>mRecvRing := r2, mSendRing := b2\<rparr>, max m interval)))"
        using True used peek r1(1) r2(1) b1(1) b2(1)
        by (simp add: ping_step_def sPACKET_HEADER_SIZE_def sPING_PACKET_SIZE_def recv_bytes_def)
      then show ?thesis
        using b2(2) r2(2,3) True by (auto simp: sub64_def Let_def rings_ok_def recv_bytes_def)
    qed
  qed
qed

lemma ping_loop_progress:
  assumes "rings_ok s" and "length (recv_bytes s) < fuel"
  shows "(\<exists>e. ping_loop fuel tick k s m = Some (Inl e) \<and> client_abort e)
    \<or> (\<exists>s' m' n. ping_loop fuel tick k s m = Some (Inr (s', m', k + n)) \<and> rings_ok s' \<and> mSocket s' = mSocket s
         \<and> length (recv_bytes s) = 12 * n + length (recv_bytes s'))"
  using assms
proof (induction fuel arbitrary: k s m)
  case (Suc fuel)
  show ?case
  proof (cases "ping_step (tick k) s m")
    case (Inl e)
    with ping_step_progress[OF Suc.prems(1), of "tick k" m] show ?thesis by auto
  next
    case (Inr r)
    show ?thesis
    proof (cases r)
      case None
      with Inr Suc.prems(1) show ?thesis by (auto intro: exI[of _ 0])
    next
      case (Some p)
      then obtain s1 m1 where p: "r = Some (s1, m1)" by (cases p) auto
      with Inr ping_step_progress[OF Suc.prems(1), of "tick k" m]
      have s1: "rings_ok s1" "mSocket s1 = mSocket s" "length (recv_bytes s) = 12 + length (recv_bytes s1)" by auto
      have "length (recv_bytes s1) < fuel" using s1(3) Suc.prems(2) by simp
      from Suc.IH[OF s1(1) this, of "Suc k" m1] show ?thesis
      proof (elim disjE exE conjE)
        fix e assume "ping_loop fuel tick (Suc k) s1 m1 = Some (Inl e)" "client_abort e"
        with Inr p show ?thesis by auto
      next
        fix s' m' n
        assume "ping_loop fuel tick (Suc k) s1 m1 = Some (Inr (s', m', Suc k + n))" "rings_ok s'"
          "mSocket s' = mSocket s1" "length (recv_bytes s1) = 12 * n + length (recv_bytes s')"
        with Inr p s1 have "ping_loop (Suc fuel) tick k s m = Some (Inr (s', m', k + Suc n))
            \<and> rings_ok s' \<and> mSocket s' = mSocket s \<and> length (recv_bytes s) = 12 * Suc n + length (recv_bytes s')"
          by simp
        then show ?thesis by blast
      qed
    qed
  qed
qed simp

section \<open>Properties\<close>

text \<open>
  The client answers every ping. When the bytes of a receive call, after those still buffered,
  make up \<open>n\<close> whole ping packets and a proper prefix of a further one, however the stream is cut
  into calls, \<open>DoRecv\<close> succeeds, keeps exactly the prefix, appends exactly \<open>n\<close> new ping packets with
  the clock's readings to the send buffer, updates the largest round-trip time over all of them, and
  closes nothing. The loop ends: the fuel always suffices.
\<close>

theorem StressSession_DoRecv_answers:
  assumes "stress_inv (12 * length ts) s" and "bs \<noteq> []"
    and "int (length bs) \<le> RingBuffer_GetDirectWriteSize (mRecvRing s)"
    and "recv_bytes s @ bs = concat (map ping ts) @ take j (ping t)" and "j < 12"
    and "\<forall>t\<in>set ts. 0 \<le> sint t" and "\<forall>i. 0 \<le> sint (tick i)"
  shows "\<exists>s'. StressSession_DoRecv tick k s m (GotBytes bs)
      = Some (Inr (True, s', rtt_after tick k m ts, k + length ts, []))
    \<and> stress_inv 0 s' \<and> recv_bytes s' = take j (ping t) \<and> mSocket s' = mSocket s
    \<and> send_bytes s' = send_bytes s @ concat (map (\<lambda>i. ping (tick i)) [k..<k + length ts])"
  using DoRecv_packets[OF assms] by blast

definition empty_ring :: RingBuffer where
  "empty_ring = \<lparr>ring_mFront = 0, ring_mRear = 0, ring_mBuffer = (\<lambda>_. 0)\<rparr>"

definition stress_ex :: StressSession where
  "stress_ex = \<lparr>mSocket = 7, mRecvRing = empty_ring, mSendRing = empty_ring\<rparr>"

lemma stress_ex_empty: "recv_bytes stress_ex = []" "send_bytes stress_ex = []" "stress_inv 12 stress_ex"
  by (simp_all add: stress_ex_def empty_ring_def recv_bytes_def send_bytes_def stress_inv_def RingBuffer_inv_def
      RingBuffer_contents_def RecvBuffer_contents_def RecvBuffer_inv_def BUFFER_SIZE_def)

theorem StressSession_DoRecv_answers_witness:
  "\<exists>s'. StressSession_DoRecv (\<lambda>_. 9) 3 stress_ex 0 (GotBytes (ping 5)) = Some (Inr (True, s', 4, 4, []))
    \<and> recv_bytes s' = [] \<and> mSocket s' = 7 \<and> send_bytes s' = ping 9"
proof -
  have "int (length (ping 5)) \<le> RingBuffer_GetDirectWriteSize (mRecvRing stress_ex)" "ping 5 \<noteq> []"
    by (simp_all add: stress_ex_def empty_ring_def RecvBuffer_GetDirectWriteSize_def BUFFER_SIZE_def flip: length_0_conv)
  with StressSession_DoRecv_answers[of "[5]" stress_ex "ping 5" 0 0 "\<lambda>_. 9" 3 0] stress_ex_empty
  show ?thesis by (auto simp: stress_ex_def)
qed

text \<open>
  C33. The receive loop ends on every input. Whatever bytes the server sends, and whatever is in the
  two rings of a client, \<open>DoRecv\<close> returns: it is never stopped by the fuel, never leaves an array, and
  the only ways in which it ends abnormally are a packet that fails an assertion and a difference of
  clock readings that does not fit. A normal end leaves well-formed rings and has consumed a whole
  number of packets, one for each reading of the clock.
\<close>

theorem StressSession_DoRecv_terminates:
  assumes "rings_ok s" and "bs \<noteq> []" and "int (length bs) \<le> RingBuffer_GetDirectWriteSize (mRecvRing s)"
  shows "(\<exists>e. StressSession_DoRecv tick k s m (GotBytes bs) = Some (Inl e) \<and> client_abort e)
    \<or> (\<exists>s' m' n. StressSession_DoRecv tick k s m (GotBytes bs) = Some (Inr (True, s', m', k + n, []))
         \<and> rings_ok s' \<and> mSocket s' = mSocket s
         \<and> length (recv_bytes s) + length bs = 12 * n + length (recv_bytes s'))"
proof -
  let ?r = "mRecvRing s"
  have ri: "RingBuffer_inv ?r" using assms(1) by (simp add: rings_ok_def)
  obtain r where r: "bindr (memcpy_in RING_BUFFER_SIZE (ring_mBuffer ?r) (RingBuffer_GetRearBufferPtr ?r) bs 0 (int (length bs)))
        (\<lambda>m. RingBuffer_MoveWriteOffset (?r\<lparr>ring_mBuffer := m\<rparr>) (int (length bs))) = Inr r"
      "RingBuffer_inv r" "RingBuffer_contents r = RingBuffer_contents ?r @ bs"
    using ring_recv_appends[OF ri assms(3)] by blast
  let ?s = "s\<lparr>mRecvRing := r\<rparr>"
  have "rings_ok ?s" using assms(1) r(2) by (simp add: rings_ok_def)
  moreover have "length (recv_bytes ?s) < nat RING_BUFFER_SIZE"
    using ring_fifo.bounded[OF r(2)] by (simp add: recv_bytes_def BUFFER_SIZE_def)
  ultimately show ?thesis
  proof (rule ping_loop_progress[of ?s "nat RING_BUFFER_SIZE" tick k m, THEN disjE], goal_cases)
    case 1
    then obtain e where "ping_loop (nat RING_BUFFER_SIZE) tick k ?s m = Some (Inl e)" "client_abort e" by blast
    then have "StressSession_DoRecv tick k s m (GotBytes bs) = Some (Inl e) \<and> client_abort e"
      using assms(2) r(1) by (simp add: StressSession_DoRecv_def)
    then show ?case by blast
  next
    case 2
    then obtain s' m' n where s': "ping_loop (nat RING_BUFFER_SIZE) tick k ?s m = Some (Inr (s', m', k + n))"
        "rings_ok s'" "mSocket s' = mSocket s" "length (recv_bytes ?s) = 12 * n + length (recv_bytes s')" by auto
    let ?r' = "if RingBuffer_GetUsedSize (mRecvRing s') = 0 then RingBuffer_Reset (mRecvRing s') else mRecvRing s'"
    have "RingBuffer_inv ?r' \<and> RingBuffer_contents ?r' = RingBuffer_contents (mRecvRing s')"
      using s'(2) ring_used[of "mRecvRing s'"] ring_Reset_empty[of "mRecvRing s'"] by (auto simp: rings_ok_def)
    then have "rings_ok (s'\<lparr>mRecvRing := ?r'\<rparr>)" "recv_bytes (s'\<lparr>mRecvRing := ?r'\<rparr>) = recv_bytes s'"
      using s'(2) by (simp_all add: rings_ok_def recv_bytes_def)
    moreover have "StressSession_DoRecv tick k s m (GotBytes bs) = Some (Inr (True, s'\<lparr>mRecvRing := ?r'\<rparr>, m', k + n, []))"
      using assms(2) r(1) s'(1) by (simp add: StressSession_DoRecv_def)
    ultimately show ?case using s'(3,4) r(3) by (intro disjI2 exI[of _ "s'\<lparr>mRecvRing := ?r'\<rparr>"]) (auto simp: recv_bytes_def)
  qed
qed

theorem StressSession_DoRecv_terminates_witness:
  "\<exists>r. StressSession_DoRecv (\<lambda>_. 9) 0 stress_ex 0 (GotBytes [1, 2, 3, 4, 5]) = Some r"
proof -
  have "rings_ok stress_ex" using stress_ex_empty(3) by (simp add: stress_inv_def rings_ok_def)
  moreover have "int (length [1, 2, 3, 4, 5 :: Byte]) \<le> RingBuffer_GetDirectWriteSize (mRecvRing stress_ex)"
    by (simp add: stress_ex_def empty_ring_def RecvBuffer_GetDirectWriteSize_def BUFFER_SIZE_def)
  ultimately show ?thesis
    using StressSession_DoRecv_terminates[of stress_ex "[1, 2, 3, 4, 5]" "\<lambda>_. 9" 0 0] by blast
qed

text \<open>
  Sending consumes the send buffer in order: the block given to \<open>send\<close> is a non-empty prefix of
  the buffered bytes, exactly the bytes the call took are removed, and the session stays open; with
  an empty buffer, a call that takes nothing or an error the result is false, and only the error
  closes the socket.
\<close>

theorem StressSession_DoSend_prefix:
  assumes "stress_inv n s" and "\<And>k. answer = Sent k \<Longrightarrow> 0 \<le> k \<and> k \<le> RingBuffer_GetDIrectReadSize (mSendRing s)"
  shows "\<exists>ok s' block closed. StressSession_DoSend s answer = Inr (ok, s', block, closed)
    \<and> stress_inv 0 s' \<and> (\<exists>rest. send_bytes s = block @ rest) \<and> (block = [] \<longleftrightarrow> send_bytes s = [])
    \<and> (ok \<longleftrightarrow> send_bytes s \<noteq> [] \<and> (\<exists>k. answer = Sent k \<and> k \<noteq> 0))
    \<and> send_bytes s' = (case answer of Sent k \<Rightarrow> drop (nat k) (send_bytes s) | SendError \<Rightarrow> send_bytes s)
    \<and> closed = (if send_bytes s \<noteq> [] \<and> answer = SendError then [mSocket s] else [])"
proof -
  let ?b = "mSendRing s"
  let ?n = "RecvBuffer_GetDIrectReadSize (to_recv ?b)"
  let ?block = "bytes_at (ring_mBuffer ?b) (ring_mFront ?b) ?n"
  have bi: "RingBuffer_inv ?b" and room: "stress_inv 0 s" using assms(1) by (auto simp: stress_inv_def)
  have used: "RecvBuffer_GetUsedSize (to_recv ?b) = int (length (send_bytes s))"
    using ring_used[OF bi] by (simp add: send_bytes_def)
  have whole: "?block = send_bytes s" "?n = int (length (send_bytes s))" and bnd: "0 \<le> ring_mFront ?b" "ring_mFront ?b + ?n \<le> BUFFER_SIZE"
    using assms(1) used
    by (auto simp: stress_inv_def send_bytes_def RingBuffer_contents_def RecvBuffer_contents_def RecvBuffer_sizes
        RingBuffer_inv_def RecvBuffer_inv_def)
  have ptr: "RingBuffer_GetFrontBufferPtr ?b = ring_mFront ?b"
    by (simp add: RingBuffer_GetFrontBufferPtr_def RingBuffer_GetBufferPtr_def)
  show ?thesis
  proof (cases "send_bytes s = []")
    case True
    have "StressSession_DoSend s answer = Inr (False, s, [], [])"
      using True used by (simp add: StressSession_DoSend_def Let_def)
    with True room show ?thesis by (auto split: send_answer.splits)
  next
    case False
    show ?thesis
    proof (cases answer)
      case SendError
      have "StressSession_DoSend s answer = Inr (False, s, send_bytes s, [mSocket s])"
        using False whole(1) used bnd ptr SendError by (simp add: StressSession_DoSend_def Let_def)
      with False room SendError show ?thesis by auto
    next
      case (Sent k)
      then have k: "0 \<le> k" "nat k \<le> length (send_bytes s)" using assms(2) whole(2) by auto
      from ring_MoveReadOffset_drops[OF bi, of "nat k"] k obtain b1 where
        b1: "RingBuffer_MoveReadOffset ?b k = Inr b1" "RingBuffer_inv b1" "RingBuffer_contents b1 = drop (nat k) (send_bytes s)"
        by (auto simp: send_bytes_def)
      let ?b2 = "if RingBuffer_GetUsedSize b1 = 0 then RingBuffer_Reset b1 else b1"
      have b2: "RingBuffer_inv ?b2 \<and> RingBuffer_contents ?b2 = drop (nat k) (send_bytes s)
          \<and> ring_mFront ?b2 \<le> ring_mRear ?b2 \<and> ring_mRear ?b2 < BUFFER_SIZE"
        using b1 ring_used[OF b1(2)] ring_Reset_empty[of b1] send_front_order[OF assms(1) b1(1) k]
        by (auto simp: RingBuffer_Reset_def BUFFER_SIZE_def)
      show ?thesis
      proof (cases "k = 0")
        case True
        have "StressSession_DoSend s answer = Inr (False, s, send_bytes s, [])"
          using False whole(1) used bnd ptr Sent True by (simp add: StressSession_DoSend_def Let_def)
        with False room Sent True show ?thesis by auto
      next
        case neq: False
        have "StressSession_DoSend s answer = Inr (True, s\<lparr>mSendRing := ?b2\<rparr>, send_bytes s, [])"
          using False whole(1) used bnd ptr Sent neq b1(1) by (simp add: StressSession_DoSend_def Let_def)
        moreover have "stress_inv 0 (s\<lparr>mSendRing := ?b2\<rparr>)" "send_bytes (s\<lparr>mSendRing := ?b2\<rparr>) = drop (nat k) (send_bytes s)"
          using b2 assms(1) by (simp_all add: stress_inv_def send_bytes_def)
        ultimately show ?thesis using False Sent neq by auto
      qed
    qed
  qed
qed

theorem StressSession_DoSend_prefix_witness:
  "\<exists>ok s' block closed. StressSession_DoSend stress_ex SendError = Inr (ok, s', block, closed)
    \<and> \<not> ok \<and> block = [] \<and> closed = []"
  using StressSession_DoSend_prefix[of 12 stress_ex SendError] stress_ex_empty by auto

end
