(* ===== verification/Ping_Pong.thy ===== *)
theory Ping_Pong
  imports Echo_Stream Stress_Session
begin

text \<open>
  A client of the stress test (\<^verbatim>\<open>src/src/exe-StressTest/Session.cpp\<close>) connected to a session of the
  echo server (\<^verbatim>\<open>ServerJob.cpp\<close>, \<^verbatim>\<open>Session.cpp\<close>, \<^verbatim>\<open>test_server.cpp\<close>), with one stream of bytes in each
  direction. The streams deliver in order and may be cut anywhere; the server's \<^verbatim>\<open>writev\<close> takes all
  bytes of a call.
\<close>

section \<open>The composed system\<close>

record ping_pong =
  pp_client :: StressSession
  to_server :: "Byte list"
  pp_session :: Session
  to_client :: "Byte list"
  pp_rtt :: int
  pp_ticks :: nat

text \<open>
  The client sends \<open>n\<close> of its bytes; the server runs the receive job, which is given the chunks \<open>cs\<close>
  and writes what the application was shown; the client receives \<open>bs\<close>. The clock is \<open>tick\<close>, the receive
  buffer of the session is at address \<open>buffer\<close>.
\<close>

inductive pp_step ::
  "'a ServerFds_scheme \<Rightarrow> int \<Rightarrow> int \<Rightarrow> (nat \<Rightarrow> Int64) \<Rightarrow> ping_pong \<Rightarrow> ping_pong \<Rightarrow> bool"
  for srv self buffer tick where
  client_sends:
    "0 < n \<Longrightarrow> n \<le> RingBuffer_GetDIrectReadSize (mSendRing (pp_client p)) \<Longrightarrow>
     StressSession_DoSend (pp_client p) (Sent n) = Inr (True, c', block, closed) \<Longrightarrow>
     pp_step srv self buffer tick p (p\<lparr>pp_client := c', to_server := to_server p @ take (nat n) block\<rparr>)"
| server_runs:
    "to_server p = concat cs @ rest \<Longrightarrow> cs \<noteq> [] \<Longrightarrow> [] \<notin> set cs \<Longrightarrow>
     recv_contract (recv_buffer (pp_session p)) (map RecvData cs) \<Longrightarrow>
     RecvJob_run srv self (TestServer_OnRecv srv self buffer [WriteDone (int (length (concat cs)))]) (pp_session p)
       (map RecvData cs) True = Inr (s', es) \<Longrightarrow>
     pp_step srv self buffer tick p (p\<lparr>to_server := rest, pp_session := s', to_client := to_client p @ consumed length es\<rparr>)"
| client_receives:
    "to_client p = bs @ rest \<Longrightarrow> bs \<noteq> [] \<Longrightarrow>
     int (length bs) \<le> RingBuffer_GetDirectWriteSize (mRecvRing (pp_client p)) \<Longrightarrow>
     StressSession_DoRecv tick (pp_ticks p) (pp_client p) (pp_rtt p) (GotBytes bs) = Some (Inr (True, c', rtt, k, [])) \<Longrightarrow>
     pp_step srv self buffer tick p (p\<lparr>pp_client := c', to_client := rest, pp_rtt := rtt, pp_ticks := k\<rparr>)"

inductive pp_reachable ::
  "'a ServerFds_scheme \<Rightarrow> int \<Rightarrow> int \<Rightarrow> (nat \<Rightarrow> Int64) \<Rightarrow> ping_pong \<Rightarrow> ping_pong \<Rightarrow> bool"
  for srv self buffer tick p0 where
  start: "pp_reachable srv self buffer tick p0 p0"
| step: "pp_reachable srv self buffer tick p0 p \<Longrightarrow> pp_step srv self buffer tick p q \<Longrightarrow> pp_reachable srv self buffer tick p0 q"

text \<open>
  A connection that has just been made: the client has queued its first ping, made at time \<open>t0\<close>; the
  session is idle, the streams are empty and no reading of the clock has been used.
\<close>

definition pp_start :: "Int64 \<Rightarrow> int \<Rightarrow> ping_pong \<Rightarrow> bool" where
  "pp_start t0 m0 p \<longleftrightarrow> (\<exists>r1 r2 fd. StressSession_ctor r1 r2 fd t0 = Inr (pp_client p))
     \<and> to_server p = [] \<and> to_client p = [] \<and> pp_rtt p = m0 \<and> pp_ticks p = 0
     \<and> calm (pp_session p) \<and> mSessionFD (pp_session p) \<noteq> sINVALID_SOCKET_FD
     \<and> \<not> mIsSending (pp_session p) \<and> mPackets (pp_session p) = []"

section \<open>The parts\<close>

text \<open>What is known of the client, and of the session between two runs of its receive job.\<close>

definition client_ok :: "StressSession \<Rightarrow> bool" where
  "client_ok c \<longleftrightarrow> stress_inv 0 c \<and> (send_bytes c = [] \<longrightarrow> stress_inv 12 c) \<and> ring_mFront (mRecvRing c) = 0"

definition session_ok :: "Session \<Rightarrow> bool" where
  "session_ok s \<longleftrightarrow> calm s \<and> mSessionFD s \<noteq> sINVALID_SOCKET_FD \<and> \<not> mIsSending s \<and> mPackets s = []"

lemma send_block_size:
  assumes "stress_inv n c"
  shows "RecvBuffer_GetDIrectReadSize (to_recv (mSendRing c)) = int (length (send_bytes c))"
  using assms ring_used[of "mSendRing c"]
  by (simp add: stress_inv_def send_bytes_def RecvBuffer_sizes)

lemma client_DoSend:
  assumes ok: "client_ok c" and n: "0 < n" "n \<le> int (length (send_bytes c))"
  shows "\<exists>c'. StressSession_DoSend c (Sent n) = Inr (True, c', send_bytes c, []) \<and> client_ok c'
    \<and> send_bytes c' = drop (nat n) (send_bytes c) \<and> recv_bytes c' = recv_bytes c"
proof -
  have inv: "stress_inv 0 c" and fr: "ring_mFront (mRecvRing c) = 0" using ok by (auto simp: client_ok_def)
  let ?b = "mSendRing c"
  have bi: "RingBuffer_inv ?b" using inv by (simp add: stress_inv_def)
  have "nat n \<le> length (RingBuffer_contents ?b)" using n by (simp add: send_bytes_def nat_le_iff)
  from ring_MoveReadOffset_drops[OF bi this] n obtain b1 where
    b1: "RingBuffer_MoveReadOffset ?b n = Inr b1" "RingBuffer_inv b1" "RingBuffer_contents b1 = drop (nat n) (send_bytes c)"
    by (auto simp: send_bytes_def)
  let ?b2 = "if RingBuffer_GetUsedSize b1 = 0 then RingBuffer_Reset b1 else b1"
  have whole: "bytes_at (ring_mBuffer ?b) (ring_mFront ?b) (int (length (send_bytes c))) = send_bytes c"
    and bnd: "0 \<le> ring_mFront ?b" "ring_mFront ?b + int (length (send_bytes c)) \<le> BUFFER_SIZE"
    using inv ring_used[OF bi]
    by (auto simp: stress_inv_def send_bytes_def RingBuffer_contents_def RecvBuffer_contents_def RecvBuffer_sizes
        RingBuffer_inv_def RecvBuffer_inv_def)
  have "StressSession_DoSend c (Sent n) = Inr (True, c\<lparr>mSendRing := ?b2\<rparr>, send_bytes c, [])"
    using n ring_used[OF bi] b1(1) whole bnd send_block_size[OF inv]
    by (auto simp add: StressSession_DoSend_def Let_def RingBuffer_GetFrontBufferPtr_def RingBuffer_GetBufferPtr_def send_bytes_def)
  moreover have "client_ok (c\<lparr>mSendRing := ?b2\<rparr>)" "send_bytes (c\<lparr>mSendRing := ?b2\<rparr>) = drop (nat n) (send_bytes c)"
    using b1 ring_used[OF b1(2)] ring_Reset_empty[of b1] send_front_order[OF inv b1(1)] n inv fr
    by (auto simp: client_ok_def stress_inv_def send_bytes_def RingBuffer_Reset_def BUFFER_SIZE_def recv_bytes_def)
  ultimately show ?thesis by (auto simp: recv_bytes_def)
qed

lemma client_room:
  assumes "client_ok c"
  shows "RecvBuffer_GetDirectWriteSize (to_recv (mRecvRing c)) = BUFFER_SIZE - 1 - int (length (recv_bytes c))"
  using assms ring_used[of "mRecvRing c"]
  by (auto simp: client_ok_def stress_inv_def recv_bytes_def RecvBuffer_sizes RingBuffer_inv_def RecvBuffer_inv_def)

text \<open>A receive call that completes the packet, and one that does not.\<close>

lemma client_DoRecv:
  assumes ok: "client_ok c" and bs: "bs \<noteq> []" and pkt: "recv_bytes c @ bs @ rest = ping t"
    and pos: "0 \<le> sint t" "\<forall>i. 0 \<le> sint (tick i)"
  shows "rest = [] \<Longrightarrow> send_bytes c = [] \<Longrightarrow>
      \<exists>c'. StressSession_DoRecv tick k c m (GotBytes bs) = Some (Inr (True, c', max m (sint (tick k) - sint t), Suc k, []))
        \<and> client_ok c' \<and> recv_bytes c' = [] \<and> send_bytes c' = ping (tick k)"
    and "rest \<noteq> [] \<Longrightarrow>
      \<exists>c'. StressSession_DoRecv tick k c m (GotBytes bs) = Some (Inr (True, c', m, k, []))
        \<and> client_ok c' \<and> recv_bytes c' = recv_bytes c @ bs \<and> send_bytes c' = send_bytes c"
proof -
  have len: "length (recv_bytes c) + length bs + length rest = 12"
    using arg_cong[OF pkt, of length] by simp
  then have room: "int (length bs) \<le> RingBuffer_GetDirectWriteSize (mRecvRing c)"
    using client_room[OF ok] by (simp add: BUFFER_SIZE_def)
  have inv: "stress_inv 0 c" and fr: "ring_mFront (mRecvRing c) = 0" using ok by (auto simp: client_ok_def)
  show "\<exists>c'. StressSession_DoRecv tick k c m (GotBytes bs) = Some (Inr (True, c', max m (sint (tick k) - sint t), Suc k, []))
        \<and> client_ok c' \<and> recv_bytes c' = [] \<and> send_bytes c' = ping (tick k)" if "rest = []" "send_bytes c = []"
  proof -
    have "stress_inv (12 * length [t]) c" using ok that(2) by (simp add: client_ok_def)
    from DoRecv_packets[OF this bs room, of 0 t tick k m] pkt pos that obtain c' where
      c': "StressSession_DoRecv tick k c m (GotBytes bs) = Some (Inr (True, c', max m (sint (tick k) - sint t), Suc k, []))"
        "stress_inv 0 c'" "recv_bytes c' = []" "send_bytes c' = ping (tick k)" "ring_mFront (mRecvRing c') = 0" by auto
    moreover have "send_bytes c' \<noteq> []" using c'(4) by (metis length_0_conv length_ping zero_neq_numeral)
    ultimately show ?thesis by (auto simp: client_ok_def)
  qed
  show "\<exists>c'. StressSession_DoRecv tick k c m (GotBytes bs) = Some (Inr (True, c', m, k, []))
        \<and> client_ok c' \<and> recv_bytes c' = recv_bytes c @ bs \<and> send_bytes c' = send_bytes c" if "rest \<noteq> []"
  proof -
    let ?j = "length (recv_bytes c) + length bs"
    have j: "?j < 12" using len that by (cases rest) auto
    have "recv_bytes c @ bs = take ?j (ping t)" by (simp flip: pkt)
    with DoRecv_packets[of "[]" c bs ?j t tick k m] inv bs room j pos fr obtain c' where
      c': "StressSession_DoRecv tick k c m (GotBytes bs) = Some (Inr (True, c', m, k, []))" "stress_inv 0 c'"
        "recv_bytes c' = recv_bytes c @ bs" "mSendRing c' = mSendRing c" "ring_mFront (mRecvRing c') = 0" by auto
    then have "client_ok c'" using ok by (simp add: client_ok_def stress_inv_def send_bytes_def)
    with c' show ?thesis by (auto simp: send_bytes_def)
  qed
qed

text \<open>
  The server's side: a run of the receive job on an idle session whose buffer is at its start shows
  the application all the bytes, writes them in one call, and leaves the session as it was.
\<close>

lemma server_run:
  assumes ok: "session_ok s" and cs: "cs \<noteq> []" "[] \<notin> set cs" and contract: "recv_contract (recv_buffer s) (map RecvData cs)"
    and addr: "buffer \<noteq> 0"
  shows "\<exists>s' es. RecvJob_run srv self (TestServer_OnRecv srv self buffer [WriteDone (int (length (concat cs)))]) s (map RecvData cs) True
      = Inr (s', es) \<and> session_ok s' \<and> consumed length es = concat cs
    \<and> filter is_writev es = [Writev (mSessionFD s) [\<lparr>iov_base = buffer, iov_len = int (length (concat cs))\<rparr>]]"
proof -
  let ?n = "int (length (concat cs))"
  have fd: "mSessionFD s \<noteq> sINVALID_SOCKET_FD" and idle: "\<not> mIsSending s" "mPackets s = []" and calm: "calm s"
    using ok by (auto simp: session_ok_def)
  have inv: "RecvBuffer_inv (recv_buffer s)" using calm by (simp add: calm_def RecvBuffer_inv_def BUFFER_SIZE_def)
  have pos: "0 < ?n" using cs by (cases cs) (auto simp: add_pos_nonneg)
  obtain b where ex: "RecvJob_Execute srv s (map RecvData cs @ []) = RecvJob_Execute srv (set_recv_buffer s b) []"
    and b: "RecvBuffer_inv b" "mFront b = 0" "mRear b = ?n" "RecvBuffer_contents b = concat cs"
    using RecvJob_Execute_chunks[OF fd inv contract cs(2), of srv] calm calm_contents[OF calm]
    unfolding calm_def by (metis add_0 append_Nil)
  let ?s = "set_recv_buffer s b"
  have small: "?n < BUFFER_SIZE" using b(1,3) by (simp add: RecvBuffer_inv_def)
  have bytes: "bytes_at (mBuffer b) 0 ?n = concat cs"
    using b pos by (simp add: RecvBuffer_contents_def)
  have send: "Session_Send srv self ?s buffer ?n [WriteDone ?n] = (?s, [Writev (mSessionFD s) [\<lparr>iov_base = buffer, iov_len = ?n\<rparr>],
      EpollCtl (mSendPollFD srv) EPOLL_CTL_MOD (mSessionFD s) (Some (SendJobRef self, [EPOLLOUT, EPOLLONESHOT]))])"
    using Session_Send_whole[of buffer ?n ?s srv self 0] addr pos small idle fd
    by (simp add: set_recv_buffer_def iov_total_def BUFFER_SIZE_def)
  define b1 where "b1 = b\<lparr>mFront := crem ?n BUFFER_SIZE\<rparr>"
  have mv: "RecvBuffer_MoveReadOffset b ?n = Inr b1"
    using b(2) small by (simp add: RecvBuffer_MoveReadOffset_def b1_def add32_def in_int32_def BUFFER_SIZE_def)
  have "RecvJob_deliver (TestServer_OnRecv srv self buffer [WriteDone ?n]) ?s = Inr (set_recv_buffer ?s (RecvBuffer_Reset b1),
      [CallOnRecv (mSessionID s) (concat cs), Writev (mSessionFD s) [\<lparr>iov_base = buffer, iov_len = ?n\<rparr>],
       EpollCtl (mSendPollFD srv) EPOLL_CTL_MOD (mSessionFD s) (Some (SendJobRef self, [EPOLLOUT, EPOLLONESHOT]))])"
    using b pos small bytes mv send
    by (simp add: RecvJob_deliver_def RecvBuffer_sizes RecvBuffer_ptrs TestServer_OnRecv_def Let_def Session_GetSessionID_def)
  moreover have "RecvJob_Execute srv s (map RecvData cs) = Inr (True, ?s, [])"
    using ex fd by (simp add: RecvJob_Execute.simps Session_GetSocketFD_def)
  ultimately show ?thesis using fd idle
    by (simp add: RecvJob_run_def RecvJob_Complete_def Let_def session_ok_def calm_def RecvBuffer_Reset_def set_recv_buffer_def)
qed

section \<open>One ping in flight\<close>

text \<open>The time at which ping number \<open>k\<close> is made, and the largest round trip of the first \<open>k\<close> pings.\<close>

definition made_at :: "Int64 \<Rightarrow> (nat \<Rightarrow> Int64) \<Rightarrow> nat \<Rightarrow> Int64" where
  "made_at t0 tick k = (case k of 0 \<Rightarrow> t0 | Suc i \<Rightarrow> tick i)"

definition round_trip :: "Int64 \<Rightarrow> (nat \<Rightarrow> Int64) \<Rightarrow> nat \<Rightarrow> int" where
  "round_trip t0 tick k = sint (tick k) - sint (made_at t0 tick k)"

definition pp_ok :: "Int64 \<Rightarrow> (nat \<Rightarrow> Int64) \<Rightarrow> int \<Rightarrow> ping_pong \<Rightarrow> bool" where
  "pp_ok t0 tick m0 p \<longleftrightarrow> client_ok (pp_client p) \<and> session_ok (pp_session p)
     \<and> recv_bytes (pp_client p) @ to_client p @ to_server p @ send_bytes (pp_client p) = ping (made_at t0 tick (pp_ticks p))
     \<and> length (recv_bytes (pp_client p)) < 12
     \<and> pp_rtt p = Max (insert m0 (round_trip t0 tick ` {..<pp_ticks p}))"

definition distance :: "ping_pong \<Rightarrow> nat" where
  "distance p = 3 * length (send_bytes (pp_client p)) + 2 * length (to_server p) + length (to_client p)"

definition progress :: "ping_pong \<Rightarrow> ping_pong \<Rightarrow> bool" where
  "progress p q \<longleftrightarrow> pp_ticks q = Suc (pp_ticks p) \<or> pp_ticks q = pp_ticks p \<and> distance q < distance p"

lemma made_at_nonneg: "0 \<le> sint t0 \<Longrightarrow> \<forall>i. 0 \<le> sint (tick i) \<Longrightarrow> 0 \<le> sint (made_at t0 tick k)"
  by (simp add: made_at_def split: nat.split)

lemma Max_round_trips:
  "Max (insert (m0 :: int) (f ` {..<Suc k})) = max (Max (insert m0 (f ` {..<k}))) (f k)"
proof -
  have "insert m0 (f ` {..<Suc k}) = insert (f k) (insert m0 (f ` {..<k}))" by (auto simp: lessThan_Suc)
  then show ?thesis by (simp add: max.commute del: image_insert)
qed

lemma pp_start_ok:
  assumes "pp_start t0 m0 p"
  shows "pp_ok t0 tick m0 p"
proof -
  obtain r1 r2 fd where c: "StressSession_ctor r1 r2 fd t0 = Inr (pp_client p)" using assms by (auto simp: pp_start_def)
  have "ring_mFront (mRecvRing (pp_client p)) = 0"
    using c by (auto simp: StressSession_ctor_def bindr_Inr_iff RingBuffer_ctor_def RingBuffer_Reset_def dest!: sym[of _ "pp_client p"])
  moreover have "ping t0 \<noteq> []" by (metis length_0_conv length_ping zero_neq_numeral)
  ultimately show ?thesis using StressSession_ctor_ok[of r1 r2 fd t0] c assms
    by (auto simp: pp_start_def pp_ok_def client_ok_def session_ok_def made_at_def)
qed

lemma pp_step_ok:
  assumes step: "pp_step srv self buffer tick p q" and ok: "pp_ok t0 tick m0 p" and addr: "buffer \<noteq> 0"
    and pos: "0 \<le> sint t0" "\<forall>i. 0 \<le> sint (tick i)"
  shows "pp_ok t0 tick m0 q \<and> progress p q"
proof -
  let ?t = "made_at t0 tick (pp_ticks p)"
  have c: "client_ok (pp_client p)" and s: "session_ok (pp_session p)"
    and bytes: "recv_bytes (pp_client p) @ to_client p @ to_server p @ send_bytes (pp_client p) = ping ?t"
    using ok by (auto simp: pp_ok_def)
  from step show ?thesis
  proof (cases rule: pp_step.cases)
    case (client_sends n c' block closed)
    note 1 = client_sends
    have n: "n \<le> int (length (send_bytes (pp_client p)))" using 1(3) c send_block_size[of 0] by (simp add: client_ok_def)
    from client_DoSend[OF c 1(2) n] 1(4) have
      c': "block = send_bytes (pp_client p)" "client_ok c'" "send_bytes c' = drop (nat n) (send_bytes (pp_client p))"
        "recv_bytes c' = recv_bytes (pp_client p)" by auto
    with 1 ok n show ?thesis by (auto simp: pp_ok_def progress_def distance_def min_def nat_le_iff)
  next
    case (server_runs cs rest s' es)
    note 2 = server_runs
    from server_run[OF s 2(3,4,5) addr, of srv self] 2(6) have s': "session_ok s'" "consumed length es = concat cs" by auto
    have "0 < length (concat cs)" using 2(3,4) by (cases cs) auto
    with 2 ok s' show ?thesis by (auto simp: pp_ok_def progress_def distance_def)
  next
    case (client_receives bs rest c' rtt k)
    note 3 = client_receives
    have pkt: "recv_bytes (pp_client p) @ bs @ (rest @ to_server p @ send_bytes (pp_client p)) = ping ?t"
      using bytes 3(2) by simp
    note recv = client_DoRecv[OF c 3(3) pkt made_at_nonneg[OF pos] pos(2), where k = "pp_ticks p" and m = "pp_rtt p"]
    show ?thesis
    proof (cases "rest @ to_server p @ send_bytes (pp_client p) = []")
      case True
      with recv(1) 3(5) have c': "client_ok c'" "recv_bytes c' = []" "send_bytes c' = ping (tick (pp_ticks p))"
          "rtt = max (pp_rtt p) (sint (tick (pp_ticks p)) - sint ?t)" "k = Suc (pp_ticks p)" by auto
      with 3 ok True show ?thesis
        by (simp add: pp_ok_def progress_def Max_round_trips) (simp add: made_at_def round_trip_def)
    next
      case False
      with recv(2) 3(5) have c': "client_ok c'" "recv_bytes c' = recv_bytes (pp_client p) @ bs"
          "send_bytes c' = send_bytes (pp_client p)" "rtt = pp_rtt p" "k = pp_ticks p" by auto
      have "length (recv_bytes (pp_client p)) + length bs < 12"
        using arg_cong[OF pkt, of length] False by (cases "rest @ to_server p @ send_bytes (pp_client p)") auto
      with c' 3 ok show ?thesis by (auto simp: pp_ok_def progress_def distance_def)
    qed
  qed
qed

lemma pp_reachable_ok:
  assumes "pp_reachable srv self buffer tick p0 p" and "pp_start t0 m0 p0" and "buffer \<noteq> 0"
    and "0 \<le> sint t0" and "\<forall>i. 0 \<le> sint (tick i)"
  shows "pp_ok t0 tick m0 p"
  using assms(1) by (induction rule: pp_reachable.induct) (use pp_start_ok pp_step_ok assms(2-5) in blast)+

text \<open>No operation can fail, whatever the streams let through.\<close>

lemma pp_ops:
  assumes ok: "pp_ok t0 tick m0 p" and addr: "buffer \<noteq> 0" and pos: "0 \<le> sint t0" "\<forall>i. 0 \<le> sint (tick i)"
  shows "0 < n \<Longrightarrow> n \<le> RingBuffer_GetDIrectReadSize (mSendRing (pp_client p)) \<Longrightarrow>
      \<exists>c' block. StressSession_DoSend (pp_client p) (Sent n) = Inr (True, c', block, [])"
    and "cs \<noteq> [] \<Longrightarrow> [] \<notin> set cs \<Longrightarrow> recv_contract (recv_buffer (pp_session p)) (map RecvData cs) \<Longrightarrow>
      \<exists>s' es. RecvJob_run srv self (TestServer_OnRecv srv self buffer [WriteDone (int (length (concat cs)))]) (pp_session p)
        (map RecvData cs) True = Inr (s', es) \<and> mSessionFD s' \<noteq> sINVALID_SOCKET_FD"
    and "to_client p = bs @ rest \<Longrightarrow> bs \<noteq> [] \<Longrightarrow>
      \<exists>c' rtt k. StressSession_DoRecv tick (pp_ticks p) (pp_client p) (pp_rtt p) (GotBytes bs) = Some (Inr (True, c', rtt, k, []))"
proof -
  let ?t = "made_at t0 tick (pp_ticks p)"
  have c: "client_ok (pp_client p)" and s: "session_ok (pp_session p)"
    and bytes: "recv_bytes (pp_client p) @ to_client p @ to_server p @ send_bytes (pp_client p) = ping ?t"
    using ok by (auto simp: pp_ok_def)
  show "\<exists>c' block. StressSession_DoSend (pp_client p) (Sent n) = Inr (True, c', block, [])"
    if "0 < n" "n \<le> RingBuffer_GetDIrectReadSize (mSendRing (pp_client p))"
    using client_DoSend[OF c that(1)] that(2) c send_block_size[of 0] by (auto simp: client_ok_def)
  show "\<exists>s' es. RecvJob_run srv self (TestServer_OnRecv srv self buffer [WriteDone (int (length (concat cs)))]) (pp_session p)
        (map RecvData cs) True = Inr (s', es) \<and> mSessionFD s' \<noteq> sINVALID_SOCKET_FD"
    if "cs \<noteq> []" "[] \<notin> set cs" "recv_contract (recv_buffer (pp_session p)) (map RecvData cs)"
    using server_run[OF s that addr, of srv self] by (auto simp: session_ok_def)
  show "\<exists>c' rtt k. StressSession_DoRecv tick (pp_ticks p) (pp_client p) (pp_rtt p) (GotBytes bs) = Some (Inr (True, c', rtt, k, []))"
    if "to_client p = bs @ rest" "bs \<noteq> []"
  proof -
    have pkt: "recv_bytes (pp_client p) @ bs @ (rest @ to_server p @ send_bytes (pp_client p)) = ping ?t"
      using bytes that(1) by simp
    note recv = client_DoRecv[OF c that(2) pkt made_at_nonneg[OF pos] pos(2)]
    from recv(1)[of "pp_ticks p" "pp_rtt p"] recv(2)[of "pp_ticks p" "pp_rtt p"] show ?thesis by (metis append_is_Nil_conv)
  qed
qed

lemma pp_enabled:
  assumes ok: "pp_ok t0 tick m0 p" and addr: "buffer \<noteq> 0" and pos: "0 \<le> sint t0" "\<forall>i. 0 \<le> sint (tick i)"
  shows "\<exists>q. pp_step srv self buffer tick p q"
proof -
  have c: "client_ok (pp_client p)" and s: "calm (pp_session p)"
    and bytes: "recv_bytes (pp_client p) @ to_client p @ to_server p @ send_bytes (pp_client p) = ping (made_at t0 tick (pp_ticks p))"
    and part: "length (recv_bytes (pp_client p)) < 12"
    using ok by (auto simp: pp_ok_def session_ok_def)
  have len: "length (recv_bytes (pp_client p)) + length (to_client p) + length (to_server p) + length (send_bytes (pp_client p)) = 12"
    using arg_cong[OF bytes, of length] by simp
  note ops = pp_ops[OF ok addr pos]
  consider "send_bytes (pp_client p) \<noteq> []" | "to_server p \<noteq> []" | "to_client p \<noteq> []" using len part by force
  then show ?thesis
  proof cases
    case 1
    let ?n = "RingBuffer_GetDIrectReadSize (mSendRing (pp_client p))"
    have "0 < ?n" using 1 c send_block_size[of 0] by (simp add: client_ok_def)
    with ops(1)[of ?n] show ?thesis by (blast intro: client_sends)
  next
    case 2
    have "recv_contract (recv_buffer (pp_session p)) (map RecvData [to_server p])"
      using s len by (simp add: calm_def RecvBuffer_sizes BUFFER_SIZE_def split: sum.split)
    with ops(2)[of "[to_server p]"] 2 show ?thesis using server_runs[of p "[to_server p]" "[]"] by fastforce
  next
    case 3
    have "int (length (to_client p)) \<le> RingBuffer_GetDirectWriteSize (mRecvRing (pp_client p))"
      using client_room[OF c] len by (simp add: BUFFER_SIZE_def)
    with ops(3)[of "to_client p" "[]"] 3 show ?thesis using client_receives[of p "to_client p" "[]"] by fastforce
  qed
qed

lemma pp_steps_progress:
  assumes "(pp_step srv self buffer tick ^^ n) p q" and "pp_ok t0 tick m0 p" and "buffer \<noteq> 0"
    and "0 \<le> sint t0" and "\<forall>i. 0 \<le> sint (tick i)"
  shows "pp_ok t0 tick m0 q \<and> (pp_ticks p < pp_ticks q \<or> pp_ticks q = pp_ticks p \<and> distance q + n \<le> distance p)"
  using assms(1)
proof (induction n arbitrary: q)
  case 0
  then show ?case using assms(2) by simp
next
  case (Suc n)
  then obtain r where r: "(pp_step srv self buffer tick ^^ n) p r" "pp_step srv self buffer tick r q" by auto
  with Suc.IH have ih: "pp_ok t0 tick m0 r" "pp_ticks p < pp_ticks r \<or> pp_ticks r = pp_ticks p \<and> distance r + n \<le> distance p"
    by auto
  from pp_step_ok[OF r(2) ih(1) assms(3-5)] ih(2) show ?case by (auto simp: progress_def)
qed

lemma distance_bounds:
  assumes "pp_ok t0 tick m0 p"
  shows "0 < distance p" and "distance p \<le> 36"
proof -
  have "recv_bytes (pp_client p) @ to_client p @ to_server p @ send_bytes (pp_client p) = ping (made_at t0 tick (pp_ticks p))"
    using assms by (simp add: pp_ok_def)
  from arg_cong[OF this, of length] assms show "0 < distance p" "distance p \<le> 36"
    by (auto simp: pp_ok_def distance_def)
qed

section \<open>Properties\<close>



definition ping_pong_ex :: "StressSession \<Rightarrow> ping_pong" where
  "ping_pong_ex c = \<lparr>pp_client = c, to_server = [], pp_session = session_ex, to_client = [], pp_rtt = 0, pp_ticks = 0\<rparr>"

lemma ping_pong_ex_start:
  obtains c where "pp_start 5 0 (ping_pong_ex c)" and "send_bytes c = ping 5"
proof -
  obtain c where "StressSession_ctor \<lparr>ring_mFront = 0, ring_mRear = 0, ring_mBuffer = (\<lambda>_. 0)\<rparr>
      \<lparr>ring_mFront = 0, ring_mRear = 0, ring_mBuffer = (\<lambda>_. 0)\<rparr> 9 5 = Inr c" "send_bytes c = ping 5"
    using StressSession_ctor_ok by blast
  then have "pp_start 5 0 (ping_pong_ex c)"
    by (auto simp: pp_start_def ping_pong_ex_def session_ex_simps calm_def)
  with \<open>send_bytes c = ping 5\<close> show thesis using that by blast
qed



end
