(* ===== verification/Poll_Thread.thy ===== *)
theory Poll_Thread
  imports Stress_Session "HOL-Library.AList"
begin

text \<open>
  The driver of the stress test, \<^verbatim>\<open>src/src/exe-StressTest/PollThread.hpp\<close> and \<^verbatim>\<open>PollThread.cpp\<close>: a
  thread that connects a number of clients, serves them in a poll loop and closes them at the end.
  The hash map of clients is an association list; the results do not depend on its order. What the
  network answers during one round of the loop is a record of functions of the socket.
\<close>

section \<open>State\<close>

record PollThread =
  poll_mIsRunning :: bool
  mMaxClientCount :: int
  mCurrentClientCount :: int
  mPollFDs :: "(int \<times> StressSession) list"
  sMAX_RTT :: int
  sRECV_COUNT :: int
  sSEND_COUNT :: int

text \<open>The thread-local counters start at zero in the thread that runs.\<close>

definition PollThread_members :: "int \<Rightarrow> PollThread" where
  "PollThread_members maxClientCount =
     \<lparr>poll_mIsRunning = True, mMaxClientCount = maxClientCount, mCurrentClientCount = 0, mPollFDs = [],
      sMAX_RTT = 0, sRECV_COUNT = 0, sSEND_COUNT = 0\<rparr>"

definition PollThread_ctor :: "int \<Rightarrow> PollThread cxx" where
  "PollThread_ctor maxClientCount =
     (if maxClientCount > 0 then Inr (PollThread_members maxClientCount) else Inl AssertionFailed)"

definition PollThread_Stop :: "PollThread \<Rightarrow> PollThread" where
  "PollThread_Stop pt = pt\<lparr>poll_mIsRunning := False\<rparr>"

text \<open>Sequencing of results that may run out of fuel or fail.\<close>

definition then_run :: "'a cxx option \<Rightarrow> ('a \<Rightarrow> 'b cxx option) \<Rightarrow> 'b cxx option" where
  "then_run r f = (case r of None \<Rightarrow> None | Some (Inl e) \<Rightarrow> Some (Inl e) | Some (Inr x) \<Rightarrow> f x)"

lemma then_run_simps [simp]:
  "then_run (Some (Inr x)) f = f x" "then_run (Some (Inl e)) f = Some (Inl e)" "then_run None f = None"
  by (simp_all add: then_run_def)

section \<open>The poll loop\<close>

record poll_answers =
  readable :: "int \<Rightarrow> bool"
  writable :: "int \<Rightarrow> bool"
  failed :: "int \<Rightarrow> bool"
  recv_answer :: "int \<Rightarrow> stress_answer"
  send_answer :: "int \<Rightarrow> send_answer"
  clock :: "int \<Rightarrow> nat \<Rightarrow> Int64"

datatype poll_result = PollFailed | PollTimeout | PollReady poll_answers

text \<open>
  What one client goes through in a round: whether it is kept, its session, the largest round trip
  and the sockets closed.
\<close>

definition serve_client ::
  "poll_answers \<Rightarrow> int \<Rightarrow> StressSession \<Rightarrow> int \<Rightarrow> (bool \<times> StressSession \<times> int \<times> int list) cxx option" where
  "serve_client env fd s maxRtt =
     then_run (if readable env fd
               then then_run (StressSession_DoRecv (clock env fd) 0 s maxRtt (recv_answer env fd))
                      (\<lambda>(ok, s', rtt, _, closed). Some (Inr (ok, s', rtt, closed)))
               else Some (Inr (True, s, maxRtt, [])))
       (\<lambda>(recvResult, s1, rtt, closed1).
          then_run (if writable env fd
                    then (case StressSession_DoSend s1 (send_answer env fd) of
                            Inl e \<Rightarrow> Some (Inl e)
                          | Inr (ok, s', _, closed) \<Rightarrow> Some (Inr (ok, s', closed)))
                    else Some (Inr (True, s1, [])))
            (\<lambda>(sendResult, s2, closed2).
               if failed env fd then Some (Inr (False, s2, rtt, closed1 @ closed2 @ [fd]))
               else Some (Inr (sendResult \<and> recvResult, s2, rtt, closed1 @ closed2))))"

fun serve_clients :: "poll_answers \<Rightarrow> PollThread \<Rightarrow> int list \<Rightarrow> (PollThread \<times> int list) cxx option" where
  "serve_clients env pt [] = Some (Inr (pt, []))"
| "serve_clients env pt (fd # fds) =
     (case map_of (mPollFDs pt) fd of
        None \<Rightarrow> Some (Inl AssertionFailed)
      | Some s \<Rightarrow>
          then_run (serve_client env fd s (sMAX_RTT pt)) (\<lambda>(keep, s', rtt, closed).
            then_run (serve_clients env
                (pt\<lparr>mPollFDs := (if keep then AList.update fd s' (mPollFDs pt) else AList.delete fd (mPollFDs pt)),
                    sMAX_RTT := rtt,
                    sRECV_COUNT := sRECV_COUNT pt + (if readable env fd then 1 else 0),
                    sSEND_COUNT := sSEND_COUNT pt + (if writable env fd then 1 else 0)\<rparr>) fds)
              (\<lambda>(pt', closed'). Some (Inr (pt', closed @ closed')))))"

text \<open>The events a client is polled for: always input, and output when it has something to send.\<close>

definition poll_events :: "PollThread \<Rightarrow> (int \<times> bool) list" where
  "poll_events pt = map (\<lambda>(fd, s). (fd, RingBuffer_GetUsedSize (mSendRing s) > 0)) (mPollFDs pt)"

definition PollThread_Loop :: "PollThread \<Rightarrow> poll_result \<Rightarrow> (PollThread \<times> int list) cxx option" where
  "PollThread_Loop pt result =
     (let pollFDs = poll_events pt in
      case result of
        PollTimeout \<Rightarrow> Some (Inl AssertionFailed)
      | PollFailed \<Rightarrow> Some (Inr (pt, []))
      | PollReady env \<Rightarrow> serve_clients env pt (map fst pollFDs))"

definition PollThread_Clear :: "PollThread \<Rightarrow> PollThread \<times> int list" where
  "PollThread_Clear pt =
     (pt\<lparr>mPollFDs := []\<rparr>, filter (\<lambda>fd. fd \<noteq> sINVALID_SOCKET_FD) (map fst (mPollFDs pt)))"

section \<open>Connecting the clients\<close>

text \<open>What a connection attempt comes to. \<open>heap\<close> is the memory the two rings of a new session lie in.\<close>

datatype connect_answer = NoSocket | Connected int | WouldBlock int | ConnectError int

record connect_env =
  heap :: "int \<Rightarrow> RingBuffer \<times> RingBuffer"
  now :: "int \<Rightarrow> Int64"

definition add_client :: "connect_env \<Rightarrow> PollThread \<Rightarrow> int \<Rightarrow> PollThread cxx" where
  "add_client env pt fd =
     bindr (StressSession_ctor (fst (heap env fd)) (snd (heap env fd)) fd (now env fd)) (\<lambda>s.
       Inr (pt\<lparr>mPollFDs := (if fd \<in> fst ` set (mPollFDs pt) then mPollFDs pt else mPollFDs pt @ [(fd, s)]),
               mCurrentClientCount := mCurrentClientCount pt + 1\<rparr>))"

fun connect_all :: "connect_env \<Rightarrow> PollThread \<Rightarrow> connect_answer list \<Rightarrow> (PollThread \<times> int list) cxx" where
  "connect_all env pt [] = Inr (pt, [])"
| "connect_all env pt (Connected fd # rest) = bindr (add_client env pt fd) (\<lambda>pt'. connect_all env pt' rest)"
| "connect_all env pt (WouldBlock fd # rest) =
     bindr (connect_all env pt rest) (\<lambda>(pt', blocked). Inr (pt', fd # blocked))"
| "connect_all env pt (NoSocket # rest) = connect_all env pt rest"
| "connect_all env pt (ConnectError fd # rest) = connect_all env pt rest"

text \<open>
  One round of the wait for blocked connections: an error, a timeout, or the number of sockets that
  are ready with, for each socket, \<open>Some err\<close> if it is ready for output. A round without an answer
  times out.
\<close>

datatype wait_result = WaitError | WaitTimeout | WaitReady int "int \<Rightarrow> int option"

fun take_connected :: "connect_env \<Rightarrow> (int \<Rightarrow> int option) \<Rightarrow> PollThread \<Rightarrow> int list \<Rightarrow> PollThread cxx" where
  "take_connected env ready pt [] = Inr pt"
| "take_connected env ready pt (fd # fds) =
     (if ready fd = Some 0 then bindr (add_client env pt fd) (\<lambda>pt'. take_connected env ready pt' fds)
      else take_connected env ready pt fds)"

fun wait_connected ::
  "connect_env \<Rightarrow> nat \<Rightarrow> int \<Rightarrow> PollThread \<Rightarrow> int list \<Rightarrow> wait_result list \<Rightarrow> PollThread cxx" where
  "wait_connected env 0 connectResult pt blocked results = Inr pt"
| "wait_connected env (Suc tries) connectResult pt blocked results =
     (if connectResult = int (length blocked) then Inr pt
      else case results of
        WaitReady n ready # rest \<Rightarrow>
          bindr (take_connected env ready pt blocked)
            (\<lambda>pt'. wait_connected env tries (connectResult + n) pt' blocked rest)
      | _ \<Rightarrow> wait_connected env tries connectResult pt blocked (tl results))"

text \<open>\<^verbatim>\<open>loopCount <= 5\<close> allows six rounds. The attempts are the first \<^verbatim>\<open>mMaxClientCount\<close> answers.\<close>

definition PollThread_ConnectClients ::
  "connect_env \<Rightarrow> PollThread \<Rightarrow> connect_answer list \<Rightarrow> wait_result list \<Rightarrow> PollThread cxx" where
  "PollThread_ConnectClients env pt answers results =
     bindr (connect_all env pt (take (nat (mMaxClientCount pt)) answers)) (\<lambda>(pt1, blocked).
       if blocked = [] then Inr pt1 else wait_connected env 6 0 pt1 blocked results)"

text \<open>
  The thread function: connect, check the count, loop while the flag is set, clear. The list holds
  the results of the poll calls until another thread clears the flag.
\<close>

fun poll_rounds :: "PollThread \<Rightarrow> poll_result list \<Rightarrow> (PollThread \<times> int list) cxx option" where
  "poll_rounds pt [] = Some (Inr (PollThread_Stop pt, []))"
| "poll_rounds pt (r # rs) =
     then_run (PollThread_Loop pt r) (\<lambda>(pt1, c1).
       then_run (poll_rounds pt1 rs) (\<lambda>(pt2, c2). Some (Inr (pt2, c1 @ c2))))"

definition PollThread_Run ::
  "connect_env \<Rightarrow> PollThread \<Rightarrow> connect_answer list \<Rightarrow> wait_result list \<Rightarrow> poll_result list \<Rightarrow>
   (PollThread \<times> int list) cxx option" where
  "PollThread_Run env pt answers results polls =
     then_run (Some (PollThread_ConnectClients env pt answers results)) (\<lambda>pt1.
       if mCurrentClientCount pt1 \<noteq> int (length (mPollFDs pt1)) then Some (Inl AssertionFailed)
       else then_run (poll_rounds pt1 polls) (\<lambda>(pt2, c2).
         let (pt3, c3) = PollThread_Clear pt2 in Some (Inr (pt3, c2 @ c3))))"

section \<open>Lemmas\<close>

lemma serve_clients_spec:
  assumes "distinct (map fst (mPollFDs pt))" and "distinct fds" and "set fds \<subseteq> fst ` set (mPollFDs pt)"
    and "\<And>fd m. fd \<in> set fds \<Longrightarrow>
      \<exists>m'. serve_client env fd (the (map_of (mPollFDs pt) fd)) m = Some (Inr (keep fd, next fd, m', cl fd))"
  shows "\<exists>pt'. serve_clients env pt fds = Some (Inr (pt', concat (map cl fds)))
    \<and> distinct (map fst (mPollFDs pt'))
    \<and> map_of (mPollFDs pt') = (\<lambda>fd. if fd \<in> set fds then (if keep fd then Some (next fd) else None) else map_of (mPollFDs pt) fd)
    \<and> sRECV_COUNT pt' = sRECV_COUNT pt + int (length (filter (readable env) fds))
    \<and> sSEND_COUNT pt' = sSEND_COUNT pt + int (length (filter (writable env) fds))"
  using assms
proof (induction fds arbitrary: pt)
  case Nil
  then show ?case by simp
next
  case (Cons fd fds)
  let ?L = "mPollFDs pt"
  have "map_of ?L fd \<noteq> None" using Cons.prems(3) by (simp add: map_of_eq_None_iff)
  then obtain s where s: "map_of ?L fd = Some s" by blast
  obtain m' where m': "serve_client env fd s (sMAX_RTT pt) = Some (Inr (keep fd, next fd, m', cl fd))"
    using Cons.prems(4)[of fd "sMAX_RTT pt"] s by auto
  define L1 where "L1 = (if keep fd then AList.update fd (next fd) ?L else AList.delete fd ?L)"
  define pt1 where "pt1 = pt\<lparr>mPollFDs := L1, sMAX_RTT := m',
      sRECV_COUNT := sRECV_COUNT pt + (if readable env fd then 1 else 0),
      sSEND_COUNT := sSEND_COUNT pt + (if writable env fd then 1 else 0)\<rparr>"
  have L1: "map_of L1 = (\<lambda>k. if k = fd then (if keep fd then Some (next fd) else None) else map_of ?L k)"
    by (auto simp: L1_def AList.update_conv' AList.delete_conv')
  have dist: "distinct (map fst L1)"
    using Cons.prems(1) by (auto simp: L1_def AList.distinct_update AList.distinct_delete)
  have sub: "set fds \<subseteq> fst ` set (mPollFDs pt1)"
  proof
    fix k assume "k \<in> set fds"
    then have "map_of ?L k \<noteq> None" "k \<noteq> fd" using Cons.prems(2,3) by (auto simp: map_of_eq_None_iff)
    then have "map_of L1 k \<noteq> None" by (simp add: L1)
    then show "k \<in> fst ` set (mPollFDs pt1)" by (simp add: pt1_def map_of_eq_None_iff)
  qed
  have "\<exists>m'. serve_client env k (the (map_of (mPollFDs pt1) k)) m = Some (Inr (keep k, next k, m', cl k))"
    if "k \<in> set fds" for k m
    using Cons.prems(4)[of k m] that Cons.prems(2) by (auto simp: pt1_def L1)
  from Cons.IH[OF _ _ sub this] Cons.prems(2) dist obtain pt' where
    ih: "serve_clients env pt1 fds = Some (Inr (pt', concat (map cl fds)))" "distinct (map fst (mPollFDs pt'))"
      "map_of (mPollFDs pt') = (\<lambda>k. if k \<in> set fds then (if keep k then Some (next k) else None) else map_of (mPollFDs pt1) k)"
      "sRECV_COUNT pt' = sRECV_COUNT pt1 + int (length (filter (readable env) fds))"
      "sSEND_COUNT pt' = sSEND_COUNT pt1 + int (length (filter (writable env) fds))"
    by (auto simp: pt1_def)
  have "serve_clients env pt (fd # fds) = Some (Inr (pt', concat (map cl (fd # fds))))"
    using s m' ih(1) by (simp add: pt1_def L1_def)
  with ih(2-5) Cons.prems(2) show ?case
    by (intro exI[of _ pt']) (auto simp: pt1_def L1 fun_eq_iff)
qed

fun connected_fds :: "connect_answer list \<Rightarrow> int list" where
  "connected_fds [] = []"
| "connected_fds (Connected fd # rest) = fd # connected_fds rest"
| "connected_fds (_ # rest) = connected_fds rest"

fun blocked_fds :: "connect_answer list \<Rightarrow> int list" where
  "blocked_fds [] = []"
| "blocked_fds (WouldBlock fd # rest) = fd # blocked_fds rest"
| "blocked_fds (_ # rest) = blocked_fds rest"

text \<open>A client that has just been connected: its first ping waits to be sent, nothing has been received.\<close>

definition fresh_client :: "connect_env \<Rightarrow> int \<times> StressSession \<Rightarrow> bool" where
  "fresh_client env c \<longleftrightarrow> mSocket (snd c) = fst c \<and> stress_inv 0 (snd c)
     \<and> recv_bytes (snd c) = [] \<and> send_bytes (snd c) = ping (now env (fst c))"

lemma add_client_new:
  assumes "fd \<notin> fst ` set (mPollFDs pt)"
  shows "\<exists>s. add_client env pt fd = Inr (pt\<lparr>mPollFDs := mPollFDs pt @ [(fd, s)],
      mCurrentClientCount := mCurrentClientCount pt + 1\<rparr>) \<and> fresh_client env (fd, s)"
  using StressSession_ctor_ok[of "fst (heap env fd)" "snd (heap env fd)" fd "now env fd"] assms
  by (auto simp: add_client_def fresh_client_def)

lemma add_client_again:
  assumes "fd \<in> fst ` set (mPollFDs pt)"
  shows "add_client env pt fd = Inr (pt\<lparr>mCurrentClientCount := mCurrentClientCount pt + 1\<rparr>)"
  using StressSession_ctor_ok[of "fst (heap env fd)" "snd (heap env fd)" fd "now env fd"] assms
  by (auto simp: add_client_def)

lemma connect_all_spec:
  assumes "distinct (map fst (mPollFDs pt) @ connected_fds answers)"
  shows "\<exists>cs. connect_all env pt answers
      = Inr (pt\<lparr>mPollFDs := mPollFDs pt @ cs, mCurrentClientCount := mCurrentClientCount pt + int (length cs)\<rparr>, blocked_fds answers)
    \<and> map fst cs = connected_fds answers \<and> (\<forall>c\<in>set cs. fresh_client env c)"
  using assms
proof (induction env pt answers rule: connect_all.induct)
  case (2 env pt fd rest)
  then have "fd \<notin> fst ` set (mPollFDs pt)" by simp
  from add_client_new[OF this, of env] obtain s where
    a: "add_client env pt fd = Inr (pt\<lparr>mPollFDs := mPollFDs pt @ [(fd, s)], mCurrentClientCount := mCurrentClientCount pt + 1\<rparr>)"
      "fresh_client env (fd, s)" by blast
  from "2.IH"[of "pt\<lparr>mPollFDs := mPollFDs pt @ [(fd, s)], mCurrentClientCount := mCurrentClientCount pt + 1\<rparr>"] "2.prems"
  obtain cs where
    "connect_all env (pt\<lparr>mPollFDs := mPollFDs pt @ [(fd, s)], mCurrentClientCount := mCurrentClientCount pt + 1\<rparr>) rest
      = Inr (pt\<lparr>mPollFDs := mPollFDs pt @ (fd, s) # cs, mCurrentClientCount := mCurrentClientCount pt + int (length ((fd, s) # cs))\<rparr>, blocked_fds rest)"
    "map fst cs = connected_fds rest" "\<forall>c\<in>set cs. fresh_client env c"
    by (auto simp: ac_simps)
  with a show ?case by (intro exI[of _ "(fd, s) # cs"]) simp
next
  case (3 env pt fd rest)
  then show ?case by auto
qed auto

section \<open>Properties\<close>

text \<open>
  A round of the poll loop serves every client exactly once and keeps exactly the healthy ones:
  after it a socket is in the map if and only if it was polled and its client was kept, with the
  session its own receive and send left; the sockets closed are those the clients closed, in order;
  and the two counters grow by the number of readable and writable clients.
\<close>

theorem PollThread_Loop_keeps_healthy:
  assumes "distinct (map fst (mPollFDs pt))"
    and "\<And>fd s m. (fd, s) \<in> set (mPollFDs pt) \<Longrightarrow>
      \<exists>m'. serve_client env fd s m = Some (Inr (keep fd, next fd, m', cl fd))"
  shows "\<exists>pt'. PollThread_Loop pt (PollReady env) = Some (Inr (pt', concat (map (cl \<circ> fst) (mPollFDs pt))))
    \<and> distinct (map fst (mPollFDs pt'))
    \<and> (\<forall>fd. map_of (mPollFDs pt') fd = (if fd \<in> fst ` set (mPollFDs pt) \<and> keep fd then Some (next fd) else None))
    \<and> sRECV_COUNT pt' = sRECV_COUNT pt + int (length (filter (readable env) (map fst (mPollFDs pt))))
    \<and> sSEND_COUNT pt' = sSEND_COUNT pt + int (length (filter (writable env) (map fst (mPollFDs pt))))"
proof -
  have "\<exists>m'. serve_client env fd (the (map_of (mPollFDs pt) fd)) m = Some (Inr (keep fd, next fd, m', cl fd))"
    if "fd \<in> set (map fst (mPollFDs pt))" for fd m
  proof -
    obtain s where s: "(fd, s) \<in> set (mPollFDs pt)" using \<open>fd \<in> set (map fst (mPollFDs pt))\<close> by auto
    from assms(2)[OF this, of m] map_of_is_SomeI[OF assms(1) s] show ?thesis by simp
  qed
  from serve_clients_spec[OF assms(1,1) _ this] obtain pt' where
    r: "serve_clients env pt (map fst (mPollFDs pt)) = Some (Inr (pt', concat (map cl (map fst (mPollFDs pt)))))"
      "distinct (map fst (mPollFDs pt'))"
      "map_of (mPollFDs pt') = (\<lambda>fd. if fd \<in> set (map fst (mPollFDs pt)) then (if keep fd then Some (next fd) else None)
         else map_of (mPollFDs pt) fd)"
      "sRECV_COUNT pt' = sRECV_COUNT pt + int (length (filter (readable env) (map fst (mPollFDs pt))))"
      "sSEND_COUNT pt' = sSEND_COUNT pt + int (length (filter (writable env) (map fst (mPollFDs pt))))" by auto
  have "map fst (poll_events pt) = map fst (mPollFDs pt)" by (simp add: poll_events_def split_def)
  with r show ?thesis
    by (intro exI[of _ pt']) (auto simp: PollThread_Loop_def map_of_eq_None_iff)
qed

definition poll_ex :: PollThread where
  "poll_ex = (PollThread_members 1)\<lparr>mPollFDs := [(7, stress_ex)]\<rparr>"

definition answers_ex :: poll_answers where
  "answers_ex = \<lparr>readable = (\<lambda>_. True), writable = (\<lambda>_. False), failed = (\<lambda>_. False),
     recv_answer = (\<lambda>_. SocketError), send_answer = (\<lambda>_. SendError), clock = (\<lambda>_ _. 9)\<rparr>"

theorem PollThread_Loop_keeps_healthy_witness:
  "\<exists>pt'. PollThread_Loop poll_ex (PollReady answers_ex) = Some (Inr (pt', [7])) \<and> mPollFDs pt' = [] \<and> sRECV_COUNT pt' = 1"
proof -
  have "\<exists>m'. serve_client answers_ex fd s m = Some (Inr (False, stress_ex, m', [7]))"
    if "(fd, s) \<in> set (mPollFDs poll_ex)" for fd s m
    using that by (simp add: poll_ex_def serve_client_def answers_ex_def StressSession_DoRecv_def stress_ex_def)
  from PollThread_Loop_keeps_healthy[of poll_ex answers_ex "\<lambda>_. False" "\<lambda>_. stress_ex" "\<lambda>_. [7]", OF _ this]
  obtain pt' where "PollThread_Loop poll_ex (PollReady answers_ex) = Some (Inr (pt', [7]))"
      "\<forall>fd. map_of (mPollFDs pt') fd = None" "sRECV_COUNT pt' = 1"
    by (auto simp: poll_ex_def PollThread_members_def answers_ex_def)
  then show ?thesis by (metis list.set_intros(1) map_of_eq_None_iff neq_Nil_conv image_eqI)
qed

text \<open>
  Connecting without blocked attempts: the map holds exactly the sockets that connected, in
  order, the count is their number, so that the check before the loop holds, and every client is
  fresh, with exactly one ping packet to send and nothing received.
\<close>

theorem PollThread_ConnectClients_counts:
  assumes "PollThread_ctor n = Inr pt0" and "distinct (connected_fds (take (nat n) answers))"
    and "blocked_fds (take (nat n) answers) = []"
  shows "\<exists>pt. PollThread_ConnectClients env pt0 answers results = Inr pt
    \<and> map fst (mPollFDs pt) = connected_fds (take (nat n) answers)
    \<and> mCurrentClientCount pt = int (length (mPollFDs pt))
    \<and> (\<forall>c\<in>set (mPollFDs pt). fresh_client env c)"
proof -
  have pt0: "pt0 = PollThread_members n"
    using assms(1) by (simp add: PollThread_ctor_def split: if_splits)
  have "distinct (map fst (mPollFDs pt0) @ connected_fds (take (nat n) answers))"
    using assms(2) by (simp add: pt0 PollThread_members_def)
  from connect_all_spec[OF this, of env] assms(3) show ?thesis
    by (auto simp: pt0 PollThread_ConnectClients_def PollThread_members_def)
qed

definition connect_ex :: connect_env where
  "connect_ex = \<lparr>heap = (\<lambda>_. (empty_ring, empty_ring)), now = (\<lambda>_. 5)\<rparr>"

theorem PollThread_ConnectClients_counts_witness:
  "\<exists>pt. PollThread_ConnectClients connect_ex (PollThread_members 3) [Connected 7, NoSocket, Connected 8, Connected 9] [] = Inr pt
    \<and> map fst (mPollFDs pt) = [7, 8] \<and> mCurrentClientCount pt = int (length (mPollFDs pt))
    \<and> (\<forall>c\<in>set (mPollFDs pt). fresh_client connect_ex c)"
  using PollThread_ConnectClients_counts[of 3 "PollThread_members 3" "[Connected 7, NoSocket, Connected 8, Connected 9]" connect_ex "[]"]
  by (simp add: PollThread_ctor_def numeral_eq_Suc)

text \<open>
  A client whose connection was pending is counted again in every later round of the wait: with
  two pending sockets of which one becomes ready a round before the other, three clients are counted
  for two entries of the map, and the check before the loop ends the program.
\<close>

theorem PollThread_recounts_pending:
  assumes "a \<noteq> b" and "2 \<le> n" and "PollThread_ctor n = Inr pt0"
  shows "PollThread_Run env pt0 [WouldBlock a, WouldBlock b]
      [WaitReady 1 (\<lambda>fd. if fd = a then Some 0 else None), WaitReady 2 (\<lambda>_. Some 0)] polls
    = Some (Inl AssertionFailed)"
proof -
  let ?pt = "PollThread_members n"
  have pt0: "pt0 = ?pt" using assms(3) by (simp add: PollThread_ctor_def split: if_splits)
  have "a \<notin> fst ` set (mPollFDs ?pt)" by (simp add: PollThread_members_def)
  from add_client_new[OF this, of env] obtain s where
    a: "add_client env ?pt a = Inr (?pt\<lparr>mPollFDs := [(a, s)], mCurrentClientCount := 1\<rparr>)"
    by (auto simp: PollThread_members_def)
  let ?pt1 = "?pt\<lparr>mPollFDs := [(a, s)], mCurrentClientCount := 1\<rparr>"
  have a2: "add_client env ?pt1 a = Inr (?pt1\<lparr>mCurrentClientCount := 2\<rparr>)"
    using add_client_again[of a ?pt1 env] by simp
  have "b \<notin> fst ` set (mPollFDs (?pt1\<lparr>mCurrentClientCount := 2\<rparr>))" using assms(1) by simp
  from add_client_new[OF this, of env] obtain s' where
    b: "add_client env (?pt1\<lparr>mCurrentClientCount := 2\<rparr>) b = Inr (?pt1\<lparr>mPollFDs := [(a, s), (b, s')], mCurrentClientCount := 3\<rparr>)"
    by auto
  have all: "take (nat (mMaxClientCount ?pt)) [WouldBlock a, WouldBlock b] = [WouldBlock a, WouldBlock b]"
    using assms(2) by (simp add: PollThread_members_def)
  have "wait_connected env 6 0 ?pt [a, b]
      [WaitReady 1 (\<lambda>fd. if fd = a then Some 0 else None), WaitReady 2 (\<lambda>_. Some 0)]
    = Inr (?pt1\<lparr>mPollFDs := [(a, s), (b, s')], mCurrentClientCount := 3\<rparr>)"
    using a a2 b assms(1) by (simp add: numeral_eq_Suc)
  then have "PollThread_ConnectClients env ?pt [WouldBlock a, WouldBlock b]
      [WaitReady 1 (\<lambda>fd. if fd = a then Some 0 else None), WaitReady 2 (\<lambda>_. Some 0)]
    = Inr (?pt1\<lparr>mPollFDs := [(a, s), (b, s')], mCurrentClientCount := 3\<rparr>)"
    unfolding PollThread_ConnectClients_def all by simp
  then show ?thesis by (simp add: pt0 PollThread_Run_def)
qed

theorem PollThread_recounts_pending_witness:
  "PollThread_Run connect_ex (PollThread_members 500) [WouldBlock 7, WouldBlock 8]
      [WaitReady 1 (\<lambda>fd. if fd = 7 then Some 0 else None), WaitReady 2 (\<lambda>_. Some 0)] []
    = Some (Inl AssertionFailed)"
  by (rule PollThread_recounts_pending[of _ _ 500]) (simp_all add: PollThread_ctor_def)

text \<open>
  A client that breaks has its socket closed twice. If the receive call of a round finds the connection
  gone, \<^verbatim>\<open>DoRecv\<close> closes the socket; if the same poll reported the socket writable, \<^verbatim>\<open>DoSend\<close> is called on
  the closed socket, fails and closes it again, and a reported \<^verbatim>\<open>POLLERR\<close> makes \<^verbatim>\<open>Loop\<close> close it once more.
\<close>

theorem PollThread_closes_twice:
  assumes "stress_inv n s" and "send_bytes s \<noteq> []" and "mSocket s = fd" and "readable env fd" and "writable env fd"
    and "recv_answer env fd \<in> {SocketError, GotBytes []}" and "send_answer env fd = SendError"
  shows "serve_client env fd s m = Some (Inr (False, s, m, [fd, fd] @ (if failed env fd then [fd] else [])))"
proof -
  have recv: "StressSession_DoRecv (clock env fd) 0 s m (recv_answer env fd) = Some (Inr (False, s, m, 0, [fd]))"
    using assms(3,6) by (auto simp: StressSession_DoRecv_def)
  have ring: "RingBuffer_inv (mSendRing s)" using assms(1) by (simp add: stress_inv_def)
  have "RecvBuffer_GetUsedSize (to_recv (mSendRing s)) \<noteq> 0"
    using ring_used[OF ring] assms(2) by (simp add: send_bytes_def)
  moreover have "0 \<le> ring_mFront (mSendRing s) \<and>
      ring_mFront (mSendRing s) + RecvBuffer_GetDIrectReadSize (to_recv (mSendRing s)) \<le> RING_BUFFER_SIZE"
    using ring by (auto simp: RingBuffer_inv_def RecvBuffer_inv_def RecvBuffer_sizes)
  ultimately have send: "\<exists>block. StressSession_DoSend s SendError = Inr (False, s, block, [fd])"
    using assms(3) by (auto simp: StressSession_DoSend_def Let_def RingBuffer_GetFrontBufferPtr_def RingBuffer_GetBufferPtr_def)
  from recv send assms(4,5,7) show ?thesis by (auto simp: serve_client_def)
qed

theorem PollThread_closes_twice_witness:
  "\<exists>s. send_bytes s = ping 5 \<and> serve_client (answers_ex\<lparr>writable := (\<lambda>_. True)\<rparr>) 7 s 0 = Some (Inr (False, s, 0, [7, 7]))"
proof -
  obtain s where s: "stress_inv 0 s" "mSocket s = 7" "send_bytes s = ping 5"
    using StressSession_ctor_ok[of empty_ring empty_ring 7 5] by blast
  have "send_bytes s \<noteq> []" by (metis s(3) length_0_conv length_ping zero_neq_numeral)
  from PollThread_closes_twice[OF s(1) this s(2), of "answers_ex\<lparr>writable := (\<lambda>_. True)\<rparr>" 0] s(3) show ?thesis
    by (auto simp: answers_ex_def)
qed

end
