(* ===== verification/Stress_Program.thy ===== *)
theory Stress_Program
  imports Poll_Thread
begin

text \<open>
  The program of the stress test, \<^verbatim>\<open>src/src/exe-StressTest/main.cpp\<close>, and the life of its second thread:
  \<^verbatim>\<open>PollThread::Create\<close>, \<^verbatim>\<open>PollThreadFunction\<close>, \<^verbatim>\<open>Run\<close>, \<^verbatim>\<open>Stop\<close> and the destructor of
  \<^verbatim>\<open>PollThread.cpp\<close>, which waits for the thread. The two threads share the object; their steps are
  interleaved, one round of the poll loop being one step.
\<close>

section \<open>The two threads\<close>

datatype main_pc = MainStart | MainNew | MainSleep | MainDelete | MainCleanup | MainExit int

datatype thread_pc = ThreadNone | ThreadConnect | ThreadTest | ThreadPoll | ThreadClear | ThreadEnd

text \<open>A failed assertion ends the process; it is recorded in \<open>aborted\<close>.\<close>

record program =
  main_pc :: main_pc
  thread_pc :: thread_pc
  poll_thread :: PollThread
  closed_sockets :: "int list"
  aborted :: bool

datatype program_event =
    Startup int | NewThread | StopThread | Join | Cleanup
  | Connect "connect_answer list" "wait_result list" | TestFlag | Poll poll_result | ClearAll

text \<open>\<open>storage\<close> is what the memory of the object holds before its constructor runs.\<close>

definition program_start :: "PollThread \<Rightarrow> program" where
  "program_start storage =
     \<lparr>main_pc = MainStart, thread_pc = ThreadNone, poll_thread = storage, closed_sockets = [], aborted = False\<rparr>"

text \<open>
  \<^verbatim>\<open>Create\<close> starts the thread (\<^verbatim>\<open>_beginthreadex\<close> is taken to succeed); the destructor waits for its end, so
  it has no result while the thread is running.
\<close>

definition PollThread_Create :: "program \<Rightarrow> program" where
  "PollThread_Create p = p\<lparr>thread_pc := ThreadConnect\<rparr>"

definition PollThread_dtor :: "program \<Rightarrow> program option" where
  "PollThread_dtor p = (if thread_pc p = ThreadEnd then Some p else None)"

text \<open>The steps of \<^verbatim>\<open>main\<close>.\<close>

fun main_exec :: "program \<Rightarrow> program_event \<Rightarrow> program option" where
  "main_exec p (Startup result) =
     (if main_pc p = MainStart then Some (p\<lparr>main_pc := if result \<noteq> 0 then MainExit 1 else MainNew\<rparr>) else None)"
| "main_exec p NewThread =
     (if main_pc p = MainNew
      then (case PollThread_ctor 500 of
              Inl _ \<Rightarrow> Some (p\<lparr>aborted := True\<rparr>)
            | Inr pt \<Rightarrow> Some ((PollThread_Create (p\<lparr>poll_thread := pt\<rparr>))\<lparr>main_pc := MainSleep\<rparr>))
      else None)"
| "main_exec p StopThread =
     (if main_pc p = MainSleep then Some (p\<lparr>poll_thread := PollThread_Stop (poll_thread p), main_pc := MainDelete\<rparr>) else None)"
| "main_exec p Join =
     (if main_pc p = MainDelete then map_option (\<lambda>q. q\<lparr>main_pc := MainCleanup\<rparr>) (PollThread_dtor p) else None)"
| "main_exec p Cleanup = (if main_pc p = MainCleanup then Some (p\<lparr>main_pc := MainExit 0\<rparr>) else None)"
| "main_exec p _ = None"

text \<open>The steps of the thread: \<^verbatim>\<open>Run\<close> with its check, its loop and its end.\<close>

fun thread_exec :: "connect_env \<Rightarrow> program \<Rightarrow> program_event \<Rightarrow> program option" where
  "thread_exec env p (Connect answers results) =
     (if thread_pc p = ThreadConnect
      then (case PollThread_ConnectClients env (poll_thread p) answers results of
              Inl _ \<Rightarrow> Some (p\<lparr>aborted := True\<rparr>)
            | Inr pt \<Rightarrow>
                if mCurrentClientCount pt \<noteq> int (length (mPollFDs pt)) then Some (p\<lparr>aborted := True\<rparr>)
                else Some (p\<lparr>poll_thread := pt, thread_pc := ThreadTest\<rparr>))
      else None)"
| "thread_exec env p TestFlag =
     (if thread_pc p = ThreadTest
      then Some (p\<lparr>thread_pc := if poll_mIsRunning (poll_thread p) then ThreadPoll else ThreadClear\<rparr>) else None)"
| "thread_exec env p (Poll result) =
     (if thread_pc p = ThreadPoll
      then (case PollThread_Loop (poll_thread p) result of
              None \<Rightarrow> None
            | Some (Inl _) \<Rightarrow> Some (p\<lparr>aborted := True\<rparr>)
            | Some (Inr (pt, closed)) \<Rightarrow>
                Some (p\<lparr>poll_thread := pt, closed_sockets := closed_sockets p @ closed, thread_pc := ThreadTest\<rparr>))
      else None)"
| "thread_exec env p ClearAll =
     (if thread_pc p = ThreadClear
      then (let (pt, closed) = PollThread_Clear (poll_thread p) in
            Some (p\<lparr>poll_thread := pt, closed_sockets := closed_sockets p @ closed, thread_pc := ThreadEnd\<rparr>))
      else None)"
| "thread_exec env p _ = None"

definition program_exec :: "connect_env \<Rightarrow> program \<Rightarrow> program_event \<Rightarrow> program option" where
  "program_exec env p e =
     (if aborted p then None
      else case main_exec p e of Some q \<Rightarrow> Some q | None \<Rightarrow> thread_exec env p e)"

fun program_run :: "connect_env \<Rightarrow> program \<Rightarrow> program_event list \<Rightarrow> program option" where
  "program_run env p [] = Some p"
| "program_run env p (e # es) = (case program_exec env p e of None \<Rightarrow> None | Some q \<Rightarrow> program_run env q es)"

lemmas creation_simps [simp] = PollThread_Create_def PollThread_dtor_def

section \<open>The flag\<close>

text \<open>Clearing the flag commutes with everything the thread does between two looks at it.\<close>

lemma Stop_simps [simp]:
  "mPollFDs (PollThread_Stop pt) = mPollFDs pt" "mMaxClientCount (PollThread_Stop pt) = mMaxClientCount pt"
  "mCurrentClientCount (PollThread_Stop pt) = mCurrentClientCount pt" "sMAX_RTT (PollThread_Stop pt) = sMAX_RTT pt"
  "sRECV_COUNT (PollThread_Stop pt) = sRECV_COUNT pt" "sSEND_COUNT (PollThread_Stop pt) = sSEND_COUNT pt"
  "PollThread_Stop (PollThread_Stop pt) = PollThread_Stop pt" "\<not> poll_mIsRunning (PollThread_Stop pt)"
  by (simp_all add: PollThread_Stop_def)

lemma Stop_update [simp]:
  "(PollThread_Stop pt)\<lparr>mPollFDs := cs\<rparr> = PollThread_Stop (pt\<lparr>mPollFDs := cs\<rparr>)"
  "(PollThread_Stop pt)\<lparr>mCurrentClientCount := n\<rparr> = PollThread_Stop (pt\<lparr>mCurrentClientCount := n\<rparr>)"
  "(PollThread_Stop pt)\<lparr>sMAX_RTT := n\<rparr> = PollThread_Stop (pt\<lparr>sMAX_RTT := n\<rparr>)"
  "(PollThread_Stop pt)\<lparr>sRECV_COUNT := n\<rparr> = PollThread_Stop (pt\<lparr>sRECV_COUNT := n\<rparr>)"
  "(PollThread_Stop pt)\<lparr>sSEND_COUNT := n\<rparr> = PollThread_Stop (pt\<lparr>sSEND_COUNT := n\<rparr>)"
  by (simp_all add: PollThread_Stop_def)

lemma Stop_id: "\<not> poll_mIsRunning pt \<Longrightarrow> PollThread_Stop pt = pt"
  by (cases pt) (simp add: PollThread_Stop_def)

definition stop_result :: "(PollThread \<times> 'b) cxx option \<Rightarrow> (PollThread \<times> 'b) cxx option" where
  "stop_result r = then_run r (\<lambda>(pt, x). Some (Inr (PollThread_Stop pt, x)))"

lemma stop_result_simps [simp]:
  "stop_result (Some (Inr (pt, x))) = Some (Inr (PollThread_Stop pt, x))" "stop_result (Some (Inl e)) = Some (Inl e)"
  "stop_result None = None"
  by (simp_all add: stop_result_def)

lemma then_run_cases:
  obtains "r = None" | e where "r = Some (Inl e)" | x where "r = Some (Inr x)"
  by (cases r) (auto, metis sum.exhaust)

lemma serve_clients_Stop: "serve_clients env (PollThread_Stop pt) fds = stop_result (serve_clients env pt fds)"
proof (induction fds arbitrary: pt)
  case (Cons fd fds)
  show ?case
  proof (cases "map_of (mPollFDs pt) fd")
    case (Some s)
    show ?thesis
    proof (cases rule: then_run_cases[of "serve_client env fd s (sMAX_RTT pt)"])
      case (3 x)
      obtain keep s' rtt closed where x: "x = (keep, s', rtt, closed)" by (cases x)
      let ?f = "\<lambda>pt. pt\<lparr>mPollFDs := (if keep then AList.update fd s' (mPollFDs pt) else AList.delete fd (mPollFDs pt)),
          sMAX_RTT := rtt, sRECV_COUNT := sRECV_COUNT pt + (if readable env fd then 1 else 0),
          sSEND_COUNT := sSEND_COUNT pt + (if writable env fd then 1 else 0)\<rparr>"
      from Cons.IH[of "?f pt"] Some 3 x show ?thesis
        by (cases rule: then_run_cases[of "serve_clients env (?f pt) fds"]) auto
    qed (use Some in simp_all)
  qed simp
qed simp

lemma Loop_Stop: "PollThread_Loop (PollThread_Stop pt) r = stop_result (PollThread_Loop pt r)"
  by (cases r) (simp_all add: PollThread_Loop_def poll_events_def serve_clients_Stop)

lemma add_client_Stop: "add_client env (PollThread_Stop pt) fd = bindr (add_client env pt fd) (\<lambda>pt'. Inr (PollThread_Stop pt'))"
  by (cases "StressSession_ctor (fst (heap env fd)) (snd (heap env fd)) fd (now env fd)")
    (simp_all add: add_client_def)

lemma connect_all_Stop:
  "connect_all env (PollThread_Stop pt) answers = bindr (connect_all env pt answers) (\<lambda>(pt', b). Inr (PollThread_Stop pt', b))"
proof (induction env pt answers rule: connect_all.induct)
  case (2 env pt fd rest)
  then show ?case by (cases "add_client env pt fd") (simp_all add: add_client_Stop)
next
  case (3 env pt fd rest)
  then show ?case by (cases "connect_all env pt rest") (auto split: prod.splits)
qed simp_all

lemma take_connected_Stop:
  "take_connected env ready (PollThread_Stop pt) fds = bindr (take_connected env ready pt fds) (\<lambda>pt'. Inr (PollThread_Stop pt'))"
proof (induction env ready pt fds rule: take_connected.induct)
  case (2 env ready pt fd fds)
  then show ?case by (cases "add_client env pt fd") (simp_all add: add_client_Stop)
qed simp

lemma wait_connected_Stop:
  "wait_connected env tries n (PollThread_Stop pt) blocked results
    = bindr (wait_connected env tries n pt blocked results) (\<lambda>pt'. Inr (PollThread_Stop pt'))"
proof (induction env tries n pt blocked results rule: wait_connected.induct)
  case (2 env tries n pt blocked results)
  show ?case
  proof (cases "results \<noteq> [] \<and> n \<noteq> int (length blocked)")
    case True
    then obtain r rest where r: "results = r # rest" by (cases results) auto
    show ?thesis
    proof (cases r)
      case (WaitReady m ready)
      with 2(4)[OF _ r] r True show ?thesis
        by (cases "take_connected env ready pt blocked") (simp_all add: take_connected_Stop)
    qed (use 2 r True in simp_all)
  next
    case False
    with 2 show ?thesis by (cases results) auto
  qed
qed simp

lemma ConnectClients_Stop:
  "PollThread_ConnectClients env (PollThread_Stop pt) answers results
    = bindr (PollThread_ConnectClients env pt answers results) (\<lambda>pt'. Inr (PollThread_Stop pt'))"
  by (cases "connect_all env pt (take (nat (mMaxClientCount pt)) answers)")
    (auto simp: PollThread_ConnectClients_def connect_all_Stop wait_connected_Stop)

section \<open>Histories\<close>

text \<open>The rounds of the poll loop without the end of the loop.\<close>

fun rounds :: "PollThread \<Rightarrow> poll_result list \<Rightarrow> (PollThread \<times> int list) cxx option" where
  "rounds pt [] = Some (Inr (pt, []))"
| "rounds pt (r # rs) =
     then_run (PollThread_Loop pt r) (\<lambda>(pt1, c1). then_run (rounds pt1 rs) (\<lambda>(pt2, c2). Some (Inr (pt2, c1 @ c2))))"

lemma rounds_snoc:
  "rounds pt rs = Some (Inr (pt1, c1)) \<Longrightarrow> PollThread_Loop pt1 r = Some (Inr (pt2, c2)) \<Longrightarrow>
    rounds pt (rs @ [r]) = Some (Inr (pt2, c1 @ c2))"
proof (induction rs arbitrary: pt c1)
  case (Cons q rs)
  then obtain pt' c' c1' where q: "PollThread_Loop pt q = Some (Inr (pt', c'))" "rounds pt' rs = Some (Inr (pt1, c1'))" "c1 = c' @ c1'"
    by (auto simp: then_run_def split: option.splits sum.splits)
  from Cons.IH[OF q(2) Cons.prems(2)] q(1,3) show ?case by simp
qed simp

lemma poll_rounds_rounds: "rounds pt rs = Some (Inr (pt', c)) \<Longrightarrow> poll_rounds pt rs = Some (Inr (PollThread_Stop pt', c))"
proof (induction rs arbitrary: pt c)
  case (Cons r rs)
  then obtain pt1 c1 c2 where r: "PollThread_Loop pt r = Some (Inr (pt1, c1))" "rounds pt1 rs = Some (Inr (pt', c2))" "c = c1 @ c2"
    by (auto simp: then_run_def split: option.splits sum.splits)
  from Cons.IH[OF r(2)] r(1,3) show ?case by simp
qed simp

text \<open>
  What the thread has done, but for the flag: connected with some answers, passed the check, and done
  some rounds.
\<close>

definition in_loop :: "connect_env \<Rightarrow> program \<Rightarrow> bool" where
  "in_loop env p \<longleftrightarrow> (\<exists>answers results pt1 polls pt2.
     PollThread_ConnectClients env (PollThread_members 500) answers results = Inr pt1
     \<and> mCurrentClientCount pt1 = int (length (mPollFDs pt1))
     \<and> rounds pt1 polls = Some (Inr (pt2, closed_sockets p)) \<and> PollThread_Stop (poll_thread p) = PollThread_Stop pt2)"

definition thread_ended :: "connect_env \<Rightarrow> program \<Rightarrow> bool" where
  "thread_ended env p \<longleftrightarrow> (\<exists>answers results polls.
     PollThread_Run env (PollThread_members 500) answers results polls = Some (Inr (poll_thread p, closed_sockets p)))
     \<and> mPollFDs (poll_thread p) = []"

definition thread_inv :: "connect_env \<Rightarrow> program \<Rightarrow> bool" where
  "thread_inv env p \<longleftrightarrow>
     (case thread_pc p of
        ThreadNone \<Rightarrow> closed_sockets p = []
      | ThreadConnect \<Rightarrow> closed_sockets p = [] \<and> PollThread_Stop (poll_thread p) = PollThread_Stop (PollThread_members 500)
      | ThreadTest \<Rightarrow> in_loop env p
      | ThreadPoll \<Rightarrow> in_loop env p
      | ThreadClear \<Rightarrow> in_loop env p \<and> \<not> poll_mIsRunning (poll_thread p)
      | ThreadEnd \<Rightarrow> thread_ended env p)"

definition join_inv :: "program \<Rightarrow> bool" where
  "join_inv p \<longleftrightarrow> (main_pc p \<in> {MainCleanup, MainExit 0} \<longrightarrow> thread_pc p = ThreadEnd)
     \<and> (main_pc p \<in> {MainStart, MainNew} \<longrightarrow> thread_pc p = ThreadNone)"

lemma stop_result_Some: "stop_result r = Some (Inr (q, c)) \<Longrightarrow> \<exists>pt. r = Some (Inr (pt, c)) \<and> PollThread_Stop pt = q"
  by (cases rule: then_run_cases[of r]) auto

lemma same_but_flag_Loop:
  assumes "PollThread_Loop pt r = Some (Inr (pt', c))" and "PollThread_Stop pt = PollThread_Stop pt2"
  shows "\<exists>pt2'. PollThread_Loop pt2 r = Some (Inr (pt2', c)) \<and> PollThread_Stop pt' = PollThread_Stop pt2'"
proof -
  have "stop_result (PollThread_Loop pt2 r) = Some (Inr (PollThread_Stop pt', c))"
    using assms(1) Loop_Stop[of pt r] Loop_Stop[of pt2 r] by (simp add: assms(2))
  from stop_result_Some[OF this] show ?thesis by auto
qed

lemma same_but_flag_Connect:
  assumes "PollThread_ConnectClients env pt answers results = Inr pt'" and "PollThread_Stop pt = PollThread_Stop pt2"
  shows "\<exists>pt2'. PollThread_ConnectClients env pt2 answers results = Inr pt2' \<and> PollThread_Stop pt' = PollThread_Stop pt2'"
proof -
  have "bindr (PollThread_ConnectClients env pt2 answers results) (\<lambda>pt'. Inr (PollThread_Stop pt')) = Inr (PollThread_Stop pt')"
    using assms(1) ConnectClients_Stop[of env pt answers results] ConnectClients_Stop[of env pt2 answers results]
    by (simp add: assms(2))
  then show ?thesis by (auto simp: bindr_Inr_iff)
qed

lemma same_but_flag: "PollThread_Stop pt = PollThread_Stop pt2 \<Longrightarrow>
    mPollFDs pt = mPollFDs pt2 \<and> mCurrentClientCount pt = mCurrentClientCount pt2"
  by (metis Stop_simps(1,3))

lemma connect_enters_loop:
  assumes "PollThread_ConnectClients env (poll_thread p) answers results = Inr pt"
    and "mCurrentClientCount pt = int (length (mPollFDs pt))" and "closed_sockets p = []"
    and "PollThread_Stop (poll_thread p) = PollThread_Stop (PollThread_members 500)"
    and "poll_thread q = pt" and "closed_sockets q = closed_sockets p"
  shows "in_loop env q"
proof -
  obtain pt1 where pt1: "PollThread_ConnectClients env (PollThread_members 500) answers results = Inr pt1"
      "PollThread_Stop pt = PollThread_Stop pt1"
    using same_but_flag_Connect[OF assms(1,4)] by blast
  have "mCurrentClientCount pt1 = int (length (mPollFDs pt1))" using same_but_flag[OF pt1(2)] assms(2) by metis
  with pt1 assms(3,5,6) show ?thesis unfolding in_loop_def
    by (intro exI[of _ answers] exI[of _ results] exI[of _ pt1] exI[of _ "[]"] exI[of _ pt1]) simp
qed

lemma round_stays_in_loop:
  assumes "in_loop env p" and "PollThread_Loop (poll_thread p) r = Some (Inr (pt, c))"
    and "poll_thread q = pt" and "closed_sockets q = closed_sockets p @ c"
  shows "in_loop env q"
proof -
  obtain answers results pt1 polls pt2 where
    l: "PollThread_ConnectClients env (PollThread_members 500) answers results = Inr pt1"
      "mCurrentClientCount pt1 = int (length (mPollFDs pt1))"
      "rounds pt1 polls = Some (Inr (pt2, closed_sockets p))" "PollThread_Stop (poll_thread p) = PollThread_Stop pt2"
    using assms(1) unfolding in_loop_def by blast
  obtain pt2' where pt2': "PollThread_Loop pt2 r = Some (Inr (pt2', c))" "PollThread_Stop pt = PollThread_Stop pt2'"
    using same_but_flag_Loop[OF assms(2) l(4)] by blast
  from l(1,2) rounds_snoc[OF l(3) pt2'(1)] pt2'(2) assms(3,4) show ?thesis unfolding in_loop_def by metis
qed

lemma clear_ends:
  assumes "in_loop env p" and "\<not> poll_mIsRunning (poll_thread p)" and "PollThread_Clear (poll_thread p) = (pt, c)"
    and "poll_thread q = pt" and "closed_sockets q = closed_sockets p @ c"
  shows "thread_ended env q"
proof -
  obtain answers results pt1 polls pt2 where
    l: "PollThread_ConnectClients env (PollThread_members 500) answers results = Inr pt1"
      "mCurrentClientCount pt1 = int (length (mPollFDs pt1))"
      "rounds pt1 polls = Some (Inr (pt2, closed_sockets p))" "PollThread_Stop (poll_thread p) = PollThread_Stop pt2"
    using assms(1) unfolding in_loop_def by blast
  have "PollThread_Clear (PollThread_Stop pt2) = (pt, c)" using assms(2,3) l(4) Stop_id by metis
  with l(1,2) poll_rounds_rounds[OF l(3)] assms(4,5)
  have "PollThread_Run env (PollThread_members 500) answers results polls = Some (Inr (poll_thread q, closed_sockets q))"
    by (simp add: PollThread_Run_def)
  moreover have "mPollFDs pt = []" using assms(3) by (auto simp: PollThread_Clear_def)
  then have "mPollFDs (poll_thread q) = []" using assms(4) by simp
  ultimately show ?thesis unfolding thread_ended_def by blast
qed

lemma PollThread_Run_stopped:
  assumes "PollThread_Run env pt answers results polls = Some (Inr (pt', closed))"
  shows "\<not> poll_mIsRunning pt'"
proof -
  have "\<not> poll_mIsRunning pt2" if "poll_rounds pt1 polls = Some (Inr (pt2, c))" for pt1 pt2 c
    using that
  proof (induction polls arbitrary: pt1 c)
    case (Cons r rs)
    then show ?case by (auto simp: then_run_def split: option.splits sum.splits)
  qed auto
  with assms show ?thesis
    by (auto simp: PollThread_Run_def then_run_def PollThread_Clear_def split: option.splits sum.splits if_splits)
qed

lemma in_loop_cong:
  assumes "in_loop env p" and "closed_sockets q = closed_sockets p"
    and "PollThread_Stop (poll_thread q) = PollThread_Stop (poll_thread p)"
  shows "in_loop env q"
  using assms unfolding in_loop_def by metis

lemma thread_exec_inv:
  assumes "thread_exec env p e = Some q" and "thread_inv env p" and "\<not> aborted q"
  shows "thread_inv env q \<and> main_pc q = main_pc p \<and> (thread_pc p = ThreadEnd \<longrightarrow> thread_pc q = ThreadEnd)
    \<and> thread_pc p \<noteq> ThreadNone"
proof (cases e)
  case (Connect answers results)
  with assms(1,3) obtain pt where
    c: "thread_pc p = ThreadConnect" "PollThread_ConnectClients env (poll_thread p) answers results = Inr pt"
      "mCurrentClientCount pt = int (length (mPollFDs pt))" "q = p\<lparr>poll_thread := pt, thread_pc := ThreadTest\<rparr>"
    by (auto split: if_splits sum.splits)
  have "closed_sockets p = []" "PollThread_Stop (poll_thread p) = PollThread_Stop (PollThread_members 500)"
    using assms(2) c(1) by (simp_all add: thread_inv_def)
  from connect_enters_loop[OF c(2,3) this, of q] c show ?thesis by (simp add: thread_inv_def)
next
  case TestFlag
  with assms(1) have c: "thread_pc p = ThreadTest"
      "q = p\<lparr>thread_pc := if poll_mIsRunning (poll_thread p) then ThreadPoll else ThreadClear\<rparr>" by (auto split: if_splits)
  then have "in_loop env q" using assms(2) in_loop_cong[of env p q] by (simp add: thread_inv_def)
  with c show ?thesis by (cases "poll_mIsRunning (poll_thread p)") (simp_all add: thread_inv_def)
next
  case (Poll r)
  with assms(1,3) obtain pt c where
    l: "thread_pc p = ThreadPoll" "PollThread_Loop (poll_thread p) r = Some (Inr (pt, c))"
      "q = p\<lparr>poll_thread := pt, closed_sockets := closed_sockets p @ c, thread_pc := ThreadTest\<rparr>"
    by (auto split: if_splits option.splits sum.splits)
  have "in_loop env p" using assms(2) l(1) by (simp add: thread_inv_def)
  from round_stays_in_loop[OF this l(2), of q] l show ?thesis by (simp add: thread_inv_def)
next
  case ClearAll
  with assms(1) obtain pt c where
    l: "thread_pc p = ThreadClear" "PollThread_Clear (poll_thread p) = (pt, c)"
      "q = p\<lparr>poll_thread := pt, closed_sockets := closed_sockets p @ c, thread_pc := ThreadEnd\<rparr>"
    by (auto split: if_splits prod.splits)
  have "in_loop env p" "\<not> poll_mIsRunning (poll_thread p)" using assms(2) l(1) by (simp_all add: thread_inv_def)
  from clear_ends[OF this l(2), of q] l show ?thesis by (simp add: thread_inv_def)
qed (use assms(1) in simp_all)

lemma main_exec_inv:
  assumes "main_exec p e = Some q" and "thread_inv env p" and "join_inv p" and "\<not> aborted q"
  shows "thread_inv env q \<and> join_inv q"
proof (cases e)
  case StopThread
  with assms(1) have m: "main_pc p = MainSleep"
      "q = p\<lparr>poll_thread := PollThread_Stop (poll_thread p), main_pc := MainDelete\<rparr>" by (auto split: if_splits)
  have ended: "thread_ended env q" if "thread_ended env p"
  proof -
    from that obtain answers results polls where
      run: "PollThread_Run env (PollThread_members 500) answers results polls = Some (Inr (poll_thread p, closed_sockets p))"
      unfolding thread_ended_def by blast
    have "\<not> poll_mIsRunning (poll_thread p)"
      using PollThread_Run_stopped[OF run] .
    then have "PollThread_Stop (poll_thread p) = poll_thread p" by (rule Stop_id)
    with that m(2) show ?thesis by (simp add: thread_ended_def)
  qed
  have "in_loop env q" if "in_loop env p" using in_loop_cong[OF that, of q] m(2) by simp
  with m ended assms(2,3) show ?thesis by (cases "thread_pc p") (simp_all add: thread_inv_def join_inv_def)
next
  case NewThread
  with assms(1) have "main_pc p = MainNew"
      "q = p\<lparr>poll_thread := PollThread_members 500, thread_pc := ThreadConnect, main_pc := MainSleep\<rparr>"
    by (auto simp: PollThread_ctor_def split: if_splits)
  with assms(2,3) show ?thesis by (simp add: thread_inv_def join_inv_def)
next
  case Join
  with assms(1) have "thread_pc p = ThreadEnd" "q = p\<lparr>main_pc := MainCleanup\<rparr>" by (auto split: if_splits)
  with assms(2) show ?thesis by (simp add: thread_inv_def join_inv_def thread_ended_def)
next
  case Cleanup
  with assms(1) have "main_pc p = MainCleanup" "q = p\<lparr>main_pc := MainExit 0\<rparr>" by (auto split: if_splits)
  with assms(2,3) show ?thesis by (simp add: thread_inv_def join_inv_def thread_ended_def)
next
  case (Startup r)
  with assms(1) have "main_pc p = MainStart" "q = p\<lparr>main_pc := if r \<noteq> 0 then MainExit 1 else MainNew\<rparr>" by (auto split: if_splits)
  with assms(2,3) show ?thesis by (simp add: thread_inv_def join_inv_def)
qed (use assms(1) in simp_all)

lemma program_run_inv:
  "program_run env p es = Some q \<Longrightarrow> thread_inv env p \<Longrightarrow> join_inv p \<Longrightarrow> \<not> aborted p \<Longrightarrow>
    aborted q \<or> thread_inv env q \<and> join_inv q"
proof (induction es arbitrary: p)
  case (Cons e es)
  then obtain p1 where p1: "program_exec env p e = Some p1" "program_run env p1 es = Some q" by (auto split: option.splits)
  show ?case
  proof (cases "aborted p1")
    case True
    with p1(2) show ?thesis by (cases es) (auto simp: program_exec_def)
  next
    case False
    have "thread_inv env p1 \<and> join_inv p1"
    proof (cases "main_exec p e")
      case None
      with p1(1) Cons.prems(4) have "thread_exec env p e = Some p1" by (simp add: program_exec_def)
      from thread_exec_inv[OF this Cons.prems(2) False] Cons.prems(3) show ?thesis by (auto simp: join_inv_def)
    next
      case (Some p2)
      with p1(1) Cons.prems(4) have "main_exec p e = Some p1" by (simp add: program_exec_def)
      from main_exec_inv[OF this Cons.prems(2,3) False] show ?thesis .
    qed
    with Cons.IH[OF p1(2)] False show ?thesis by simp
  qed
qed simp

text \<open>Once the flag is cleared, the thread polls at most once more.\<close>

definition polls_left :: "program \<Rightarrow> nat" where
  "polls_left p = (if thread_pc p = ThreadPoll then 1 else 0)"

fun is_poll :: "program_event \<Rightarrow> bool" where
  "is_poll (Poll _) = True"
| "is_poll _ = False"

lemma flag_stays_cleared:
  assumes "program_exec env p e = Some q" and "\<not> poll_mIsRunning (poll_thread p)" and "main_pc p \<in> {MainDelete, MainCleanup, MainExit 0}"
    and "\<not> aborted q"
  shows "\<not> poll_mIsRunning (poll_thread q) \<and> main_pc q \<in> {MainDelete, MainCleanup, MainExit 0}
    \<and> polls_left q + (if is_poll e then 1 else 0) \<le> polls_left p"
proof (cases "main_exec p e")
  case None
  with assms(1) have t: "thread_exec env p e = Some q" by (auto simp: program_exec_def split: if_splits)
  have pt: "PollThread_Stop (poll_thread p) = poll_thread p" by (rule Stop_id[OF assms(2)])
  show ?thesis
  proof (cases e)
    case (Connect answers results)
    with t assms(4) obtain pt where c: "thread_pc p = ThreadConnect"
        "PollThread_ConnectClients env (poll_thread p) answers results = Inr pt"
        "q = p\<lparr>poll_thread := pt, thread_pc := ThreadTest\<rparr>"
      by (auto split: if_splits sum.splits)
    have "\<not> poll_mIsRunning pt" using ConnectClients_Stop[of env "poll_thread p" answers results] c(2) pt
      by (metis Stop_simps(8) bindr_Inr_iff sum.inject(2))
    with c assms(3) Connect show ?thesis by (simp add: polls_left_def)
  next
    case (Poll r)
    with t assms(4) obtain pt c where l: "thread_pc p = ThreadPoll" "PollThread_Loop (poll_thread p) r = Some (Inr (pt, c))"
        "q = p\<lparr>poll_thread := pt, closed_sockets := closed_sockets p @ c, thread_pc := ThreadTest\<rparr>"
      by (auto split: if_splits option.splits sum.splits)
    have "PollThread_Stop pt = pt" using Loop_Stop[of "poll_thread p" r] l(2) pt by simp
    then have "\<not> poll_mIsRunning pt" by (metis Stop_simps(8))
    with l assms(3) Poll show ?thesis by (simp add: polls_left_def)
  qed (use t assms(2,3) in \<open>auto simp: polls_left_def PollThread_Clear_def split: if_splits\<close>)
next
  case (Some q')
  with assms(1) have "main_exec p e = Some q" by (auto simp: program_exec_def split: if_splits)
  with assms(2,3) show ?thesis by (cases e) (auto simp: polls_left_def split: if_splits)
qed

lemma aborted_run: "aborted p \<Longrightarrow> program_run env p es = Some q \<Longrightarrow> es = [] \<and> aborted q"
  by (cases es) (auto simp: program_exec_def)

lemma polls_after_stop:
  "program_run env p es = Some q \<Longrightarrow> \<not> poll_mIsRunning (poll_thread p) \<Longrightarrow> main_pc p \<in> {MainDelete, MainCleanup, MainExit 0} \<Longrightarrow>
    \<not> aborted q \<Longrightarrow> length (filter is_poll es) \<le> polls_left p"
proof (induction es arbitrary: p)
  case (Cons e es)
  then obtain p1 where p1: "program_exec env p e = Some p1" "program_run env p1 es = Some q" by (auto split: option.splits)
  have "\<not> aborted p1" using aborted_run[OF _ p1(2)] Cons.prems(4) by blast
  from flag_stays_cleared[OF p1(1) Cons.prems(2,3) this] Cons.IH[OF p1(2)] Cons.prems(4) show ?case by auto
qed simp

section \<open>Properties\<close>

text \<open>
  C34. When the stress test exits, its thread is over and has let go of every client. Under every
  interleaving of \<^verbatim>\<open>main\<close> and the thread, if \<^verbatim>\<open>main\<close> reaches the end with 0 then the thread has run to its
  end before \<^verbatim>\<open>WSACleanup\<close>; what the two threads have done together is one sequential run of
  \<^verbatim>\<open>PollThread::Run\<close> on a new object for 500 clients, with some answers of the network, whenever the flag
  was cleared; and the map of clients is empty.
\<close>

theorem stress_program_joins:
  assumes "program_run env (program_start storage) es = Some p" and "main_pc p = MainExit 0" and "\<not> aborted p"
  shows "thread_pc p = ThreadEnd \<and> mPollFDs (poll_thread p) = []
    \<and> (\<exists>answers results polls. PollThread_Run env (PollThread_members 500) answers results polls
         = Some (Inr (poll_thread p, closed_sockets p)))"
proof -
  have "thread_inv env (program_start storage)" "join_inv (program_start storage)" "\<not> aborted (program_start storage)"
    by (simp_all add: program_start_def thread_inv_def join_inv_def)
  from program_run_inv[OF assms(1) this] assms(3) have inv: "thread_inv env p" "join_inv p" by auto
  with assms(2) show ?thesis by (simp add: join_inv_def thread_inv_def thread_ended_def)
qed

text \<open>
  \<^verbatim>\<open>Stop\<close> takes effect after at most one more poll, but does not interrupt it: from the moment
  \<^verbatim>\<open>main\<close> has cleared the flag the thread calls \<^verbatim>\<open>WSAPoll\<close> at most once more, and while the thread is
  inside that call, which has no time limit, the only step of the program is the return of the call, so
  the destructor that \<^verbatim>\<open>main\<close> runs waits for it.
\<close>

theorem stress_program_stop:
  assumes "program_exec env p StopThread = Some p1" and "\<not> aborted p1"
  shows "(\<forall>es q. program_run env p1 es = Some q \<longrightarrow> \<not> aborted q \<longrightarrow> length (filter is_poll es) \<le> 1)
    \<and> (thread_pc p1 = ThreadPoll \<longrightarrow> (\<forall>e. program_exec env p1 e \<noteq> None \<longrightarrow> is_poll e))"
proof -
  have p1: "p1 = p\<lparr>poll_thread := PollThread_Stop (poll_thread p), main_pc := MainDelete\<rparr>"
    using assms(1) by (auto simp: program_exec_def split: if_splits)
  have "length (filter is_poll es) \<le> 1" if "program_run env p1 es = Some q" "\<not> aborted q" for es q
    using polls_after_stop[OF that(1)] that(2) p1 by (simp add: polls_left_def split: if_splits)
  moreover have "is_poll e" if "thread_pc p1 = ThreadPoll" "program_exec env p1 e \<noteq> None" for e
    using that p1 by (cases e) (auto simp: program_exec_def split: if_splits)
  ultimately show ?thesis by blast
qed

definition program_ex :: "program_event list" where
  "program_ex = [Startup 0, NewThread, Connect [Connected 7, NoSocket] [], TestFlag]"

theorem stress_program_joins_witness:
  "\<exists>p. program_run connect_ex (program_start (PollThread_members 1)) (program_ex @ [StopThread, Poll PollFailed, TestFlag, ClearAll, Join, Cleanup]) = Some p
    \<and> closed_sockets p = [7] \<and> mPollFDs (poll_thread p) = []"
proof -
  obtain s where s: "add_client connect_ex (PollThread_members 500) 7 = Inr ((PollThread_members 500)\<lparr>mPollFDs := [(7, s)], mCurrentClientCount := 1\<rparr>)"
    using add_client_new[of 7 "PollThread_members 500" connect_ex] by (auto simp: PollThread_members_def)
  have "\<exists>p. program_run connect_ex (program_start (PollThread_members 1)) (program_ex @ [StopThread, Poll PollFailed, TestFlag, ClearAll, Join, Cleanup]) = Some p
    \<and> closed_sockets p = [7] \<and> main_pc p = MainExit 0 \<and> \<not> aborted p"
    using s by (simp add: program_ex_def program_exec_def program_start_def PollThread_ctor_def PollThread_ConnectClients_def
        PollThread_Loop_def PollThread_Clear_def PollThread_members_def sINVALID_SOCKET_FD_def Let_def PollThread_Stop_def)
  with stress_program_joins[of connect_ex "PollThread_members 1" "program_ex @ [StopThread, Poll PollFailed, TestFlag, ClearAll, Join, Cleanup]"]
  show ?thesis by blast
qed

theorem stress_program_stop_witness:
  "\<exists>p p1. program_run connect_ex (program_start (PollThread_members 1)) program_ex = Some p
    \<and> program_exec connect_ex p StopThread = Some p1 \<and> program_exec connect_ex p1 Join = None"
proof -
  obtain s where s: "add_client connect_ex (PollThread_members 500) 7 = Inr ((PollThread_members 500)\<lparr>mPollFDs := [(7, s)], mCurrentClientCount := 1\<rparr>)"
    using add_client_new[of 7 "PollThread_members 500" connect_ex] by (auto simp: PollThread_members_def)
  have "\<exists>p p1. program_run connect_ex (program_start (PollThread_members 1)) program_ex = Some p
    \<and> program_exec connect_ex p StopThread = Some p1 \<and> \<not> aborted p1 \<and> thread_pc p1 = ThreadPoll"
    using s by (simp add: program_ex_def program_exec_def program_start_def PollThread_ctor_def PollThread_ConnectClients_def
        PollThread_members_def)
  then obtain p p1 where p: "program_run connect_ex (program_start (PollThread_members 1)) program_ex = Some p"
      "program_exec connect_ex p StopThread = Some p1" "\<not> aborted p1" "thread_pc p1 = ThreadPoll" by blast
  from stress_program_stop[OF p(2,3)] p(4) have "program_exec connect_ex p1 Join = None" by force
  with p show ?thesis by blast
qed

end
