(* ===== verification/Lock.thy ===== *)
theory Lock
  imports Cxx_Prelude
begin

text \<open>
  The locks of \<^verbatim>\<open>src/src/lib-core/include/core/Lock.hpp\<close>: \<^verbatim>\<open>Mutex\<close> over a POSIX mutex of type NORMAL
  (the release build), \<^verbatim>\<open>NullLock\<close>, and the template \<^verbatim>\<open>LockGuard\<close>, whose requirements on its lock
  object are a locale. A mutex is the number of the thread that holds it, if any. A call that has to
  wait is \<open>None\<close>: it takes place later, in another state.
\<close>

section \<open>Lock objects\<close>

type_synonym mutex = "nat option"

definition Mutex_ctor :: mutex where
  "Mutex_ctor = None"

definition Mutex_Lock :: "nat \<Rightarrow> mutex \<Rightarrow> mutex option" where
  "Mutex_Lock t m = (case m of None \<Rightarrow> Some (Some t) | Some _ \<Rightarrow> None)"

text \<open>Unlocking a mutex that the thread does not hold is undefined for the type NORMAL.\<close>

definition Mutex_Unlock :: "nat \<Rightarrow> mutex \<Rightarrow> mutex cxx" where
  "Mutex_Unlock t m = (if m = Some t then Inr None else Inl UnlockNotOwner)"

text \<open>Destroying a mutex that is held is undefined.\<close>

definition Mutex_dtor :: "mutex \<Rightarrow> unit cxx" where
  "Mutex_dtor m = (if m = None then Inr () else Inl DestroyLocked)"

definition Mutex_TryLock :: "nat \<Rightarrow> mutex \<Rightarrow> bool \<times> mutex" where
  "Mutex_TryLock t m = (case m of None \<Rightarrow> (True, Some t) | Some _ \<Rightarrow> (False, m))"

definition NullLock_Lock :: "nat \<Rightarrow> unit \<Rightarrow> unit option" where
  "NullLock_Lock t m = Some ()"

definition NullLock_Unlock :: "nat \<Rightarrow> unit \<Rightarrow> unit cxx" where
  "NullLock_Unlock t m = Inr ()"

definition NullLock_TryLock :: "nat \<Rightarrow> unit \<Rightarrow> bool \<times> unit" where
  "NullLock_TryLock t m = (True, ())"

section \<open>LockGuard\<close>

text \<open>
  A block with a guard: the constructor locks, the body runs, the destructor unlocks, also when the
  body returns early or fails. \<open>None\<close>: the constructor waits.
\<close>

definition LockGuard_scope ::
  "(nat \<Rightarrow> 'm \<Rightarrow> 'm option) \<Rightarrow> (nat \<Rightarrow> 'm \<Rightarrow> 'm cxx) \<Rightarrow> nat \<Rightarrow> ('s \<Rightarrow> 'a \<times> 's) \<Rightarrow> 'm \<Rightarrow> 's \<Rightarrow> ('a \<times> 'm \<times> 's) cxx option" where
  "LockGuard_scope lock unlock t body m s =
     (case lock t m of
        None \<Rightarrow> None
      | Some m1 \<Rightarrow> (let (r, s') = body s in Some (bindr (unlock t m1) (\<lambda>m2. Inr (r, m2, s')))))"

text \<open>What the template needs: the lock a thread has taken can be released by it, and is then free as before.\<close>

locale lock_object =
  fixes lock :: "nat \<Rightarrow> 'm \<Rightarrow> 'm option" and unlock :: "nat \<Rightarrow> 'm \<Rightarrow> 'm cxx"
    and try_lock :: "nat \<Rightarrow> 'm \<Rightarrow> bool \<times> 'm"
  assumes unlock_lock: "lock t m = Some m' \<Longrightarrow> unlock t m' = Inr m"
    and try_lock_lock: "try_lock t m = (case lock t m of Some m' \<Rightarrow> (True, m') | None \<Rightarrow> (False, m))"
begin

lemma scope_spec:
  "LockGuard_scope lock unlock t body m s =
     (if lock t m = None then None else Some (Inr (fst (body s), m, snd (body s))))"
  using unlock_lock[of t m] by (auto simp: LockGuard_scope_def split: option.splits prod.splits)

lemma scope_try:
  "fst (try_lock t m) \<longleftrightarrow> LockGuard_scope lock unlock t body m s \<noteq> None"
  by (auto simp: scope_spec try_lock_lock split: option.splits)

end

interpretation mutex: lock_object Mutex_Lock Mutex_Unlock Mutex_TryLock
  by unfold_locales (auto simp: Mutex_Lock_def Mutex_Unlock_def Mutex_TryLock_def split: option.splits)

interpretation null_lock: lock_object NullLock_Lock NullLock_Unlock NullLock_TryLock
  by unfold_locales (auto simp: NullLock_Lock_def NullLock_Unlock_def NullLock_TryLock_def)

section \<open>Threads with guarded blocks\<close>

text \<open>Any number of threads, each outside or inside a block guarded by the same mutex.\<close>

record guarded_sys =
  guard_mutex :: mutex
  inside :: "nat set"
  misuse :: bool

datatype guard_event = Enter nat | Leave nat

fun guard_exec :: "guarded_sys \<Rightarrow> guard_event \<Rightarrow> guarded_sys option" where
  "guard_exec g (Enter t) =
     (if t \<in> inside g then None
      else case Mutex_Lock t (guard_mutex g) of
        None \<Rightarrow> None
      | Some m \<Rightarrow> Some (g\<lparr>guard_mutex := m, inside := insert t (inside g)\<rparr>))"
| "guard_exec g (Leave t) =
     (if t \<in> inside g
      then (case Mutex_Unlock t (guard_mutex g) of
              Inl _ \<Rightarrow> Some (g\<lparr>misuse := True\<rparr>)
            | Inr m \<Rightarrow> Some (g\<lparr>guard_mutex := m, inside := inside g - {t}\<rparr>))
      else None)"

inductive guard_reachable :: "guarded_sys \<Rightarrow> bool" where
  init: "guard_reachable \<lparr>guard_mutex = Mutex_ctor, inside = {}, misuse = False\<rparr>"
| step: "guard_reachable g \<Longrightarrow> guard_exec g e = Some g' \<Longrightarrow> guard_reachable g'"

lemma guard_invariant:
  "guard_reachable g \<Longrightarrow> inside g = set_option (guard_mutex g) \<and> \<not> misuse g"
proof (induction rule: guard_reachable.induct)
  case init
  then show ?case by (simp add: Mutex_ctor_def)
next
  case (step g e g')
  then show ?case
    by (cases e) (auto simp: Mutex_Lock_def Mutex_Unlock_def split: if_splits option.splits)
qed



end
