(* ===== verification/Time_Stamp.thy ===== *)
theory Time_Stamp
  imports Cxx_Prelude "HOL-Library.List_Lexorder" "HOL-Library.Char_ord"
begin

text \<open>
  The time stamp of a log line, \<^verbatim>\<open>Logger::NowIso8601\<close> of \<^verbatim>\<open>src/src/lib-core/src/Logger.cpp\<close>. How the fmt
  library writes a number with leading zeros and how \<^verbatim>\<open>localtime_r\<close> splits a time are arguments.
\<close>

section \<open>The time stamp\<close>

record tm =
  tm_year :: int
  tm_mon :: int
  tm_mday :: int
  tm_hour :: int
  tm_min :: int
  tm_sec :: int

text \<open>
  \<open>now\<close> is the system clock in nanoseconds since the epoch, \<open>digits w n\<close> is \<open>n\<close> written with at least \<open>w\<close>
  digits. Both conversions of the duration truncate towards zero.
\<close>

definition time_point_seconds :: "int \<Rightarrow> int" where
  "time_point_seconds now = cdiv now 1000000000"

definition time_point_millis :: "int \<Rightarrow> int" where
  "time_point_millis now = crem (cdiv now 1000000) 1000"

definition NowIso8601 :: "(nat \<Rightarrow> int \<Rightarrow> string) \<Rightarrow> (int \<Rightarrow> tm) \<Rightarrow> int \<Rightarrow> string" where
  "NowIso8601 digits localtime now =
     (let tmStruct = localtime (time_point_seconds now); millis = time_point_millis now in
      digits 4 (tm_year tmStruct + 1900) @ ''-'' @ digits 2 (tm_mon tmStruct + 1) @ ''-'' @ digits 2 (tm_mday tmStruct) @ ''T'' @
      digits 2 (tm_hour tmStruct) @ '':'' @ digits 2 (tm_min tmStruct) @ '':'' @ digits 2 (tm_sec tmStruct) @ ''.'' @
      digits 3 millis)"

text \<open>What is known of \<^verbatim>\<open>digits\<close>: numbers that fit get \<open>w\<close> characters, which sort as the numbers do.\<close>

definition zero_padded :: "(nat \<Rightarrow> int \<Rightarrow> string) \<Rightarrow> bool" where
  "zero_padded digits \<longleftrightarrow> (\<forall>w n. 0 \<le> n \<longrightarrow> n < 10 ^ w \<longrightarrow> length (digits w n) = w
     \<and> (\<forall>m. 0 \<le> m \<longrightarrow> m < n \<longrightarrow> digits w m < digits w n))"

definition tm_fields :: "tm \<Rightarrow> int list" where
  "tm_fields t = [tm_year t, tm_mon t, tm_mday t, tm_hour t, tm_min t, tm_sec t]"

text \<open>The ranges of the C library, for years of four digits.\<close>

definition tm_ok :: "tm \<Rightarrow> bool" where
  "tm_ok t \<longleftrightarrow> - 1900 \<le> tm_year t \<and> tm_year t < 8100 \<and> 0 \<le> tm_mon t \<and> tm_mon t < 12 \<and> 1 \<le> tm_mday t \<and> tm_mday t \<le> 31
     \<and> 0 \<le> tm_hour t \<and> tm_hour t < 24 \<and> 0 \<le> tm_min t \<and> tm_min t < 60 \<and> 0 \<le> tm_sec t \<and> tm_sec t \<le> 60"

section \<open>Lemmas\<close>

lemma append_less_append:
  fixes xs ys :: "'a :: linorder list"
  assumes "length xs = length ys"
  shows "xs @ us < ys @ vs \<longleftrightarrow> xs < ys \<or> xs = ys \<and> us < vs"
  using assms by (induction xs ys rule: list_induct2) auto

lemma padded_block:
  assumes "zero_padded digits" and "0 \<le> m" "m < 10 ^ w" "0 \<le> n" "n < 10 ^ w"
  shows "digits w m @ us < digits w n @ vs \<longleftrightarrow> m < n \<or> m = n \<and> us < vs"
proof -
  have len: "length (digits w m) = length (digits w n)" using assms by (simp add: zero_padded_def)
  have "digits w m < digits w n" if "m < n" using assms that by (simp add: zero_padded_def)
  moreover have "digits w n < digits w m" if "n < m" using assms that by (simp add: zero_padded_def)
  ultimately show ?thesis unfolding append_less_append[OF len] by (metis less_irrefl less_linear order.strict_trans)
qed

lemma cdiv_crem_nonneg: "0 \<le> a \<Longrightarrow> 0 < b \<Longrightarrow> cdiv a b = a div b \<and> crem a b = a mod b"
  by (cases "a = 0") (simp_all add: cdiv_def crem_def)

lemma div_mod_less:
  assumes "0 < (p :: int)"
  shows "u < v \<longleftrightarrow> u div p < v div p \<or> u div p = v div p \<and> u mod p < v mod p"
proof -
  have eq: "x = p * (x div p) + x mod p" "0 \<le> x mod p" "x mod p < p" for x using assms by simp_all
  have less: "x < y" if "x div p < y div p" for x y
  proof -
    have "p * (x div p + 1) \<le> p * (y div p)" using that assms by (intro mult_left_mono) simp_all
    then have "p * (x div p) + p \<le> p * (y div p)" by (simp add: distrib_left)
    with eq[of x] eq[of y] show ?thesis by linarith
  qed
  show ?thesis
  proof (cases "u div p" "v div p" rule: linorder_cases)
    case equal
    then have "p * (u div p) = p * (v div p)" by simp
    with eq(1)[of u] eq(1)[of v] equal show ?thesis by linarith
  qed (use less[of u v] less[of v u] in auto)
qed

lemma time_split:
  assumes "0 \<le> a" and "0 \<le> b"
  shows "a div 1000000 < b div 1000000 \<longleftrightarrow> time_point_seconds a < time_point_seconds b
      \<or> time_point_seconds a = time_point_seconds b \<and> time_point_millis a < time_point_millis b"
proof -
  have s: "time_point_seconds x = x div 1000000 div 1000" "time_point_millis x = x div 1000000 mod 1000" if "0 \<le> x" for x
    using that zdiv_zmult2_eq[of 1000 x 1000000]
    by (simp_all add: time_point_seconds_def time_point_millis_def cdiv_crem_nonneg pos_imp_zdiv_nonneg_iff)
  show ?thesis
    unfolding s[OF assms(1)] s[OF assms(2)] by (rule div_mod_less) simp
qed

lemma millis_range: "0 \<le> now \<Longrightarrow> 0 \<le> time_point_millis now \<and> time_point_millis now < 1000"
  by (simp add: time_point_millis_def cdiv_crem_nonneg pos_imp_zdiv_nonneg_iff)

lemma NowIso8601_less:
  assumes "zero_padded digits" and "0 \<le> a" "0 \<le> b"
    and "tm_ok (localtime (time_point_seconds a))" "tm_ok (localtime (time_point_seconds b))"
  shows "NowIso8601 digits localtime a < NowIso8601 digits localtime b
    \<longleftrightarrow> tm_fields (localtime (time_point_seconds a)) @ [time_point_millis a]
      < tm_fields (localtime (time_point_seconds b)) @ [time_point_millis b]"
proof -
  have last: "digits 3 m < digits 3 n \<longleftrightarrow> m < n" if "0 \<le> m" "m < 1000" "0 \<le> n" "n < 1000" for m n
    using padded_block[OF assms(1), of m 3 n "[]" "[]"] that by simp
  show ?thesis
    using assms(2-5) millis_range[of a] millis_range[of b]
    by (simp add: NowIso8601_def Let_def tm_fields_def tm_ok_def padded_block[OF assms(1)] last add1_zle_eq)
qed

section \<open>Properties\<close>

text \<open>
  The lines of a log sort by time. From the epoch on, in years of four digits, a time stamp has 23
  characters, and if the local time does not go back between two moments, then comparing their time
  stamps as texts compares the moments to the millisecond.
\<close>

theorem NowIso8601_sorts:
  assumes "zero_padded digits" and "0 \<le> a" and "0 \<le> b"
    and "tm_ok (localtime (time_point_seconds a))" and "tm_ok (localtime (time_point_seconds b))"
    and "\<forall>s\<in>{time_point_seconds a, time_point_seconds b}. \<forall>t\<in>{time_point_seconds a, time_point_seconds b}.
      s < t \<longrightarrow> tm_fields (localtime s) < tm_fields (localtime t)"
  shows "length (NowIso8601 digits localtime a) = 23
    \<and> (NowIso8601 digits localtime a < NowIso8601 digits localtime b \<longleftrightarrow> a div 1000000 < b div 1000000)"
proof -
  let ?s = "time_point_seconds a" and ?t = "time_point_seconds b"
  have len: "length (digits w n) = w" if "0 \<le> n" "n < 10 ^ w" for w n using assms(1) that by (simp add: zero_padded_def)
  have "length (NowIso8601 digits localtime a) = 23"
    using assms(4) millis_range[OF assms(2)] by (simp add: NowIso8601_def Let_def tm_ok_def len)
  moreover have "tm_fields (localtime ?s) < tm_fields (localtime ?t) \<or> tm_fields (localtime ?s) = tm_fields (localtime ?t)
      \<and> time_point_millis a < time_point_millis b \<longleftrightarrow> ?s < ?t \<or> ?s = ?t \<and> time_point_millis a < time_point_millis b"
    using assms(6) by (cases ?s ?t rule: linorder_cases) auto
  then have "NowIso8601 digits localtime a < NowIso8601 digits localtime b \<longleftrightarrow> a div 1000000 < b div 1000000"
    unfolding NowIso8601_less[OF assms(1-5)] time_split[OF assms(2,3)]
    by (subst append_less_append) (simp_all add: tm_fields_def)
  ultimately show ?thesis by blast
qed

text \<open>Decimal digits, and a calendar with years of one hour.\<close>

fun decimal :: "nat \<Rightarrow> int \<Rightarrow> string" where
  "decimal 0 n = []"
| "decimal (Suc w) n = char_of (48 + nat (n div 10 ^ w)) # decimal w (n mod 10 ^ w)"

lemma decimal_padded: "0 \<le> n \<Longrightarrow> n < 10 ^ w \<Longrightarrow> length (decimal w n) = w \<and> (\<forall>m. 0 \<le> m \<longrightarrow> m < n \<longrightarrow> decimal w m < decimal w n)"
proof (induction w arbitrary: n)
  case (Suc w)
  have nn: "0 \<le> k mod 10 ^ w" for k :: int by simp
  have d: "0 \<le> k div 10 ^ w \<and> k div 10 ^ w < 10" "0 \<le> k mod 10 ^ w \<and> k mod 10 ^ w < 10 ^ w" if "0 \<le> k" "k < 10 ^ Suc w" for k :: int
    using that div_mod_less[of "10 ^ w" k "10 ^ Suc w"] nn[of k] by (auto simp: pos_imp_zdiv_nonneg_iff)
  have less: "char_of (48 + nat i) < (char_of (48 + nat j) :: char)" if "0 \<le> i" "i < j" "j < 10" for i j :: int
    using that by (simp add: less_char_def)
  have "decimal (Suc w) m < decimal (Suc w) n" if m: "0 \<le> m" "m < n" for m
  proof -
    have "m < 10 ^ Suc w" using m Suc.prems(2) by simp
    note dm = d[OF m(1) this] and dn = d[OF Suc.prems]
    consider "m div 10 ^ w < n div 10 ^ w" | "m div 10 ^ w = n div 10 ^ w" "m mod 10 ^ w < n mod 10 ^ w"
      using div_mod_less[of "10 ^ w" m n] m(2) by auto
    then show ?thesis
    proof cases
      case 1
      with less[OF _ 1] dm dn show ?thesis by simp
    next
      case 2
      with Suc.IH[of "n mod 10 ^ w"] dm dn show ?thesis by simp
    qed
  qed
  with Suc.IH[of "n mod 10 ^ w"] d[OF Suc.prems] show ?case by simp
qed simp

definition localtime_ex :: "int \<Rightarrow> tm" where
  "localtime_ex s = \<lparr>tm_year = 100 + s div 3600, tm_mon = 0, tm_mday = 1, tm_hour = 0, tm_min = s mod 3600 div 60, tm_sec = s mod 60\<rparr>"

theorem NowIso8601_sorts_witness:
  "NowIso8601 decimal localtime_ex 61007000000 < NowIso8601 decimal localtime_ex 61042000000"
proof -
  have "zero_padded decimal" unfolding zero_padded_def using decimal_padded by blast
  moreover have t: "time_point_seconds 61007000000 = 61" "time_point_seconds 61042000000 = 61"
    by (simp_all add: time_point_seconds_def cdiv_def)
  ultimately show ?thesis
    using NowIso8601_sorts[of decimal 61007000000 61042000000 localtime_ex] by (simp add: tm_ok_def localtime_ex_def)
qed

end
