(* ===== verification/Logger.thy ===== *)
theory Logger
  imports Cxx_Prelude
begin

text \<open>
  The logger, \<^verbatim>\<open>src/src/lib-core/include/core/Logger.hpp\<close> and \<^verbatim>\<open>src/src/lib-core/src/Logger.cpp\<close>:
  levels, the filter, the hand-over to the sinks, and the console and file sinks with the lines they
  write. The formatting of the message (the fmt library) and the text of the time (theory \<open>Time_Stamp\<close>)
  are arguments;
  the C library's files are part of the state.
\<close>

section \<open>Levels\<close>

datatype eLogLevel = Trace | Debug | Info | Warn | Error | Critical | Off

fun level_value :: "eLogLevel \<Rightarrow> nat" where
  "level_value Trace = 0"
| "level_value Debug = 1"
| "level_value Info = 2"
| "level_value Warn = 3"
| "level_value Error = 4"
| "level_value Critical = 5"
| "level_value Off = 6"

lemma level_value_inject [simp]: "level_value a = level_value b \<longleftrightarrow> a = b"
  by (cases a; cases b) simp_all

text \<open>The scoped enumeration is compared by its values.\<close>

instantiation eLogLevel :: linorder
begin

definition less_eq_eLogLevel :: "eLogLevel \<Rightarrow> eLogLevel \<Rightarrow> bool" where
  "less_eq_eLogLevel a b \<longleftrightarrow> level_value a \<le> level_value b"

definition less_eLogLevel :: "eLogLevel \<Rightarrow> eLogLevel \<Rightarrow> bool" where
  "less_eLogLevel a b \<longleftrightarrow> level_value a < level_value b"

instance
  by standard (auto simp: less_eq_eLogLevel_def less_eLogLevel_def)

end

lemmas level_order = less_eq_eLogLevel_def less_eLogLevel_def

fun ToLevelName :: "eLogLevel \<Rightarrow> string" where
  "ToLevelName Trace = ''TRACE''"
| "ToLevelName Debug = ''DEBUG''"
| "ToLevelName Info = ''INFO''"
| "ToLevelName Warn = ''WARN''"
| "ToLevelName Error = ''ERROR''"
| "ToLevelName Critical = ''CRITICAL''"
| "ToLevelName Off = ''OFF''"

definition Logger_LevelToString :: "eLogLevel \<Rightarrow> string" where
  "Logger_LevelToString level = ToLevelName level"

section \<open>Sinks\<close>

text \<open>
  An open file: its path and whether it was opened for appending; a file opened with \<^verbatim>\<open>w\<close> is written
  at the position of its handle.
\<close>

datatype handle = AppendHandle string | WriteHandle string nat

record FileSink =
  mFilePath :: string
  mAppend :: bool
  mFileHandle :: "handle option"

datatype sink = Console | File FileSink

text \<open>The world of the sinks: the files, the two output streams line by line, the directories asked for.\<close>

record world =
  files :: "string \<Rightarrow> string option"
  std_out :: "string list"
  std_err :: "string list"
  mkdirs :: "string list"

definition FileSink_ctor :: "string \<Rightarrow> bool \<Rightarrow> FileSink" where
  "FileSink_ctor filePath appending = \<lparr>mFilePath = filePath, mAppend = appending, mFileHandle = None\<rparr>"

definition bracketed :: "string \<Rightarrow> string" where
  "bracketed s = ''['' @ s @ ''] ''"

text \<open>The two formats of the source, with and without a logger name.\<close>

definition log_line :: "eLogLevel \<Rightarrow> string \<Rightarrow> string \<Rightarrow> string \<Rightarrow> string" where
  "log_line level timestampIso8601 loggerName formattedMessage =
     bracketed timestampIso8601 @ bracketed (ToLevelName level) @
     (if loggerName = [] then formattedMessage else bracketed loggerName @ formattedMessage)"

definition ConsoleSink_Write :: "eLogLevel \<Rightarrow> string \<Rightarrow> string \<Rightarrow> string \<Rightarrow> world \<Rightarrow> world" where
  "ConsoleSink_Write level timestampIso8601 loggerName formattedMessage w =
     (let isError = (level \<ge> Error); line = log_line level timestampIso8601 loggerName formattedMessage in
      if isError then w\<lparr>std_err := std_err w @ [line]\<rparr> else w\<lparr>std_out := std_out w @ [line]\<rparr>)"

text \<open>\<^verbatim>\<open>find_last_of('/')\<close> and the part before it.\<close>

definition parent_dir :: "string \<Rightarrow> string option" where
  "parent_dir path =
     (if CHR ''/'' \<in> set path
      then Some (rev (tl (dropWhile (\<lambda>c. c \<noteq> CHR ''/'') (rev path)))) else None)"

text \<open>
  \<open>openable path\<close> says whether \<^verbatim>\<open>fopen\<close> of the path succeeds in this state of the file system. Opening
  with \<^verbatim>\<open>a\<close> creates a missing file, opening with \<^verbatim>\<open>w\<close> empties it.
\<close>

definition FileSink_EnsureFileOpen :: "(string \<Rightarrow> bool) \<Rightarrow> FileSink \<Rightarrow> world \<Rightarrow> FileSink \<times> world" where
  "FileSink_EnsureFileOpen openable f w =
     (if mFileHandle f \<noteq> None then (f, w)
      else
        let w1 = (case parent_dir (mFilePath f) of None \<Rightarrow> w | Some dir \<Rightarrow> w\<lparr>mkdirs := mkdirs w @ [dir]\<rparr>);
            p = mFilePath f
        in if \<not> openable p then (f\<lparr>mFileHandle := None\<rparr>, w1)
           else if mAppend f
           then (f\<lparr>mFileHandle := Some (AppendHandle p)\<rparr>,
                 w1\<lparr>files := (files w1)(p := Some (case files w1 p of None \<Rightarrow> [] | Some c \<Rightarrow> c))\<rparr>)
           else (f\<lparr>mFileHandle := Some (WriteHandle p 0)\<rparr>, w1\<lparr>files := (files w1)(p := Some [])\<rparr>))"

text \<open>Printing a line through a handle: at the end of the file, or at the position of the handle.\<close>

fun file_print :: "handle \<Rightarrow> string \<Rightarrow> world \<Rightarrow> handle \<times> world" where
  "file_print (AppendHandle p) line w =
     (AppendHandle p, w\<lparr>files := (files w)(p := Some (the (files w p) @ line))\<rparr>)"
| "file_print (WriteHandle p pos) line w =
     (let c = the (files w p) in
      (WriteHandle p (pos + length line),
       w\<lparr>files := (files w)(p := Some (take pos c @ line @ drop (pos + length line) c))\<rparr>))"

definition FileSink_Write ::
  "(string \<Rightarrow> bool) \<Rightarrow> eLogLevel \<Rightarrow> string \<Rightarrow> string \<Rightarrow> string \<Rightarrow> FileSink \<Rightarrow> world \<Rightarrow> FileSink \<times> world" where
  "FileSink_Write openable level timestampIso8601 loggerName formattedMessage f w =
     (let (f1, w1) = FileSink_EnsureFileOpen openable f w in
      case mFileHandle f1 of
        None \<Rightarrow> (f1, w1)
      | Some h \<Rightarrow>
          let (h', w2) = file_print h (log_line level timestampIso8601 loggerName formattedMessage @ [CHR 0x0A]) w1
          in (f1\<lparr>mFileHandle := Some h'\<rparr>, w2))"

section \<open>The logger\<close>

text \<open>
  A logger shares its sinks with others: it holds positions in a list of all sinks of the program.
\<close>

record Logger =
  mName :: string
  mLevel :: eLogLevel
  mSinks :: "nat list"

type_synonym log_state = "sink list \<times> world"

definition Logger_ctor :: "string \<Rightarrow> nat list \<Rightarrow> Logger" where
  "Logger_ctor name sinks = \<lparr>mName = name, mLevel = Info, mSinks = sinks\<rparr>"

definition Logger_SetLevel :: "Logger \<Rightarrow> eLogLevel \<Rightarrow> Logger" where
  "Logger_SetLevel l level = l\<lparr>mLevel := level\<rparr>"

definition Logger_GetLevel :: "Logger \<Rightarrow> eLogLevel" where
  "Logger_GetLevel l = mLevel l"

definition sink_write ::
  "(string \<Rightarrow> bool) \<Rightarrow> eLogLevel \<Rightarrow> string \<Rightarrow> string \<Rightarrow> string \<Rightarrow> nat \<Rightarrow> log_state \<Rightarrow> log_state" where
  "sink_write openable level ts name msg i st =
     (case st of (sinks, w) \<Rightarrow>
        case sinks ! i of
          Console \<Rightarrow> (sinks, ConsoleSink_Write level ts name msg w)
        | File f \<Rightarrow> (let (f', w') = FileSink_Write openable level ts name msg f w in (sinks[i := File f'], w')))"

definition Logger_Emit ::
  "(string \<Rightarrow> bool) \<Rightarrow> string \<Rightarrow> Logger \<Rightarrow> eLogLevel \<Rightarrow> string \<Rightarrow> log_state \<Rightarrow> log_state" where
  "Logger_Emit openable timestamp l level formattedMessage st =
     fold (sink_write openable level timestamp (mName l) formattedMessage) (mSinks l) st"

text \<open>The message is formatted only if it passes the filter.\<close>

definition Logger_Log ::
  "(string \<Rightarrow> bool) \<Rightarrow> string \<Rightarrow> Logger \<Rightarrow> eLogLevel \<Rightarrow> string \<Rightarrow> log_state \<Rightarrow> log_state" where
  "Logger_Log openable timestamp l level formatted st =
     (if level < mLevel l \<or> mLevel l = Off then st
      else Logger_Emit openable timestamp l level formatted st)"

definition Logger_Trace where "Logger_Trace openable ts l = Logger_Log openable ts l Trace"
definition Logger_Debug where "Logger_Debug openable ts l = Logger_Log openable ts l Debug"
definition Logger_Info where "Logger_Info openable ts l = Logger_Log openable ts l Info"
definition Logger_Warn where "Logger_Warn openable ts l = Logger_Log openable ts l Warn"
definition Logger_Error where "Logger_Error openable ts l = Logger_Log openable ts l Error"
definition Logger_Critical where "Logger_Critical openable ts l = Logger_Log openable ts l Critical"

section \<open>What a sink receives\<close>

text \<open>A call of \<open>Log\<close> is a time, a level and a message; \<open>log_all\<close> is a sequence of calls.\<close>

type_synonym log_call = "string \<times> eLogLevel \<times> string"

definition log_all :: "(string \<Rightarrow> bool) \<Rightarrow> Logger \<Rightarrow> log_call list \<Rightarrow> log_state \<Rightarrow> log_state" where
  "log_all openable l calls st = fold (\<lambda>(ts, level, msg). Logger_Log openable ts l level msg) calls st"

definition passes :: "Logger \<Rightarrow> log_call \<Rightarrow> bool" where
  "passes l c \<longleftrightarrow> mLevel l \<noteq> Off \<and> level_value (mLevel l) \<le> level_value (fst (snd c))"

definition call_line :: "Logger \<Rightarrow> log_call \<Rightarrow> string" where
  "call_line l c = log_line (fst (snd c)) (fst c) (mName l) (snd (snd c))"

lemma Logger_Log_passes:
  "Logger_Log openable ts l level msg st
    = (if passes l (ts, level, msg) then Logger_Emit openable ts l level msg st else st)"
  by (auto simp: Logger_Log_def passes_def level_order)

fun handle_path :: "handle \<Rightarrow> string" where
  "handle_path (AppendHandle p) = p"
| "handle_path (WriteHandle p _) = p"

definition handle_ok :: "FileSink \<Rightarrow> bool" where
  "handle_ok f \<longleftrightarrow> (\<forall>h. mFileHandle f = Some h \<longrightarrow> handle_path h = mFilePath f)"

text \<open>
  A file sink that started as \<open>f0\<close>, without a handle, over a file with contents \<open>c0\<close>, and has been
  given the lines \<open>ls\<close>.
\<close>

definition file_state :: "FileSink \<Rightarrow> string option \<Rightarrow> string list \<Rightarrow> FileSink \<Rightarrow> world \<Rightarrow> bool" where
  "file_state f0 c0 ls f w \<longleftrightarrow>
     (if ls = [] then f = f0 \<and> files w (mFilePath f0) = c0
      else f = f0\<lparr>mFileHandle := Some (if mAppend f0 then AppendHandle (mFilePath f0)
                     else WriteHandle (mFilePath f0) (length (concat ls)))\<rparr>
        \<and> files w (mFilePath f0)
            = Some ((if mAppend f0 then (case c0 of None \<Rightarrow> [] | Some c \<Rightarrow> c) else []) @ concat ls))"

lemma FileSink_Write_line:
  assumes "file_state f0 c0 ls f w" and "openable (mFilePath f0)" and "mFileHandle f0 = None"
    and "FileSink_Write openable level ts name msg f w = (f', w')"
  shows "file_state f0 c0 (ls @ [log_line level ts name msg @ [CHR 0x0A]]) f' w'"
  using assms
  by (cases "ls = []"; cases "mAppend f0")
    (auto simp: file_state_def FileSink_Write_def FileSink_EnsureFileOpen_def Let_def
      split: option.splits)

lemma FileSink_Write_other:
  assumes "FileSink_Write openable level ts name msg f w = (f', w')" and "handle_ok f" and "mFilePath f \<noteq> p"
  shows "files w' p = files w p \<and> mFilePath f' = mFilePath f \<and> handle_ok f'
    \<and> std_out w' = std_out w \<and> std_err w' = std_err w"
proof -
  obtain f1 w1 where e: "FileSink_EnsureFileOpen openable f w = (f1, w1)" by fastforce
  then have o1: "files w1 p = files w p" "mFilePath f1 = mFilePath f" "handle_ok f1"
      "std_out w1 = std_out w" "std_err w1 = std_err w"
    using assms(2,3)
    by (auto simp: FileSink_EnsureFileOpen_def Let_def handle_ok_def split: if_splits option.splits)
  show ?thesis
  proof (cases "mFileHandle f1")
    case None
    with e o1 assms(1) show ?thesis by (simp add: FileSink_Write_def)
  next
    case (Some h)
    with e o1 assms show ?thesis
      by (cases h) (auto simp: FileSink_Write_def handle_ok_def Let_def)
  qed
qed

lemma FileSink_Write_streams:
  assumes "FileSink_Write openable level ts name msg f w = (f', w')"
  shows "std_out w' = std_out w \<and> std_err w' = std_err w"
proof -
  obtain f1 w1 where e: "FileSink_EnsureFileOpen openable f w = (f1, w1)" by fastforce
  then have "std_out w1 = std_out w" "std_err w1 = std_err w"
    by (auto simp: FileSink_EnsureFileOpen_def Let_def split: if_splits option.splits)
  with e assms show ?thesis
    by (cases "mFileHandle f1"; cases "the (mFileHandle f1)") (auto simp: FileSink_Write_def Let_def)
qed

text \<open>
  The state of the program's sinks seen from sink \<open>i\<close>: it has been given the lines \<open>ls\<close>, and no
  other sink writes to its file.
\<close>

definition sole_writer :: "nat \<Rightarrow> FileSink \<Rightarrow> string option \<Rightarrow> string list \<Rightarrow> log_state \<Rightarrow> bool" where
  "sole_writer i f0 c0 ls st \<longleftrightarrow> i < length (fst st)
     \<and> (\<exists>f. fst st ! i = File f \<and> file_state f0 c0 ls f (snd st))
     \<and> (\<forall>j g. j < length (fst st) \<longrightarrow> j \<noteq> i \<longrightarrow> fst st ! j = File g \<longrightarrow> mFilePath g \<noteq> mFilePath f0 \<and> handle_ok g)"

lemma sink_write_length [simp]: "length (fst (sink_write openable level ts name msg j st)) = length (fst st)"
  by (auto simp: sink_write_def Let_def split: prod.splits sink.splits)

lemma sink_write_sole:
  assumes inv: "sole_writer i f0 c0 ls st" and op: "openable (mFilePath f0)" and f0: "mFileHandle f0 = None"
    and j: "j < length (fst st)"
  shows "sole_writer i f0 c0 (if j = i then ls @ [log_line level ts name msg @ [CHR 0x0A]] else ls)
    (sink_write openable level ts name msg j st)"
proof (cases "j = i")
  case True
  obtain f where f: "fst st ! i = File f" "file_state f0 c0 ls f (snd st)" using inv by (auto simp: sole_writer_def)
  obtain f' w' where w: "FileSink_Write openable level ts name msg f (snd st) = (f', w')" by fastforce
  from FileSink_Write_line[OF f(2) op f0 w] show ?thesis
    using inv f(1) w True by (cases st) (auto simp: sole_writer_def sink_write_def nth_list_update)
next
  case False
  show ?thesis
  proof (cases "fst st ! j")
    case Console
    have "files (ConsoleSink_Write level ts name msg w) = files w" for w
      by (simp add: ConsoleSink_Write_def Let_def)
    with Console False inv show ?thesis
      by (cases st) (auto simp: sole_writer_def sink_write_def file_state_def)
  next
    case (File g)
    obtain sinks w0 where st: "st = (sinks, w0)" by (cases st)
    obtain g' w' where w: "FileSink_Write openable level ts name msg g w0 = (g', w')" by fastforce
    have g: "mFilePath g \<noteq> mFilePath f0" "handle_ok g" using inv File False j by (auto simp: sole_writer_def st)
    note other = FileSink_Write_other[OF w g(2,1)]
    have res: "sink_write openable level ts name msg j st = (sinks[j := File g'], w')"
      using File w by (simp add: sink_write_def st)
    obtain f where f: "sinks ! i = File f" "file_state f0 c0 ls f w0" using inv by (auto simp: sole_writer_def st)
    have "file_state f0 c0 ls f w'" using f(2) other by (simp add: file_state_def)
    moreover have "sinks[j := File g'] ! i = File f" using f(1) False by simp
    moreover have "mFilePath h \<noteq> mFilePath f0 \<and> handle_ok h"
      if "k < length sinks" "k \<noteq> i" "sinks[j := File g'] ! k = File h" for k h
    proof (cases "k = j")
      case True
      with that other g show ?thesis by auto
    next
      case neq: False
      with that inv show ?thesis unfolding sole_writer_def st by auto
    qed
    ultimately show ?thesis
      using inv False unfolding res by (simp add: sole_writer_def st)
  qed
qed

lemma fold_sink_write_sole:
  assumes "sole_writer i f0 c0 ls st" and "openable (mFilePath f0)" and "mFileHandle f0 = None"
    and "distinct js" and "\<forall>j\<in>set js. j < length (fst st)"
  shows "sole_writer i f0 c0 (if i \<in> set js then ls @ [log_line level ts name msg @ [CHR 0x0A]] else ls)
      (fold (sink_write openable level ts name msg) js st)
    \<and> length (fst (fold (sink_write openable level ts name msg) js st)) = length (fst st)"
  using assms
proof (induction js arbitrary: st ls)
  case Nil
  then show ?case by simp
next
  case (Cons j js)
  have s: "sole_writer i f0 c0 (if j = i then ls @ [log_line level ts name msg @ [CHR 0x0A]] else ls)
      (sink_write openable level ts name msg j st)"
    using Cons.prems by (intro sink_write_sole) auto
  from Cons.IH[OF s Cons.prems(2,3)] Cons.prems(4,5) show ?case by (cases "j = i") auto
qed

lemma log_all_sole:
  assumes "sole_writer i f0 c0 ls st" and "openable (mFilePath f0)" and "mFileHandle f0 = None"
    and "distinct (mSinks l)" and "\<forall>j\<in>set (mSinks l). j < length (fst st)" and "i \<in> set (mSinks l)"
  shows "sole_writer i f0 c0 (ls @ map (\<lambda>c. call_line l c @ [CHR 0x0A]) (filter (passes l) calls)) (log_all openable l calls st)"
  using assms
proof (induction calls arbitrary: st ls)
  case Nil
  then show ?case by (simp add: log_all_def)
next
  case (Cons c calls)
  obtain ts level msg where c: "c = (ts, level, msg)" by (cases c)
  have step: "log_all openable l (c # calls) st = log_all openable l calls (Logger_Log openable ts l level msg st)"
    by (simp add: log_all_def c)
  show ?case
  proof (cases "passes l c")
    case False
    with Cons c step show ?thesis by (simp add: Logger_Log_passes)
  next
    case True
    with fold_sink_write_sole[where openable = openable, OF Cons.prems(1-5), of level ts "mName l" msg] Cons.prems(6)
    have "sole_writer i f0 c0 (ls @ [call_line l c @ [CHR 0x0A]]) (Logger_Log openable ts l level msg st)"
      and "length (fst (Logger_Log openable ts l level msg st)) = length (fst st)"
      by (simp_all add: Logger_Log_passes c Logger_Emit_def call_line_def)
    from Cons.IH[OF this(1) Cons.prems(2-4)] this(2) Cons.prems(5,6) True step show ?thesis by simp
  qed
qed

section \<open>What the console receives\<close>

definition console_count :: "sink list \<Rightarrow> nat list \<Rightarrow> nat" where
  "console_count sinks js = length (filter (\<lambda>j. sinks ! j = Console) js)"

lemma sink_write_console:
  assumes "sink_write openable level ts name msg j (sinks, w) = (sinks', w')" and "j < length sinks"
  shows "length sinks' = length sinks \<and> (\<forall>k < length sinks. (sinks' ! k = Console) = (sinks ! k = Console))
    \<and> std_out w' = std_out w @ (if sinks ! j = Console \<and> \<not> level \<ge> Error then [log_line level ts name msg] else [])
    \<and> std_err w' = std_err w @ (if sinks ! j = Console \<and> level \<ge> Error then [log_line level ts name msg] else [])"
proof (cases "sinks ! j")
  case Console
  with assms show ?thesis by (auto simp: sink_write_def ConsoleSink_Write_def Let_def)
next
  case (File f)
  obtain f' v where "FileSink_Write openable level ts name msg f w = (f', v)" by fastforce
  with File assms FileSink_Write_streams[OF this] show ?thesis
    by (auto simp: sink_write_def nth_list_update split: if_splits)
qed

lemma fold_sink_write_console:
  assumes "fold (sink_write openable level ts name msg) js (sinks, w) = (sinks', w')"
    and "\<forall>j\<in>set js. j < length sinks"
  shows "length sinks' = length sinks \<and> (\<forall>k < length sinks. (sinks' ! k = Console) = (sinks ! k = Console))
    \<and> std_out w' = std_out w @ (if level \<ge> Error then [] else replicate (console_count sinks js) (log_line level ts name msg))
    \<and> std_err w' = std_err w @ (if level \<ge> Error then replicate (console_count sinks js) (log_line level ts name msg) else [])"
  using assms
proof (induction js arbitrary: sinks w)
  case Nil
  then show ?case by (simp add: console_count_def)
next
  case (Cons j js)
  obtain sinks1 w1 where s: "sink_write openable level ts name msg j (sinks, w) = (sinks1, w1)" by fastforce
  note step = sink_write_console[OF s] 
  have "fold (sink_write openable level ts name msg) js (sinks1, w1) = (sinks', w')"
    using Cons.prems(1) s by simp
  moreover have "\<forall>k\<in>set js. k < length sinks1" using Cons.prems(2) step by simp
  ultimately have ih: "length sinks' = length sinks1 \<and> (\<forall>k < length sinks1. (sinks' ! k = Console) = (sinks1 ! k = Console))
    \<and> std_out w' = std_out w1 @ (if level \<ge> Error then [] else replicate (console_count sinks1 js) (log_line level ts name msg))
    \<and> std_err w' = std_err w1 @ (if level \<ge> Error then replicate (console_count sinks1 js) (log_line level ts name msg) else [])"
    by (rule Cons.IH)
  have "console_count sinks1 js = console_count sinks js"
    unfolding console_count_def using Cons.prems(2) step by (intro arg_cong[where f = length] filter_cong) auto
  with ih step Cons.prems(2) show ?case
    by (cases "sinks ! j = Console") (auto simp: console_count_def)
qed

section \<open>Properties\<close>

text \<open>
  C37. A file sink holds exactly the messages that pass the filter. Over any sequence of \<open>Log\<close> calls
  of a logger with any sinks, the file of a sink that no other sink writes to contains, after the old
  contents if the sink appends and instead of them otherwise, one line for each call whose level is
  at least the logger's, in order and ended by a newline; with the level Off, or when nothing passes,
  the file is not even opened.
\<close>

theorem Logger_file_history:
  assumes "sole_writer i f0 (files w (mFilePath f0)) [] (sinks, w)" and "openable (mFilePath f0)" and "mFileHandle f0 = None"
    and "distinct (mSinks l)" and "\<forall>j\<in>set (mSinks l). j < length sinks" and "i \<in> set (mSinks l)"
  shows "files (snd (log_all openable l calls (sinks, w))) (mFilePath f0)
    = (if filter (passes l) calls = [] then files w (mFilePath f0)
       else Some ((if mAppend f0 then (case files w (mFilePath f0) of None \<Rightarrow> [] | Some c \<Rightarrow> c) else [])
              @ concat (map (\<lambda>c. call_line l c @ [CHR 0x0A]) (filter (passes l) calls))))"
  using log_all_sole[where openable = openable, OF assms(1-4) _ assms(6), of calls] assms(5)
  by (auto simp: sole_writer_def file_state_def split: if_splits)

definition file_sink_ex :: FileSink where
  "file_sink_ex = \<lparr>mFilePath = ''tmp/a.log'', mAppend = True, mFileHandle = None\<rparr>"

definition world_ex :: world where
  "world_ex = \<lparr>files = [''tmp/a.log'' \<mapsto> ''old''], std_out = [], std_err = [], mkdirs = []\<rparr>"

definition logger_ex :: Logger where
  "logger_ex = \<lparr>mName = ''Unit'', mLevel = Info, mSinks = [0, 1]\<rparr>"

theorem Logger_file_history_witness:
  "files (snd (log_all (\<lambda>_. True) logger_ex [(''t1'', Debug, ''a''), (''t2'', Warn, ''b'')] ([Console, File file_sink_ex], world_ex)))
      ''tmp/a.log'' = Some (''old[t2] [WARN] [Unit] b'' @ [CHR 0x0A])"
proof -
  have "sole_writer 1 file_sink_ex (files world_ex (mFilePath file_sink_ex)) [] ([Console, File file_sink_ex], world_ex)"
    by (auto simp: sole_writer_def file_state_def less_Suc_eq_0_disj)
  from Logger_file_history[OF this, of "\<lambda>_. True" logger_ex "[(''t1'', Debug, ''a''), (''t2'', Warn, ''b'')]"]
  show ?thesis
    by (simp add: logger_ex_def file_sink_ex_def world_ex_def passes_def call_line_def log_line_def bracketed_def)
qed

text \<open>
  The console: a call below the logger's level, or any call at the level Off of the logger,
  changes nothing; any other call prints one line per console sink of the logger, to the error
  stream if its level is Error or higher and to the output stream otherwise. In particular a message
  logged with the level Off itself passes every filter but Off and is printed as an error.
\<close>

theorem Logger_console_lines:
  assumes "\<forall>j\<in>set (mSinks l). j < length sinks"
  shows "(\<not> passes l (ts, level, msg) \<longrightarrow> Logger_Log openable ts l level msg (sinks, w) = (sinks, w))
    \<and> (passes l (ts, level, msg) \<longrightarrow>
        (let w' = snd (Logger_Log openable ts l level msg (sinks, w));
             out = replicate (console_count sinks (mSinks l)) (call_line l (ts, level, msg))
         in std_out w' = std_out w @ (if level \<ge> Error then [] else out)
            \<and> std_err w' = std_err w @ (if level \<ge> Error then out else [])))
    \<and> (mLevel l \<noteq> Off \<longrightarrow> passes l (ts, Off, msg))"
proof -
  obtain sinks' w' where f: "fold (sink_write openable level ts (mName l) msg) (mSinks l) (sinks, w) = (sinks', w')"
    by fastforce
  have off: "level_value (mLevel l) \<le> 6" by (cases "mLevel l") simp_all
  show ?thesis
    using fold_sink_write_console[OF f assms] f off
    by (simp add: Logger_Log_passes Logger_Emit_def call_line_def passes_def)
qed

theorem Logger_console_lines_witness:
  "std_err (snd (Logger_Log (\<lambda>_. True) ''t'' logger_ex Off ''m'' ([Console, File file_sink_ex], world_ex)))
    = [''[t] [OFF] [Unit] m'']"
  using Logger_console_lines[of logger_ex "[Console, File file_sink_ex]" "''t''" Off "''m''" "\<lambda>_. True" world_ex]
  by (simp add: logger_ex_def world_ex_def passes_def call_line_def log_line_def bracketed_def console_count_def level_order Let_def)

end
