(* ===== verification/Game_Input.thy ===== *)
theory Game_Input
  imports Cxx_Prelude
begin

text \<open>
  The keyboard state of the game, \<^verbatim>\<open>src/src/exe-game/Base/Input.hpp\<close> and \<^verbatim>\<open>Input.cpp\<close>: one state per
  key code, changed by key messages and advanced once per frame.
\<close>

section \<open>Operations\<close>

datatype eKeyState = NONE | DOWN | PRESS | UP

text \<open>The array has an entry for each value of an unsigned char.\<close>

record Input =
  mKeyStates :: "Byte \<Rightarrow> eKeyState"

definition Input_ctor :: Input where
  "Input_ctor = \<lparr>mKeyStates = (\<lambda>_. NONE)\<rparr>"

definition Input_KeyDown :: "Input \<Rightarrow> Byte \<Rightarrow> Input" where
  "Input_KeyDown inp keyCode =
     inp\<lparr>mKeyStates := (mKeyStates inp)(keyCode :=
       (case mKeyStates inp keyCode of DOWN \<Rightarrow> PRESS | PRESS \<Rightarrow> PRESS | _ \<Rightarrow> DOWN))\<rparr>"

definition Input_KeyUp :: "Input \<Rightarrow> Byte \<Rightarrow> Input" where
  "Input_KeyUp inp keyCode = inp\<lparr>mKeyStates := (mKeyStates inp)(keyCode := UP)\<rparr>"

definition Input_GetKeyState :: "Input \<Rightarrow> Byte \<Rightarrow> eKeyState" where
  "Input_GetKeyState inp keyCode = mKeyStates inp keyCode"

definition post_update_key :: "eKeyState \<Rightarrow> eKeyState" where
  "post_update_key k = (if k = UP then NONE else if k = DOWN then PRESS else k)"

definition Input_PostUpdate :: "Input \<Rightarrow> Input" where
  "Input_PostUpdate inp = inp\<lparr>mKeyStates := (\<lambda>i. post_update_key (mKeyStates inp i))\<rparr>"

section \<open>Frames\<close>

text \<open>
  The key messages of a frame in order; \<open>frame_keys\<close> is the state the frame's update sees, and
  \<open>run_frames\<close> the state after whole frames.
\<close>

datatype key_event = KeyDownEvent Byte | KeyUpEvent Byte

fun key_of :: "key_event \<Rightarrow> Byte" where
  "key_of (KeyDownEvent k) = k"
| "key_of (KeyUpEvent k) = k"

fun is_down :: "key_event \<Rightarrow> bool" where
  "is_down (KeyDownEvent _) = True"
| "is_down (KeyUpEvent _) = False"

fun apply_key :: "key_event \<Rightarrow> Input \<Rightarrow> Input" where
  "apply_key (KeyDownEvent k) inp = Input_KeyDown inp k"
| "apply_key (KeyUpEvent k) inp = Input_KeyUp inp k"

definition frame_keys :: "key_event list \<Rightarrow> Input \<Rightarrow> Input" where
  "frame_keys es inp = fold apply_key es inp"

definition run_frames :: "key_event list list \<Rightarrow> Input \<Rightarrow> Input" where
  "run_frames fs inp = fold (\<lambda>es inp. Input_PostUpdate (frame_keys es inp)) fs inp"

section \<open>Specification\<close>

text \<open>A key is held after a history if the last message about it was a key-down.\<close>

definition held :: "bool \<Rightarrow> Byte \<Rightarrow> key_event list \<Rightarrow> bool" where
  "held before k es = (case filter (\<lambda>e. key_of e = k) (rev es) of [] \<Rightarrow> before | e # _ \<Rightarrow> is_down e)"

text \<open>
  What the update of a frame should see of a key, from whether it was held before and its messages
  in the frame: nothing new keeps it; a last key-up is UP; a last key-down is DOWN exactly when the
  key was up just before that message.
\<close>

definition seen :: "bool \<Rightarrow> Byte \<Rightarrow> key_event list \<Rightarrow> eKeyState" where
  "seen before k es =
     (case filter (\<lambda>e. key_of e = k) (rev es) of
        [] \<Rightarrow> if before then PRESS else NONE
      | e # earlier \<Rightarrow>
          if \<not> is_down e then UP
          else if (case earlier of [] \<Rightarrow> before | e' # _ \<Rightarrow> is_down e') then PRESS else DOWN)"

lemma held_snoc: "held before k (es @ [e]) = (if key_of e = k then is_down e else held before k es)"
  by (simp add: held_def)

lemma held_append: "held (held before k es) k es' = held before k (es @ es')"
  by (simp add: held_def split: list.splits)

lemma seen_snoc:
  "seen before k (es @ [e]) =
    (if key_of e \<noteq> k then seen before k es
     else if \<not> is_down e then UP
     else if held before k es then PRESS else DOWN)"
  by (auto simp: seen_def held_def split: list.splits)

lemma seen_held: "held before k es \<longleftrightarrow> seen before k es \<in> {DOWN, PRESS}"
  by (auto simp: seen_def held_def split: list.splits if_splits)

lemma frame_keys_seen:
  assumes "mKeyStates inp k = (if before then PRESS else NONE)"
  shows "mKeyStates (frame_keys es inp) k = seen before k es"
proof (induction es rule: rev_induct)
  case Nil
  with assms show ?case by (simp add: frame_keys_def seen_def)
next
  case (snoc e es)
  then show ?case
    using seen_held[of before k es]
    by (cases e; cases "seen before k es")
      (auto simp: frame_keys_def seen_snoc Input_KeyDown_def Input_KeyUp_def)
qed

lemma post_update_seen: "post_update_key (seen before k es) = (if held before k es then PRESS else NONE)"
  by (auto simp: seen_held post_update_key_def) (metis eKeyState.exhaust)

section \<open>Properties\<close>

text \<open>
  The key states are an edge detector. After any number of frames a key is pressed exactly when
  the last message about it was a key-down and up otherwise; and in the next frame the update sees
  DOWN exactly in the frame in which the key went down, UP exactly in the frame in which the last
  message released it, PRESS while it stays down and NONE while it stays up.
\<close>

theorem Input_edge_detector:
  shows "Input_GetKeyState (run_frames fs Input_ctor) k = (if held False k (concat fs) then PRESS else NONE)
    \<and> Input_GetKeyState (frame_keys es (run_frames fs Input_ctor)) k = seen (held False k (concat fs)) k es"
proof -
  have "mKeyStates (run_frames fs Input_ctor) k = (if held False k (concat fs) then PRESS else NONE)"
  proof (induction fs rule: rev_induct)
    case Nil
    show ?case by (simp add: run_frames_def Input_ctor_def held_def)
  next
    case (snoc es fs)
    have "mKeyStates (run_frames (fs @ [es]) Input_ctor) k
        = post_update_key (seen (held False k (concat fs)) k es)"
      using frame_keys_seen[OF snoc, of es] by (simp add: run_frames_def Input_PostUpdate_def)
    then show ?case by (simp add: post_update_seen held_append)
  qed
  with frame_keys_seen[OF this, of es] show ?thesis by (simp add: Input_GetKeyState_def)
qed

end
