(* ===== verification/Game_Renderer.thy ===== *)
theory Game_Renderer
  imports Cxx_Prelude
begin

text \<open>
  The drawing layer of the game: \<^verbatim>\<open>class Texture\<close> and \<^verbatim>\<open>class Renderer\<close> of
  \<^verbatim>\<open>src/src/exe-game/Base/Render/GDI/\<close>. Handles are numbers, 0 the null handle; what the graphics
  interface returns is an argument and what is asked of it is a log.
\<close>

section \<open>State\<close>

record SIZE =
  cx :: int
  cy :: int

record Texture =
  mID :: int
  texture_mDC :: int
  mTextureBitmap :: int
  texture_mSize :: SIZE

record Renderer =
  mDC :: int
  mMemDC :: int
  mBitmap :: int
  mWindow :: int
  mTextureIDCache :: "int list"
  mTextures :: "Texture list"

datatype gdi_call =
    SelectObject int int | DeleteObject int | DeleteDC int | ReleaseDC int int
  | FillRect int int int
  | StretchBlt int int int int int int int int
  | BitBlt int int int int

section \<open>Operations\<close>

text \<open>
  \<^verbatim>\<open>Resize\<close>: \<open>bitmap\<close> is the new bitmap, \<open>old\<close> the object that was selected before. \<open>windowSize\<close> is the
  size of the window the renderer belongs to.
\<close>

definition Renderer_Resize :: "SIZE \<Rightarrow> int \<Rightarrow> int \<Rightarrow> Renderer \<Rightarrow> Renderer \<times> gdi_call list" where
  "Renderer_Resize windowSize bitmap old r =
     (r\<lparr>mBitmap := bitmap\<rparr>, [SelectObject (mMemDC r) bitmap, DeleteObject old])"

definition Renderer_ctor ::
  "int \<Rightarrow> SIZE \<Rightarrow> int \<Rightarrow> int \<Rightarrow> int \<Rightarrow> int \<Rightarrow> (Renderer \<times> gdi_call list) cxx" where
  "Renderer_ctor window windowSize dc memDC bitmap old =
     (if window = 0 then Inl AssertionFailed
      else Inr (Renderer_Resize windowSize bitmap old
        \<lparr>mDC = dc, mMemDC = memDC, mBitmap = 0, mWindow = window, mTextureIDCache = [], mTextures = []\<rparr>))"

definition Renderer_dtor :: "Renderer \<Rightarrow> Renderer \<times> gdi_call list" where
  "Renderer_dtor r =
     (r\<lparr>mBitmap := 0, mMemDC := 0, mWindow := 0\<rparr>,
      (if mBitmap r \<noteq> 0 then [DeleteObject (mBitmap r)] else []) @
      (if mMemDC r \<noteq> 0 then [DeleteDC (mMemDC r)] else []) @
      (if mWindow r \<noteq> 0 then [ReleaseDC (mWindow r) (mDC r)] else []))"

text \<open>
  What loading an image comes to: the bitmap (null on failure), a device context, the object that
  was selected in it, and the size of the image.
\<close>

record load_answer =
  load_bitmap :: int
  load_dc :: int
  load_old :: int
  load_size :: SIZE

text \<open>A new texture is appended unless an identifier is free; its members are not initialised.\<close>

definition Renderer_LoadTexture :: "Texture \<Rightarrow> load_answer \<Rightarrow> Renderer \<Rightarrow> (int \<times> Renderer \<times> gdi_call list) cxx" where
  "Renderer_LoadTexture storage a r =
     (if load_bitmap a = 0 then Inr (-1, r, [])
      else
        let es = [SelectObject (load_dc a) (load_bitmap a), DeleteObject (load_old a)];
            (textureID, r1) =
              (case mTextureIDCache r of
                 [] \<Rightarrow> (to_int32 (int (length (mTextures r @ [storage]))) - 1, r\<lparr>mTextures := mTextures r @ [storage]\<rparr>)
               | i # rest \<Rightarrow> (i, r\<lparr>mTextureIDCache := rest\<rparr>));
            texture = \<lparr>mID = textureID, texture_mDC = load_dc a, mTextureBitmap = load_bitmap a, texture_mSize = load_size a\<rparr>
        in if textureID < 0 \<or> int (length (mTextures r1)) \<le> textureID then Inl OutOfBounds
           else Inr (textureID, r1\<lparr>mTextures := (mTextures r1)[nat textureID := texture]\<rparr>, es))"

definition Renderer_GetSize :: "SIZE \<Rightarrow> SIZE" where
  "Renderer_GetSize windowSize = windowSize"

definition Renderer_Clear :: "SIZE \<Rightarrow> Renderer \<Rightarrow> gdi_call list" where
  "Renderer_Clear windowSize r = [FillRect (mMemDC r) (cx windowSize) (cy windowSize)]"

text \<open>Drawing, mirrored by a negative width from the right edge.\<close>

definition Texture_Render :: "Texture \<Rightarrow> int \<Rightarrow> int \<Rightarrow> int \<Rightarrow> bool \<Rightarrow> gdi_call list cxx" where
  "Texture_Render t hMemDC x y xFlip =
     bindr (if xFlip then bindr (add32 x (cx (texture_mSize t))) (\<lambda>d. Inr (d, - cx (texture_mSize t)))
            else Inr (x, cx (texture_mSize t))) (\<lambda>(destX, destWidth).
       Inr [StretchBlt hMemDC destX y destWidth (cy (texture_mSize t)) (texture_mDC t)
              (cx (texture_mSize t)) (cy (texture_mSize t))])"

definition Renderer_RenderTexture :: "Renderer \<Rightarrow> int \<Rightarrow> int \<Rightarrow> int \<Rightarrow> gdi_call list cxx" where
  "Renderer_RenderTexture r textureID x y =
     (if textureID = -1 then Inl AssertionFailed
      else if textureID < 0 \<or> int (length (mTextures r)) \<le> textureID then Inl OutOfBounds
      else let texture = mTextures r ! nat textureID in
        if mID texture \<noteq> textureID then Inl AssertionFailed
        else Texture_Render texture (mMemDC r) x y False)"

definition Renderer_Swap :: "SIZE \<Rightarrow> Renderer \<Rightarrow> gdi_call list" where
  "Renderer_Swap windowSize r =
     [BitBlt (mDC r) (cx (Renderer_GetSize windowSize)) (cy (Renderer_GetSize windowSize)) (mMemDC r)]"

section \<open>Textures of a renderer\<close>

text \<open>Every texture carries its own position, and no identifier is waiting for reuse.\<close>

definition textures_inv :: "Renderer \<Rightarrow> bool" where
  "textures_inv r \<longleftrightarrow> mTextureIDCache r = [] \<and> int (length (mTextures r)) < 2 ^ 31 - 1
     \<and> (\<forall>i < length (mTextures r). mID (mTextures r ! i) = int i)"

fun load_all :: "Texture \<Rightarrow> load_answer list \<Rightarrow> Renderer \<Rightarrow> (int list \<times> Renderer \<times> gdi_call list) cxx" where
  "load_all storage [] r = Inr ([], r, [])"
| "load_all storage (a # as) r =
     bindr (Renderer_LoadTexture storage a r) (\<lambda>(i, r1, es1).
       bindr (load_all storage as r1) (\<lambda>(is, r2, es2). Inr (i # is, r2, es1 @ es2)))"

lemma LoadTexture_appends:
  assumes "textures_inv r" and "load_bitmap a \<noteq> 0"
  defines "n \<equiv> length (mTextures r)"
  defines "t \<equiv> \<lparr>mID = int n, texture_mDC = load_dc a, mTextureBitmap = load_bitmap a, texture_mSize = load_size a\<rparr>"
  shows "Renderer_LoadTexture storage a r
    = Inr (int n, r\<lparr>mTextures := mTextures r @ [t]\<rparr>, [SelectObject (load_dc a) (load_bitmap a), DeleteObject (load_old a)])"
proof -
  have "to_int32 (1 + int n) = 1 + int n"
    using assms(1) by (intro to_int32_id) (simp add: textures_inv_def in_int32_def n_def)
  with assms(1,2) show ?thesis
    by (simp add: Renderer_LoadTexture_def textures_inv_def n_def t_def list_update_append)
qed

text \<open>The identifier \<open>i\<close> is what loading the image \<open>a\<close> should have given.\<close>

definition loaded :: "Renderer \<Rightarrow> load_answer \<Rightarrow> int \<Rightarrow> bool" where
  "loaded r a i \<longleftrightarrow>
     (if load_bitmap a = 0 then i = -1
      else 0 \<le> i \<and> nat i < length (mTextures r)
        \<and> mTextures r ! nat i = \<lparr>mID = i, texture_mDC = load_dc a, mTextureBitmap = load_bitmap a, texture_mSize = load_size a\<rparr>)"

lemma load_all_spec:
  assumes "textures_inv r" and "int (length (mTextures r) + length as) < 2 ^ 31 - 1"
  shows "\<exists>is r' es ts. load_all storage as r = Inr (is, r', es) \<and> textures_inv r'
    \<and> mTextures r' = mTextures r @ ts \<and> mMemDC r' = mMemDC r \<and> list_all2 (loaded r') as is"
  using assms
proof (induction as arbitrary: r)
  case Nil
  then show ?case by simp
next
  case (Cons a as)
  show ?case
  proof (cases "load_bitmap a = 0")
    case True
    then have "Renderer_LoadTexture storage a r = Inr (-1, r, [])" by (simp add: Renderer_LoadTexture_def)
    moreover have "loaded r' a (-1)" for r' using True by (simp add: loaded_def)
    moreover have "int (length (mTextures r) + length as) < 2 ^ 31 - 1" using Cons.prems(2) by simp
    ultimately show ?thesis using Cons.IH[OF Cons.prems(1)] by auto
  next
    case False
    let ?n = "length (mTextures r)"
    let ?t = "\<lparr>mID = int ?n, texture_mDC = load_dc a, mTextureBitmap = load_bitmap a, texture_mSize = load_size a\<rparr>"
    let ?r = "r\<lparr>mTextures := mTextures r @ [?t]\<rparr>"
    have "textures_inv ?r" using Cons.prems by (auto simp: textures_inv_def nth_append less_Suc_eq)
    moreover have "int (length (mTextures ?r) + length as) < 2 ^ 31 - 1" using Cons.prems(2) by simp
    ultimately obtain "is" r' es ts where
      ih: "load_all storage as ?r = Inr (is, r', es)" "textures_inv r'"
        "mTextures r' = mTextures ?r @ ts" "mMemDC r' = mMemDC ?r" "list_all2 (loaded r') as is"
      using Cons.IH[of ?r] by blast
    have "loaded r' a (int ?n)" using ih(3) False by (simp add: loaded_def nth_append)
    with ih LoadTexture_appends[OF Cons.prems(1) False, of storage] show ?thesis by simp
  qed
qed

lemma RenderTexture_loaded:
  assumes "loaded r a i" and "load_bitmap a \<noteq> 0"
  shows "Renderer_RenderTexture r i x y = Inr [StretchBlt (mMemDC r) x y (cx (load_size a))
                (cy (load_size a)) (load_dc a) (cx (load_size a)) (cy (load_size a))]"
  using assms by (auto simp: loaded_def Renderer_RenderTexture_def Texture_Render_def)

section \<open>Properties\<close>

text \<open>
  C40. Textures keep their identity. From a new renderer, after loading any images, each load that
  failed returned -1, and each other load returned an identifier that is valid from then on: drawing
  it passes both assertions and copies the whole of the image it was loaded from, from its own
  device context to the back buffer at the given position.
\<close>

theorem Renderer_textures_valid:
  assumes "window \<noteq> 0" and "int (length as) < 2 ^ 31 - 1"
  shows "\<exists>r0 es0 is r es. Renderer_ctor window sz dc memDC bitmap old = Inr (r0, es0)
    \<and> load_all storage as r0 = Inr (is, r, es) \<and> length is = length as
    \<and> (\<forall>k < length as. if load_bitmap (as ! k) = 0 then is ! k = -1
         else Renderer_RenderTexture r (is ! k) x y = Inr [StretchBlt memDC x y (cx (load_size (as ! k)))
                (cy (load_size (as ! k))) (load_dc (as ! k)) (cx (load_size (as ! k))) (cy (load_size (as ! k)))])"
proof -
  let ?r0 = "\<lparr>mDC = dc, mMemDC = memDC, mBitmap = bitmap, mWindow = window, mTextureIDCache = [], mTextures = []\<rparr>"
  have ctor: "Renderer_ctor window sz dc memDC bitmap old = Inr (?r0, [SelectObject memDC bitmap, DeleteObject old])"
    using assms(1) by (simp add: Renderer_ctor_def Renderer_Resize_def)
  have "textures_inv ?r0" by (simp add: textures_inv_def)
  from load_all_spec[OF this, of as storage] assms(2) obtain "is" r es where
    l: "load_all storage as ?r0 = Inr (is, r, es)" "mMemDC r = memDC" "list_all2 (loaded r) as is" by auto
  have "loaded r (as ! k) (is ! k)" if "k < length as" for k using list_all2_nthD[OF l(3) that] .
  with RenderTexture_loaded[of r] l(2)
  have "if load_bitmap (as ! k) = 0 then is ! k = -1
      else Renderer_RenderTexture r (is ! k) x y = Inr [StretchBlt memDC x y (cx (load_size (as ! k)))
                (cy (load_size (as ! k))) (load_dc (as ! k)) (cx (load_size (as ! k))) (cy (load_size (as ! k)))]"
    if "k < length as" for k
    using that by (auto simp: loaded_def)
  moreover have "length is = length as" using list_all2_lengthD[OF l(3)] by simp
  ultimately show ?thesis using ctor l(1) by blast
qed

theorem Renderer_textures_valid_witness:
  "\<exists>r0 es0 is r es. Renderer_ctor 1 \<lparr>cx = 1280, cy = 720\<rparr> 2 3 4 5 = Inr (r0, es0)
    \<and> load_all \<lparr>mID = 9, texture_mDC = 9, mTextureBitmap = 9, texture_mSize = \<lparr>cx = 0, cy = 0\<rparr>\<rparr>
        [\<lparr>load_bitmap = 6, load_dc = 7, load_old = 8, load_size = \<lparr>cx = 64, cy = 32\<rparr>\<rparr>] r0 = Inr (is, r, es)
    \<and> Renderer_RenderTexture r (is ! 0) 10 10 = Inr [StretchBlt 3 10 10 64 32 7 64 32]"
  using Renderer_textures_valid[of 1 "[\<lparr>load_bitmap = 6, load_dc = 7, load_old = 8, load_size = \<lparr>cx = 64, cy = 32\<rparr>\<rparr>]"
      "\<lparr>cx = 1280, cy = 720\<rparr>" 2 3 4 5
      "\<lparr>mID = 9, texture_mDC = 9, mTextureBitmap = 9, texture_mSize = \<lparr>cx = 0, cy = 0\<rparr>\<rparr>" 10 10]
  by auto

end
