(* ===== verification/Game_Window.thy ===== *)
theory Game_Window
  imports Game_Input Game_Renderer "HOL-Library.AList"
begin

text \<open>
  The window layer and the game's window: \<^verbatim>\<open>src/src/exe-game/Base/Window.cpp\<close> and
  \<^verbatim>\<open>src/src/exe-game/Game/GameWindow.cpp\<close>, with the message dispatch and the main loop. The one
  subclass of \<^verbatim>\<open>Window\<close> is \<^verbatim>\<open>GameWindow\<close>, so a window of the model has the members of both. Windows
  are objects with a number; the map from handles to windows is an association list. What the window
  system answers is an argument.
\<close>

section \<open>State\<close>

record GameWindow =
  mHandle :: int
  mSize :: SIZE
  mInput :: Input
  mRenderer :: "Renderer ptr"

record game =
  windows :: "nat \<Rightarrow> GameWindow"
  sWindowMap :: "(int \<times> nat) list"
  game_mIsRunning :: bool
  testTextureID :: int
  quit_posted :: bool

definition INVALID_HANDLE_VALUE :: int where
  "INVALID_HANDLE_VALUE = -1"

datatype window_msg =
    WM_CREATE nat | WM_DESTROY
  | WM_SYSKEYDOWN int | WM_KEYDOWN int | WM_SYSKEYUP int | WM_KEYUP int | WM_OTHER nat

datatype window_call = MoveWindow int int int int int | ShowWindow int | UpdateWindow int | Draw gdi_call

text \<open>The constructor sets the handle only; the renderer is assigned in \<^verbatim>\<open>OnCreate\<close>.\<close>

definition GameWindow_ctor :: "GameWindow \<Rightarrow> GameWindow" where
  "GameWindow_ctor storage = storage\<lparr>mHandle := INVALID_HANDLE_VALUE, mInput := Input_ctor\<rparr>"

definition GameWindow_dtor :: "GameWindow \<Rightarrow> gdi_call list cxx" where
  "GameWindow_dtor w =
     (case mRenderer w of Garbage \<Rightarrow> Inl Uninitialised | Null \<Rightarrow> Inr [] | Ptr r \<Rightarrow> Inr (snd (Renderer_dtor r)))"

definition set_window :: "nat \<Rightarrow> GameWindow \<Rightarrow> game \<Rightarrow> game" where
  "set_window i w g = g\<lparr>windows := (windows g)(i := w)\<rparr>"

section \<open>Messages\<close>

text \<open>The parameter of a key message is narrowed to an unsigned char.\<close>

definition GameWindow_OnKeyDown :: "GameWindow \<Rightarrow> Byte \<Rightarrow> GameWindow" where
  "GameWindow_OnKeyDown w keyCode = w\<lparr>mInput := Input_KeyDown (mInput w) keyCode\<rparr>"

definition GameWindow_OnKeyUp :: "GameWindow \<Rightarrow> Byte \<Rightarrow> GameWindow" where
  "GameWindow_OnKeyUp w keyCode = w\<lparr>mInput := Input_KeyUp (mInput w) keyCode\<rparr>"

definition Window_MessageHandler :: "GameWindow \<Rightarrow> window_msg \<Rightarrow> GameWindow" where
  "Window_MessageHandler w message =
     (case message of
        WM_SYSKEYDOWN wParam \<Rightarrow> GameWindow_OnKeyDown w (word_of_int wParam)
      | WM_KEYDOWN wParam \<Rightarrow> GameWindow_OnKeyDown w (word_of_int wParam)
      | WM_SYSKEYUP wParam \<Rightarrow> GameWindow_OnKeyDown w (word_of_int wParam)
      | WM_KEYUP wParam \<Rightarrow> GameWindow_OnKeyDown w (word_of_int wParam)
      | _ \<Rightarrow> w)"

text \<open>Insertion into the map keeps an entry that is already there.\<close>

definition Window_WndProc :: "int \<Rightarrow> window_msg \<Rightarrow> game \<Rightarrow> game" where
  "Window_WndProc hWnd message g =
     (case message of
        WM_CREATE window \<Rightarrow>
          (if hWnd \<in> fst ` set (sWindowMap g) then g else g\<lparr>sWindowMap := sWindowMap g @ [(hWnd, window)]\<rparr>)
      | WM_DESTROY \<Rightarrow> g\<lparr>sWindowMap := AList.delete hWnd (sWindowMap g), quit_posted := True\<rparr>
      | _ \<Rightarrow>
          (case map_of (sWindowMap g) hWnd of
             None \<Rightarrow> g
           | Some window \<Rightarrow> set_window window (Window_MessageHandler (windows g window) message) g))"

section \<open>Creation\<close>

record screen =
  adjust :: "int \<times> int \<times> int \<times> int \<Rightarrow> int \<times> int \<times> int \<times> int"
  screen_width :: int
  screen_height :: int

definition sub32 :: "int \<Rightarrow> int \<Rightarrow> int cxx" where
  "sub32 a b = add32 a (- b)"

text \<open>A rectangle is its left, top, right and bottom.\<close>

definition Window_Resize :: "screen \<Rightarrow> SIZE \<Rightarrow> GameWindow \<Rightarrow> (GameWindow \<times> window_call list) cxx" where
  "Window_Resize scr windowSize w =
     (if mHandle w = INVALID_HANDLE_VALUE \<or> cx windowSize < 0 \<or> cy windowSize < 0 then Inl AssertionFailed
      else
        let (left, top, right, bottom) = adjust scr (0, 0, cx windowSize, cy windowSize) in
        bindr (sub32 right left) (\<lambda>clientWidth.
          bindr (sub32 bottom top) (\<lambda>clientHeight.
            bindr (sub32 (screen_width scr) clientWidth) (\<lambda>dx.
              bindr (sub32 (screen_height scr) clientHeight) (\<lambda>dy.
                Inr (w\<lparr>mSize := windowSize\<rparr>,
                     [MoveWindow (mHandle w) (cdiv dx 2) (cdiv dy 2) clientWidth clientHeight]))))))"

record create_answers =
  class_registered :: bool
  window_handle :: int
  window_screen :: screen
  window_dc :: int
  window_memdc :: int
  window_bitmap :: int
  window_old :: int
  window_texture :: load_answer

definition Window_GetSize :: "GameWindow \<Rightarrow> SIZE" where
  "Window_GetSize w = mSize w"

declare Window_GetSize_def [simp]

definition GameWindow_OnCreate :: "create_answers \<Rightarrow> Texture \<Rightarrow> nat \<Rightarrow> game \<Rightarrow> (game \<times> window_call list) cxx" where
  "GameWindow_OnCreate a storage i g =
     (let w = windows g i in
      bindr (Renderer_ctor (int i + 1) (Window_GetSize w) (window_dc a) (window_memdc a) (window_bitmap a) (window_old a)) (\<lambda>(r, es1).
        bindr (Renderer_LoadTexture storage (window_texture a) r) (\<lambda>(textureID, r2, es2).
          Inr ((set_window i (w\<lparr>mRenderer := Ptr r2\<rparr>) g)\<lparr>testTextureID := textureID\<rparr>, map Draw (es1 @ es2)))))"

text \<open>
  Creating a window sends it \<^verbatim>\<open>WM_CREATE\<close> with the window as parameter before the call returns. The
  handle 0 is a failure.
\<close>

definition Window_Create ::
  "create_answers \<Rightarrow> Texture \<Rightarrow> SIZE \<Rightarrow> nat \<Rightarrow> game \<Rightarrow> (bool \<times> game \<times> window_call list) cxx" where
  "Window_Create a storage windowSize i g =
     (if \<not> class_registered a then Inr (False, g, [])
      else if window_handle a = 0 then Inr (False, set_window i ((windows g i)\<lparr>mHandle := 0\<rparr>) g, [])
      else
        let g1 = Window_WndProc (window_handle a) (WM_CREATE i) g;
            g2 = set_window i ((windows g1 i)\<lparr>mHandle := window_handle a\<rparr>) g1
        in bindr (Window_Resize (window_screen a) windowSize (windows g2 i)) (\<lambda>(w, es1).
             bindr (GameWindow_OnCreate a storage i (set_window i w g2)) (\<lambda>(g3, es2).
               Inr (True, g3, es1 @ [ShowWindow (mHandle w), UpdateWindow (mHandle w)] @ es2))))"

section \<open>The main loop\<close>

definition GameWindow_Update :: "nat \<Rightarrow> game \<Rightarrow> (game \<times> window_call list) cxx" where
  "GameWindow_Update i g =
     (let w = windows g i in
      bindr (deref (mRenderer w)) (\<lambda>r.
        bindr (Renderer_RenderTexture r (testTextureID g) 10 10) (\<lambda>es.
          Inr (set_window i (w\<lparr>mInput := Input_PostUpdate (mInput w)\<rparr>) g,
               map Draw (Renderer_Clear (Window_GetSize w) r @ es @ Renderer_Swap (Window_GetSize w) r)))))"

fun update_all :: "(int \<times> nat) list \<Rightarrow> game \<Rightarrow> (game \<times> window_call list) cxx" where
  "update_all [] g = Inr (g, [])"
| "update_all ((h, i) # rest) g =
     bindr (GameWindow_Update i g) (\<lambda>(g1, es1).
       bindr (update_all rest g1) (\<lambda>(g2, es2). Inr (g2, es1 @ es2)))"

definition Window_UpdateWindows :: "game \<Rightarrow> (game \<times> window_call list) cxx" where
  "Window_UpdateWindows g = update_all (sWindowMap g) g"

definition Window_Stop :: "game \<Rightarrow> game" where
  "Window_Stop g = g\<lparr>game_mIsRunning := False\<rparr>"

text \<open>
  The inner loop of \<^verbatim>\<open>Run\<close>: the messages of one frame in order; when the queue is empty and a quit was
  posted, \<^verbatim>\<open>WM_QUIT\<close> is taken, once.
\<close>

definition take_messages :: "(int \<times> window_msg) list \<Rightarrow> game \<Rightarrow> game" where
  "take_messages ms g =
     (let g1 = fold (\<lambda>(h, m). Window_WndProc h m) ms g in
      if quit_posted g1
      then (let g2 = g1\<lparr>quit_posted := False\<rparr> in if sWindowMap g2 = [] then Window_Stop g2 else g2)
      else g1)"

text \<open>\<^verbatim>\<open>Run\<close> over the messages of successive frames, as far as they go.\<close>

fun Window_Run :: "(int \<times> window_msg) list list \<Rightarrow> game \<Rightarrow> (game \<times> window_call list) cxx" where
  "Window_Run [] g = Inr (g, [])"
| "Window_Run (ms # rest) g =
     (if \<not> game_mIsRunning g then Inr (g, [])
      else bindr (Window_UpdateWindows (take_messages ms g)) (\<lambda>(g1, es1).
             bindr (Window_Run rest g1) (\<lambda>(g2, es2). Inr (g2, es1 @ es2))))"

section \<open>Lemmas\<close>

lemma set_window_simps [simp]:
  "windows (set_window i w g) = (windows g)(i := w)" "sWindowMap (set_window i w g) = sWindowMap g"
  "game_mIsRunning (set_window i w g) = game_mIsRunning g" "quit_posted (set_window i w g) = quit_posted g"
  "testTextureID (set_window i w g) = testTextureID g"
  by (simp_all add: set_window_def)

text \<open>How the key states of all windows can change: no key gets to UP, and a pressed key stays pressed.\<close>

definition key_state :: "game \<Rightarrow> nat \<Rightarrow> Byte \<Rightarrow> eKeyState" where
  "key_state g i k = mKeyStates (mInput (windows g i)) k"

definition keys_stuck :: "game \<Rightarrow> game \<Rightarrow> bool" where
  "keys_stuck g g' \<longleftrightarrow> (\<forall>i k. (key_state g i k \<noteq> UP \<longrightarrow> key_state g' i k \<noteq> UP)
     \<and> (key_state g i k \<in> {DOWN, PRESS} \<longrightarrow> key_state g' i k \<in> {DOWN, PRESS}))"

lemma keys_stuck_refl: "keys_stuck g g"
  by (simp add: keys_stuck_def)

lemma keys_stuck_trans: "keys_stuck g g' \<Longrightarrow> keys_stuck g' g'' \<Longrightarrow> keys_stuck g g''"
  unfolding keys_stuck_def by blast

lemma keys_stuck_same: "windows g' = windows g \<Longrightarrow> keys_stuck g g'"
  by (simp add: keys_stuck_def key_state_def)

lemma MessageHandler_keys:
  "mKeyStates (mInput (Window_MessageHandler w m)) k
    \<in> {mKeyStates (mInput w) k, case mKeyStates (mInput w) k of DOWN \<Rightarrow> PRESS | PRESS \<Rightarrow> PRESS | _ \<Rightarrow> DOWN}"
  by (cases m) (auto simp: Window_MessageHandler_def GameWindow_OnKeyDown_def Input_KeyDown_def)

lemma key_up_is_key_down: "Window_WndProc h (WM_KEYUP v) g = Window_WndProc h (WM_KEYDOWN v) g"
proof -
  have "Window_MessageHandler w (WM_KEYUP v) = Window_MessageHandler w (WM_KEYDOWN v)" for w
    by (simp add: Window_MessageHandler_def)
  then show ?thesis by (simp add: Window_WndProc_def split: option.split)
qed

lemma WndProc_keys_stuck: "keys_stuck g (Window_WndProc h m g)"
proof -
  have handled: "keys_stuck g (set_window i (Window_MessageHandler (windows g i) m) g)" for i
  proof -
    have "(key_state g j k \<noteq> UP \<longrightarrow> key_state (set_window i (Window_MessageHandler (windows g i) m) g) j k \<noteq> UP)
      \<and> (key_state g j k \<in> {DOWN, PRESS} \<longrightarrow> key_state (set_window i (Window_MessageHandler (windows g i) m) g) j k \<in> {DOWN, PRESS})" for j k
      using MessageHandler_keys[of "windows g i" m k]
      by (cases "j = i"; cases "key_state g i k") (auto simp: key_state_def)
    then show ?thesis unfolding keys_stuck_def by blast
  qed
  then show ?thesis
    by (cases m) (auto simp: Window_WndProc_def keys_stuck_same keys_stuck_refl split: option.splits)
qed

lemma take_messages_keys_stuck: "keys_stuck g (take_messages ms g)"
proof -
  have "keys_stuck g (fold (\<lambda>(h, m). Window_WndProc h m) ms g)"
  proof (induction ms arbitrary: g)
    case (Cons a ms)
    then show ?case using keys_stuck_trans[OF WndProc_keys_stuck[of g "fst a" "snd a"]] by (simp add: split_def)
  qed (simp add: keys_stuck_refl)
  moreover have "windows (take_messages ms g) = windows (fold (\<lambda>(h, m). Window_WndProc h m) ms g)"
    by (simp add: take_messages_def Let_def Window_Stop_def)
  ultimately show ?thesis using keys_stuck_trans keys_stuck_same by blast
qed

lemma Update_keys_stuck:
  assumes "GameWindow_Update i g = Inr (g', es)"
  shows "keys_stuck g g' \<and> sWindowMap g' = sWindowMap g \<and> game_mIsRunning g' = game_mIsRunning g \<and> quit_posted g' = quit_posted g"
proof -
  have "g' = set_window i ((windows g i)\<lparr>mInput := Input_PostUpdate (mInput (windows g i))\<rparr>) g"
    using assms by (auto simp: GameWindow_Update_def bindr_Inr_iff Let_def)
  then show ?thesis
    by (auto simp: keys_stuck_def key_state_def Input_PostUpdate_def post_update_key_def)
qed

lemma update_all_keys_stuck:
  "update_all ws g = Inr (g', es) \<Longrightarrow>
    keys_stuck g g' \<and> sWindowMap g' = sWindowMap g \<and> game_mIsRunning g' = game_mIsRunning g \<and> quit_posted g' = quit_posted g"
proof (induction ws g arbitrary: g' es rule: update_all.induct)
  case (1 g)
  then show ?case by (simp add: keys_stuck_refl)
next
  case (2 h i rest g)
  then show ?case
    using keys_stuck_trans by (auto simp: bindr_Inr_iff dest!: Update_keys_stuck)
qed

lemma Run_keys_stuck: "Window_Run fs g = Inr (g', es) \<Longrightarrow> keys_stuck g g'"
proof (induction fs g arbitrary: g' es rule: Window_Run.induct)
  case (1 g)
  then show ?case by (simp add: keys_stuck_refl)
next
  case (2 ms rest g)
  show ?case
  proof (cases "game_mIsRunning g")
    case False
    with "2.prems" show ?thesis by (simp add: keys_stuck_refl)
  next
    case True
    then obtain g1 es1 es2 where s: "Window_UpdateWindows (take_messages ms g) = Inr (g1, es1)" "Window_Run rest g1 = Inr (g', es2)"
      using "2.prems" by (auto simp: bindr_Inr_iff)
    from update_all_keys_stuck[OF s(1)[unfolded Window_UpdateWindows_def]]
    show ?thesis
      using "2.IH"[OF _ s(2)] True take_messages_keys_stuck[of g ms] keys_stuck_trans by blast
  qed
qed

lemma fold_WndProc_map:
  assumes "\<forall>(h, m) \<in> set ms. \<forall>i. m \<noteq> WM_CREATE i"
  shows "set (sWindowMap (fold (\<lambda>(h, m). Window_WndProc h m) ms g))
      = {(h, i) \<in> set (sWindowMap g). (h, WM_DESTROY) \<notin> set ms}
    \<and> (quit_posted (fold (\<lambda>(h, m). Window_WndProc h m) ms g) \<longleftrightarrow> quit_posted g \<or> WM_DESTROY \<in> snd ` set ms)
    \<and> game_mIsRunning (fold (\<lambda>(h, m). Window_WndProc h m) ms g) = game_mIsRunning g"
  using assms
proof (induction ms arbitrary: g)
  case Nil
  then show ?case by auto
next
  case (Cons a ms)
  obtain h m where a: "a = (h, m)" by (cases a)
  have "set (sWindowMap (Window_WndProc h m g)) = {(k, i) \<in> set (sWindowMap g). (h, m) \<noteq> (k, WM_DESTROY)}
      \<and> (quit_posted (Window_WndProc h m g) \<longleftrightarrow> quit_posted g \<or> m = WM_DESTROY)
      \<and> game_mIsRunning (Window_WndProc h m g) = game_mIsRunning g"
    using Cons.prems a
    by (cases m) (auto simp: Window_WndProc_def AList.delete_eq split: option.splits)
  with Cons.IH[of "Window_WndProc h m g"] Cons.prems a show ?case by auto
qed

section \<open>Properties\<close>

text \<open>
  C38. A released key stays pressed. A key-up message has exactly the effect of a key-down message,
  so whatever messages and frames the loop runs through, no key of any window ever gets to the state
  UP, and a key that is down or pressed stays so until the program ends.
\<close>

theorem game_released_key_stays_pressed:
  assumes "Window_Run fs g = Inr (g', es)"
  shows "Window_WndProc h (WM_KEYUP v) g0 = Window_WndProc h (WM_KEYDOWN v) g0
    \<and> (key_state g i k \<noteq> UP \<longrightarrow> key_state g' i k \<noteq> UP)
    \<and> (key_state g i k \<in> {DOWN, PRESS} \<longrightarrow> key_state g' i k \<in> {DOWN, PRESS})"
  using Run_keys_stuck[OF assms] key_up_is_key_down[of h v g0] by (simp add: keys_stuck_def)

definition window_ex :: GameWindow where
  "window_ex = \<lparr>mHandle = 11, mSize = \<lparr>cx = 1280, cy = 720\<rparr>, mInput = Input_ctor,
     mRenderer = Ptr \<lparr>mDC = 2, mMemDC = 3, mBitmap = 4, mWindow = 1, mTextureIDCache = [],
       mTextures = [\<lparr>mID = 0, texture_mDC = 7, mTextureBitmap = 6, texture_mSize = \<lparr>cx = 64, cy = 32\<rparr>\<rparr>]\<rparr>\<rparr>"

definition game_ex :: game where
  "game_ex = \<lparr>windows = (\<lambda>_. window_ex), sWindowMap = [(11, 0)], game_mIsRunning = True, testTextureID = 0, quit_posted = False\<rparr>"

lemmas game_eval = take_messages_def Window_WndProc_def Window_MessageHandler_def GameWindow_OnKeyDown_def
  Input_KeyDown_def Window_UpdateWindows_def GameWindow_Update_def Renderer_RenderTexture_def Texture_Render_def
  game_ex_def window_ex_def key_state_def set_window_def Input_ctor_def Input_PostUpdate_def post_update_key_def
  Renderer_Clear_def Renderer_Swap_def Let_def

theorem game_released_key_stays_pressed_witness:
  "\<exists>g1 es1 g2 es2. Window_Run [[(11, WM_KEYDOWN 65)]] game_ex = Inr (g1, es1)
    \<and> Window_Run [[(11, WM_KEYUP 65)], []] g1 = Inr (g2, es2) \<and> key_state g2 0 65 \<in> {DOWN, PRESS}"
proof -
  have "\<exists>g1 es1 g2 es2. Window_Run [[(11, WM_KEYDOWN 65)]] game_ex = Inr (g1, es1)
      \<and> Window_Run [[(11, WM_KEYUP 65)], []] g1 = Inr (g2, es2) \<and> key_state g1 0 65 \<in> {DOWN, PRESS}"
    by (simp add: game_eval)
  then obtain g1 es1 g2 es2 where r: "Window_Run [[(11, WM_KEYDOWN 65)]] game_ex = Inr (g1, es1)"
      "Window_Run [[(11, WM_KEYUP 65)], []] g1 = Inr (g2, es2)" "key_state g1 0 65 \<in> {DOWN, PRESS}" by blast
  from game_released_key_stays_pressed[OF r(2), of 0 65] r show ?thesis by blast
qed

text \<open>
  The loop ends when the last window is gone. In a frame in which no window is created and some
  window is destroyed, the program keeps running exactly if a window of the map survives the frame;
  otherwise \<open>Run\<close> returns at once: no window is updated and no later frame is run.
\<close>

theorem Window_Run_stops:
  assumes "game_mIsRunning g" and "\<forall>(h, m) \<in> set ms. \<forall>i. m \<noteq> WM_CREATE i" and "(h0, WM_DESTROY) \<in> set ms"
  shows "(game_mIsRunning (take_messages ms g) \<longleftrightarrow> (\<exists>(h, i) \<in> set (sWindowMap g). (h, WM_DESTROY) \<notin> set ms))
    \<and> (\<not> game_mIsRunning (take_messages ms g) \<longrightarrow> Window_Run (ms # rest) g = Inr (take_messages ms g, []))"
proof -
  let ?g1 = "fold (\<lambda>(h, m). Window_WndProc h m) ms g"
  note f = fold_WndProc_map[OF assms(2), of g]
  have q: "quit_posted ?g1" using f assms(3) by force
  have empty: "sWindowMap ?g1 = [] \<longleftrightarrow> \<not> (\<exists>(h, i) \<in> set (sWindowMap g). (h, WM_DESTROY) \<notin> set ms)"
    using f by (subst set_empty[symmetric]) auto
  have run: "game_mIsRunning (take_messages ms g) \<longleftrightarrow> sWindowMap ?g1 \<noteq> []"
    using q f assms(1) by (simp add: take_messages_def Window_Stop_def Let_def)
  have "sWindowMap (take_messages ms g) = sWindowMap ?g1"
    by (simp add: take_messages_def Window_Stop_def Let_def)
  then have "Window_Run (ms # rest) g = Inr (take_messages ms g, [])" if "\<not> game_mIsRunning (take_messages ms g)"
    using that run assms(1) by (cases rest) (simp_all add: Window_UpdateWindows_def)
  with run empty show ?thesis by blast
qed

theorem Window_Run_stops_witness:
  "Window_Run [[(11, WM_KEYDOWN 65), (11, WM_DESTROY)], [(11, WM_KEYDOWN 66)]] game_ex
    = Inr (take_messages [(11, WM_KEYDOWN 65), (11, WM_DESTROY)] game_ex, [])"
  using Window_Run_stops[of game_ex "[(11, WM_KEYDOWN 65), (11, WM_DESTROY)]" 11 "[[(11, WM_KEYDOWN 66)]]"]
  by (simp add: game_ex_def)

text \<open>
  C39. Resizing centres the window: when it succeeds, the window has the size asked for, the frame the
  system computed for it is placed with equal margins up to one pixel on both axes, and a frame that
  fits the screen lies inside it.
\<close>

theorem Window_Resize_centres:
  assumes "Window_Resize scr sz w = Inr (w', es)" and "adjust scr (0, 0, cx sz, cy sz) = (l, t, r, b)"
  shows "w' = w\<lparr>mSize := sz\<rparr> \<and> (\<exists>x y. es = [MoveWindow (mHandle w) x y (r - l) (b - t)]
    \<and> \<bar>screen_width scr - (r - l) - 2 * x\<bar> \<le> 1 \<and> \<bar>screen_height scr - (b - t) - 2 * y\<bar> \<le> 1
    \<and> (r - l \<le> screen_width scr \<longrightarrow> 0 \<le> x \<and> x + (r - l) \<le> screen_width scr)
    \<and> (b - t \<le> screen_height scr \<longrightarrow> 0 \<le> y \<and> y + (b - t) \<le> screen_height scr))"
proof -
  let ?dx = "screen_width scr - (r - l)" and ?dy = "screen_height scr - (b - t)"
  have half: "\<bar>d - 2 * cdiv d 2\<bar> \<le> 1 \<and> (0 \<le> d \<longrightarrow> 0 \<le> cdiv d 2 \<and> cdiv d 2 \<le> d)" for d
    by (cases d "0 :: int" rule: linorder_cases) (auto simp: cdiv_def)
  have "w' = w\<lparr>mSize := sz\<rparr>" "es = [MoveWindow (mHandle w) (cdiv ?dx 2) (cdiv ?dy 2) (r - l) (b - t)]"
    using assms
    by (auto simp: Window_Resize_def bindr_Inr_iff sub32_def add32_def algebra_simps split: if_splits)
  with half[of ?dx] half[of ?dy] show ?thesis by auto
qed

definition screen_ex :: screen where
  "screen_ex = \<lparr>adjust = (\<lambda>(l, t, r, b). (l - 8, t - 31, r + 8, b + 8)), screen_width = 1920, screen_height = 1080\<rparr>"

theorem Window_Resize_centres_witness:
  "\<exists>x y. Window_Resize screen_ex \<lparr>cx = 1280, cy = 720\<rparr> window_ex = Inr (window_ex, [MoveWindow 11 x y 1296 759])
    \<and> \<bar>1920 - 1296 - 2 * x\<bar> \<le> 1 \<and> \<bar>1080 - 759 - 2 * y\<bar> \<le> 1"
proof -
  have "\<exists>es. Window_Resize screen_ex \<lparr>cx = 1280, cy = 720\<rparr> window_ex = Inr (window_ex\<lparr>mSize := \<lparr>cx = 1280, cy = 720\<rparr>\<rparr>, es)"
    by (simp add: Window_Resize_def screen_ex_def window_ex_def INVALID_HANDLE_VALUE_def sub32_def add32_def in_int32_def)
  then obtain es where r: "Window_Resize screen_ex \<lparr>cx = 1280, cy = 720\<rparr> window_ex = Inr (window_ex\<lparr>mSize := \<lparr>cx = 1280, cy = 720\<rparr>\<rparr>, es)" by blast
  from Window_Resize_centres[OF r, of "-8" "-31" 1288 728] r show ?thesis
    by (auto simp: screen_ex_def window_ex_def)
qed

end
