(* ===== verification/Game_Program.thy ===== *)
theory Game_Program
  imports Game_Window
begin

text \<open>
  The program of the game, \<^verbatim>\<open>src/src/exe-game/main.cpp\<close>: a window is constructed and created, the main
  loop runs, and the window is destroyed when \<^verbatim>\<open>main\<close> returns.
\<close>

section \<open>The program\<close>

text \<open>The static variables at the start; \<open>storage\<close> is what the stack held where the window is constructed.\<close>

definition game_start :: "GameWindow \<Rightarrow> game" where
  "game_start storage =
     \<lparr>windows = (\<lambda>_. GameWindow_ctor storage), sWindowMap = [], game_mIsRunning = True, testTextureID = 0, quit_posted = False\<rparr>"

text \<open>
  The result of \<^verbatim>\<open>Create\<close> is not looked at. \<open>frames\<close> are the messages of successive frames as far as they
  go: while the loop is still running after them, the program has not returned, and the result is \<open>None\<close>.
\<close>

definition game_main ::
  "create_answers \<Rightarrow> Texture \<Rightarrow> GameWindow \<Rightarrow> (int \<times> window_msg) list list \<Rightarrow> (int option \<times> game \<times> window_call list) cxx" where
  "game_main a texture storage frames =
     bindr (Window_Create a texture \<lparr>cx = 1280, cy = 720\<rparr> 0 (game_start storage)) (\<lambda>(_, g1, es1).
       bindr (Window_Run frames g1) (\<lambda>(g2, es2).
         if game_mIsRunning g2 then Inr (None, g2, es1 @ es2)
         else bindr (GameWindow_dtor (windows g2 0)) (\<lambda>es3. Inr (Some 0, g2, es1 @ es2 @ map Draw es3))))"

section \<open>Lemmas\<close>

text \<open>Without a window the loop does nothing, whatever messages other than those of a new window come.\<close>

lemma fold_WndProc_none:
  assumes "sWindowMap g = []" and "\<forall>(h, m) \<in> set ms. (\<forall>i. m \<noteq> WM_CREATE i) \<and> m \<noteq> WM_DESTROY"
  shows "fold (\<lambda>(h, m). Window_WndProc h m) ms g = g"
  using assms(2)
proof (induction ms)
  case (Cons a ms)
  obtain h m where a: "a = (h, m)" by (cases a)
  have "Window_WndProc h m g = g" using Cons.prems a assms(1) by (cases m) (auto simp: Window_WndProc_def)
  with Cons a show ?case by simp
qed simp

lemma Run_no_window:
  assumes "sWindowMap g = []" and "\<not> quit_posted g"
    and "\<forall>ms \<in> set frames. \<forall>(h, m) \<in> set ms. (\<forall>i. m \<noteq> WM_CREATE i) \<and> m \<noteq> WM_DESTROY"
  shows "Window_Run frames g = Inr (g, [])"
  using assms(3)
proof (induction frames)
  case (Cons ms frames)
  have "take_messages ms g = g" using fold_WndProc_none[OF assms(1), of ms] Cons.prems assms(2) by (simp add: take_messages_def)
  with Cons assms(1) show ?case by (simp add: Window_UpdateWindows_def)
qed simp

text \<open>The loop leaves the renderers of the windows alone.\<close>

definition same_renderers :: "game \<Rightarrow> game \<Rightarrow> bool" where
  "same_renderers g g' \<longleftrightarrow> (\<forall>i. mRenderer (windows g' i) = mRenderer (windows g i))"

lemma MessageHandler_renderer: "mRenderer (Window_MessageHandler w m) = mRenderer w"
  by (simp add: Window_MessageHandler_def GameWindow_OnKeyDown_def split: window_msg.split)

lemma WndProc_renderers: "same_renderers g (Window_WndProc h m g)"
  using MessageHandler_renderer
  by (auto simp: same_renderers_def Window_WndProc_def split: window_msg.split option.split)

lemma take_messages_renderers: "same_renderers g (take_messages ms g)"
proof -
  have "same_renderers g (fold (\<lambda>(h, m). Window_WndProc h m) ms g)"
  proof (induction ms arbitrary: g)
    case (Cons a ms)
    then show ?case using WndProc_renderers[of g "fst a" "snd a"] by (simp add: same_renderers_def split_def)
  qed (simp add: same_renderers_def)
  then show ?thesis by (simp add: same_renderers_def take_messages_def Let_def Window_Stop_def)
qed

lemma update_all_renderers: "update_all ws g = Inr (g', es) \<Longrightarrow> same_renderers g g'"
proof (induction ws g arbitrary: g' es rule: update_all.induct)
  case (2 h i rest g)
  then obtain g1 es1 es2 where s: "GameWindow_Update i g = Inr (g1, es1)" "update_all rest g1 = Inr (g', es2)"
    by (auto simp: bindr_Inr_iff)
  have "same_renderers g g1" using s(1) by (auto simp: GameWindow_Update_def bindr_Inr_iff Let_def same_renderers_def)
  moreover have "same_renderers g1 g'" using "2.IH" s by blast
  ultimately show ?case by (simp add: same_renderers_def)
qed (simp add: same_renderers_def)

lemma Run_renderers: "Window_Run fs g = Inr (g', es) \<Longrightarrow> same_renderers g g'"
proof (induction fs g arbitrary: g' es rule: Window_Run.induct)
  case (2 ms rest g)
  show ?case
  proof (cases "game_mIsRunning g")
    case True
    then obtain g1 es1 es2 where s: "Window_UpdateWindows (take_messages ms g) = Inr (g1, es1)" "Window_Run rest g1 = Inr (g', es2)"
      using "2.prems" by (auto simp: bindr_Inr_iff)
    have "same_renderers g1 g'" using "2.IH"[OF _ s(2)] True by simp
    with update_all_renderers[OF s(1)[unfolded Window_UpdateWindows_def]] take_messages_renderers[of g ms]
    show ?thesis by (simp add: same_renderers_def)
  qed (use "2.prems" in \<open>simp add: same_renderers_def\<close>)
qed (simp add: same_renderers_def)

lemma Create_renderer:
  assumes "Window_Create a texture sz i g = Inr (True, g', es)"
  shows "\<exists>r. mRenderer (windows g' i) = Ptr r"
  using assms by (auto simp: Window_Create_def GameWindow_OnCreate_def bindr_Inr_iff Let_def split: if_splits)

section \<open>Properties\<close>

text \<open>
  A game whose window cannot be created never ends. If the class cannot be registered or the window
  cannot be created, \<^verbatim>\<open>main\<close> still enters the loop: it shows nothing, and as no window is left whose
  destruction would stop it, it is running after any number of frames.
\<close>

theorem game_main_failed_create_hangs:
  assumes "\<not> class_registered a \<or> window_handle a = 0"
    and "\<forall>ms \<in> set frames. \<forall>(h, m) \<in> set ms. (\<forall>i. m \<noteq> WM_CREATE i) \<and> m \<noteq> WM_DESTROY"
  shows "\<exists>g. game_main a texture storage frames = Inr (None, g, [])"
proof -
  have "\<exists>g1. Window_Create a texture \<lparr>cx = 1280, cy = 720\<rparr> 0 (game_start storage) = Inr (False, g1, [])
      \<and> sWindowMap g1 = [] \<and> \<not> quit_posted g1 \<and> game_mIsRunning g1"
    using assms(1) by (cases "class_registered a") (simp_all add: Window_Create_def game_start_def)
  then obtain g1 where g1: "Window_Create a texture \<lparr>cx = 1280, cy = 720\<rparr> 0 (game_start storage) = Inr (False, g1, [])"
      "sWindowMap g1 = []" "\<not> quit_posted g1" "game_mIsRunning g1" by blast
  from Run_no_window[OF g1(2,3) assms(2)] g1 show ?thesis by (simp add: game_main_def)
qed

text \<open>
  A game whose window was created ends cleanly. If the loop returns, \<^verbatim>\<open>main\<close> returns 0 within defined
  behaviour: the destructor of the window deletes the renderer that \<^verbatim>\<open>OnCreate\<close> made, with the release of
  its resources as the last calls of the program.
\<close>

theorem game_main_ends_clean:
  assumes "Window_Create a texture \<lparr>cx = 1280, cy = 720\<rparr> 0 (game_start storage) = Inr (True, g1, es1)"
    and "Window_Run frames g1 = Inr (g2, es2)" and "\<not> game_mIsRunning g2"
  shows "\<exists>r. mRenderer (windows g1 0) = Ptr r
    \<and> game_main a texture storage frames = Inr (Some 0, g2, es1 @ es2 @ map Draw (snd (Renderer_dtor r)))"
proof -
  obtain r where r: "mRenderer (windows g1 0) = Ptr r" using Create_renderer[OF assms(1)] by blast
  then have "mRenderer (windows g2 0) = Ptr r" using Run_renderers[OF assms(2)] by (simp add: same_renderers_def)
  with assms r show ?thesis by (simp add: game_main_def GameWindow_dtor_def)
qed

definition create_ex :: create_answers where
  "create_ex = \<lparr>class_registered = True, window_handle = 11, window_screen = screen_ex, window_dc = 2, window_memdc = 3,
     window_bitmap = 4, window_old = 5,
     window_texture = \<lparr>load_bitmap = 6, load_dc = 7, load_old = 8, load_size = \<lparr>cx = 64, cy = 32\<rparr>\<rparr>\<rparr>"

definition texture_ex :: Texture where
  "texture_ex = \<lparr>mID = 0, texture_mDC = 0, mTextureBitmap = 0, texture_mSize = \<lparr>cx = 0, cy = 0\<rparr>\<rparr>"

theorem game_main_failed_create_hangs_witness:
  "\<exists>g. game_main (create_ex\<lparr>window_handle := 0\<rparr>) texture_ex window_ex [[], [(0, WM_KEYDOWN 65)], []] = Inr (None, g, [])"
  by (rule game_main_failed_create_hangs) (simp_all add: create_ex_def)

theorem game_main_ends_clean_witness:
  "\<exists>g es. game_main create_ex texture_ex window_ex [[(11, WM_DESTROY)]]
      = Inr (Some 0, g, es @ [Draw (DeleteObject 4), Draw (DeleteDC 3), Draw (ReleaseDC 1 2)])"
proof -
  have "\<exists>g1 es1 g2 es2. Window_Create create_ex texture_ex \<lparr>cx = 1280, cy = 720\<rparr> 0 (game_start window_ex) = Inr (True, g1, es1)
    \<and> Window_Run [[(11, WM_DESTROY)]] g1 = Inr (g2, es2) \<and> \<not> game_mIsRunning g2
    \<and> (\<forall>r. mRenderer (windows g1 0) = Ptr r \<longrightarrow> snd (Renderer_dtor r) = [DeleteObject 4, DeleteDC 3, ReleaseDC 1 2])"
    by (simp add: Window_Create_def create_ex_def game_start_def Window_WndProc_def Window_Resize_def screen_ex_def GameWindow_ctor_def
        INVALID_HANDLE_VALUE_def sub32_def add32_def in_int32_def GameWindow_OnCreate_def Renderer_ctor_def Renderer_Resize_def
        Renderer_LoadTexture_def texture_ex_def take_messages_def Window_Stop_def Window_UpdateWindows_def Renderer_dtor_def to_int32_id Let_def)
  then obtain g1 es1 g2 es2 where
    r: "Window_Create create_ex texture_ex \<lparr>cx = 1280, cy = 720\<rparr> 0 (game_start window_ex) = Inr (True, g1, es1)"
      "Window_Run [[(11, WM_DESTROY)]] g1 = Inr (g2, es2)" "\<not> game_mIsRunning g2"
      "\<forall>r. mRenderer (windows g1 0) = Ptr r \<longrightarrow> snd (Renderer_dtor r) = [DeleteObject 4, DeleteDC 3, ReleaseDC 1 2]" by blast
  from game_main_ends_clean[OF r(1-3)] r(4)
  have "game_main create_ex texture_ex window_ex [[(11, WM_DESTROY)]]
      = Inr (Some 0, g2, es1 @ es2 @ map Draw [DeleteObject 4, DeleteDC 3, ReleaseDC 1 2])" by auto
  then show ?thesis by (intro exI[of _ g2] exI[of _ "es1 @ es2"]) simp
qed

end
