(* ===== verification/Spec2Isabelle.thy ===== *)
theory Spec2Isabelle
  imports Echo_Stream Disconnect_Race Send_Race Connect_Order Worker_Start Job_Typing Server_Shutdown
    Echo_Program Ping_Pong Stress_Program Lock Time_Stamp Logger Game_Program
begin

text \<open>
  \<^bold>\<open>MyServerProject: a verification library.\<close>

  \<^bold>\<open>The program.\<close> The repository holds a C++ server library (\<^verbatim>\<open>src/src/lib-core\<close>) for Linux, a Windows
  client that puts it under load (\<^verbatim>\<open>src/src/exe-StressTest\<close>) and a small Windows game
  (\<^verbatim>\<open>src/src/exe-game\<close>). A \<^verbatim>\<open>Server\<close> owns a listening socket, two epoll descriptors, a \<^verbatim>\<open>SessionGroup\<close>
  with a fixed number of session slots and a \<^verbatim>\<open>WorkerThreadPool\<close>. Its workers take jobs from one queue.
  The poll job waits in \<^verbatim>\<open>epoll_wait\<close>, queues the jobs whose addresses epoll reports, and then itself;
  the accept job takes connections and makes sessions; the receive job of a session fills its ring
  buffer and hands the bytes to the application's \<^verbatim>\<open>OnRecv\<close>; \<^verbatim>\<open>Server::Send\<close> writes. Every
  registration is one-shot and is armed again when the job has run.

  \<^bold>\<open>Theories, in the order of their imports.\<close>

    \<^item> \<open>Cxx_Prelude\<close>: the undefined behaviours of C++, the result type \<open>'a cxx\<close> of operations that may
      run into one, \<open>bindr\<close>, pointers (null, valid, unassigned), Int32 arithmetic, arrays with \<^verbatim>\<open>memcpy\<close>,
      and the constants of \<^verbatim>\<open>Types.hpp\<close>.
    \<^item> \<open>Byte_Fifo\<close>: the contract of a bounded byte queue as a locale; its providers are the two ring
      buffers, and its lemma on histories is what makes both first-in first-out.
    \<^item> \<open>Recv_Buffer\<close> (\<^verbatim>\<open>Network/RecvBuffer.hpp\<close>): every member function with its copies bounds-checked; the index
      invariant; the contents as a list.
    \<^item> \<open>Net_Types\<close>: job references, epoll requests, the log of effects, the descriptors of a server.
    \<^item> \<open>Session\<close> (\<^verbatim>\<open>Network/Session.cpp\<close>), \<open>Recv_Job\<close> and \<open>Server_Jobs\<close> (\<^verbatim>\<open>ServerJob.cpp\<close>, \<^verbatim>\<open>Server.cpp\<close>), \<open>Session_Group\<close>
      (\<^verbatim>\<open>Network/SessionGroup.cpp\<close>), \<open>Server_Lifecycle\<close> (construction to destruction in \<^verbatim>\<open>Server.cpp\<close>), \<open>Endpoint\<close>
      (\<^verbatim>\<open>Network/Endpoint.cpp\<close>): one definition per function, under the name of the function.
    \<^item> \<open>Disconnect_Race\<close>: the receiving and the sending thread in \<^verbatim>\<open>Session::Disconnect\<close> at the same time,
      one step per access of memory; \<open>Send_Race\<close>: any number of threads in \<^verbatim>\<open>Session::Send\<close>, one step per
      critical section, access of the flag or system call; \<open>Connect_Order\<close>: what may run between the
      registration of a new connection and \<^verbatim>\<open>OnConnected\<close>.
    \<^item> \<open>Worker_Pool\<close> (\<^verbatim>\<open>WorkerThreadPool.cpp\<close>): the member functions, and \<open>pool_exec\<close>, in which adders, workers
      and the stopping thread interleave at the borders of critical sections and system calls; \<open>Worker_Start\<close>:
      which context each new thread gets.
    \<^item> \<open>Epoll\<close>, \<open>Job_Places\<close>, \<open>Reactor\<close>, \<open>Echo_Server\<close>, \<open>Echo_Stream\<close>: the server as one system. The kernel's
      interest list is derived from the logs; \<open>reactor_exec\<close> is one step of a worker or of a thread that
      sends; \<open>Echo_Server\<close> and \<open>Echo_Stream\<close> draw the conclusions for the server of
      \<^verbatim>\<open>src/tests/performance/test_server.cpp\<close> from its \<^verbatim>\<open>Start\<close> on; \<open>Job_Typing\<close> says what the pointers that
      travel through epoll and the queue point to; \<open>Echo_Program\<close> is \<^verbatim>\<open>main\<close> of that server.
    \<^item> \<open>Server_Workers\<close>: the pool in the use the server makes of it, \<^verbatim>\<open>Start\<close> and \<^verbatim>\<open>PollJob::Execute\<close> cut into the
      steps of \<open>pool_exec\<close>; \<open>Server_Shutdown\<close>: \<^verbatim>\<open>WorkerThreadPool::Stop\<close> beside the workers.
    \<^item> \<open>Lock\<close> (\<^verbatim>\<open>core/Lock.hpp\<close>), \<open>Logger\<close> (\<^verbatim>\<open>core/Logger.hpp\<close>, \<^verbatim>\<open>Logger.cpp\<close>) and \<open>Time_Stamp\<close>
      (\<^verbatim>\<open>Logger::NowIso8601\<close>).
    \<^item> \<open>Ring_Buffer\<close>, \<open>Stress_Session\<close>, \<open>Poll_Thread\<close>: \<^verbatim>\<open>RingBuffer.hpp\<close>, \<^verbatim>\<open>Session.cpp\<close> and \<^verbatim>\<open>PollThread.cpp\<close> of the
      stress client; \<open>Stress_Program\<close>: its \<^verbatim>\<open>main\<close> interleaved with its poll thread; \<open>Ping_Pong\<close>: one client
      connected to the echo server by two byte streams.
    \<^item> \<open>Game_Input\<close>, \<open>Game_Renderer\<close>, \<open>Game_Window\<close>: \<^verbatim>\<open>Input.cpp\<close>, \<^verbatim>\<open>Renderer.cpp\<close> with \<^verbatim>\<open>Texture.cpp\<close>, and
      \<^verbatim>\<open>Window.cpp\<close> with \<^verbatim>\<open>GameWindow.cpp\<close>; \<open>Game_Program\<close>: \<^verbatim>\<open>main\<close> of the game.

  \<^bold>\<open>How code becomes definitions.\<close> A class is a record of its members, an operation a function that
  returns the changed record. What it asks of the outside world is a log in order (\<open>effect\<close>,
  \<open>server_effect\<close> and the like), and what the outside world answers is an argument: a record with one
  field per call, or a list with one answer per call of a loop. An empty list of answers stands for
  EAGAIN, so that every loop ends with its script; no other fuel is used on the server side. The
  client's loop over ping packets has \<open>nat RING_BUFFER_SIZE\<close> rounds of fuel, which is enough because
  a round that goes on takes a packet of 12 bytes out of the buffer (\<open>StressSession_DoRecv_terminates\<close>). An access out of
  bounds, an overflow of a signed integer, a null or unassigned pointer and an index out of range give
  \<open>Inl\<close> with the kind of undefined behaviour. Sessions are named by their position in the table, jobs
  by \<open>job_ref\<close>. Memory that a constructor does not initialise is an argument (\<open>storage\<close>). The \<^verbatim>\<open>ASSERT\<close> of the
  library is empty in a release build and is not in the model; the \<^verbatim>\<open>assert\<close> of the two Windows programs
  gives \<open>AssertionFailed\<close>. Session identifiers are 64-bit words; other integers are \<open>int\<close> with the
  conversions of the source written out.

  \<^bold>\<open>Interfaces.\<close> Each locale is interpreted on the model: \<open>byte_fifo\<close> (by both ring buffers),
  \<open>session_table\<close> (by \<^verbatim>\<open>SessionGroup\<close>), \<open>lock_object\<close> (by \<^verbatim>\<open>Mutex\<close> and \<^verbatim>\<open>NullLock\<close>), and the contract between the server and an
  application, which \<^verbatim>\<open>TestServer\<close> meets: \<open>recv_app\<close> and \<open>recv_app_fd\<close> for \<^verbatim>\<open>OnRecv\<close>, \<open>connect_app\<close> for
  \<^verbatim>\<open>OnConnected\<close>, \<open>epoll_app\<close> for what callbacks may do to the registrations, and \<open>reactor_app\<close> for a
  whole application.

  \<^bold>\<open>What the lemmas show.\<close>

    \<^item> System: in every reachable state of the echo server each job is in exactly one of queue, worker
      and armed registration, so that no session is received on by two workers; workers can go on;
      each client's stream reaches the application unmixed and in order; no step leaves defined
      behaviour while the table has room. The key lemmas are those of \<open>Job_Places\<close>, which say how one
      step moves a job, and \<open>reactor_inv\<close>, \<open>slots_ok\<close>, which are kept by every step. Every job pointer is
      of the session whose descriptor it is registered with.
    \<^item> Client and server together: exactly one ping is under way, whole and in order over client, streams
      and server, and any 36 steps complete a round trip.
    \<^item> Buffers: well-formedness is kept, histories of contiguous writes and reads are queues of bytes,
      the client's and the server's buffer are equivalent.
    \<^item> Sessions and jobs: what \<open>Send\<close>, the receive job and the accept job do on each branch; a descriptor
      is closed at most once, also in a race; the table refines a finite map. Threads in \<open>Send\<close> (\<open>send_inv\<close>)
      enter \<open>DoSend\<close> one at a time and keep the order of the packets, but one packet can be left behind;
      \<open>OnDisconnected\<close> can come before \<open>OnConnected\<close>.
    \<^item> Threads: the queue is first-in first-out under every schedule, a worker has at most one wake-up
      outstanding and is reached by \<open>Stop\<close>; a pool that starts gives each worker its own descriptor; guarded blocks exclude each other. In the running server no
      queued job is left to sleeping workers once the poll job has been taken (\<open>poll_place\<close>, \<open>awake_inv\<close>);
      before that, and with three workers or more, the pool's races show. Stopping ends after a bounded
      number of steps, and returns unless a worker waits in \<^verbatim>\<open>epoll_wait\<close>. The two threads of the stress
      test do what one call of \<^verbatim>\<open>Run\<close> does.
    \<^item> Life cycle and errors: sockets do not leak, \<open>Stop\<close> closes each descriptor once and is idempotent.
    \<^item> Client, logger and game: ping packets are answered however the stream is cut, the poll loop
      drops exactly the broken clients, the log file has one line per message that passes, keys are
      edge detectors, textures keep their identifiers, the main loop ends with the last window.
    \<^item> Defects: theorems whose text says that something is lost, undefined or left open show a defect
      of the code on the model; each has a concrete witness.

  \<^bold>\<open>Assumptions on the outside.\<close> \<^verbatim>\<open>recv\<close> stores at most as many bytes as it is asked to (\<open>recv_contract\<close>); \<^verbatim>\<open>epoll_wait\<close>
  reports armed descriptors, each once (\<open>may_report\<close>); \<^verbatim>\<open>accept\<close> returns descriptors that are not open
  (\<open>fresh_fds\<close>); re-arming fails exactly if the descriptor is not registered; a POSIX mutex excludes.
  \<^verbatim>\<open>inet_pton\<close>, \<^verbatim>\<open>inet_ntop\<close>, \<^verbatim>\<open>fmt::format\<close>, the clock, \<^verbatim>\<open>localtime_r\<close>, the file system, GDI and the Win32 window functions are
  arguments of the definitions that use them.

  \<^bold>\<open>Limits of the system model.\<close> In \<open>Reactor\<close> a job runs in one step, so races inside a job are not seen
  there: those of \<^verbatim>\<open>Disconnect\<close>, of \<^verbatim>\<open>Send\<close>, of the accept job and of the worker pool have theories of their own.
  In \<open>Send_Race\<close> in turn a call of \<^verbatim>\<open>Disconnect\<close> is one step. The system model does
  not stop the server and does not delete sessions (no function of the library calls
  \<^verbatim>\<open>DeleteSession\<close>), and an idle worker there looks at the queue by itself; the wake-ups and the end of
  the workers are the subject of \<open>Server_Workers\<close> and \<open>Server_Shutdown\<close>, where in turn a job other than
  the poll job has no effect on the pool. A round of the client's poll loop is one step in
  \<open>Stress_Program\<close>.

  \<^bold>\<open>Not modelled.\<close> \<^verbatim>\<open>Debug.hpp\<close> and \<^verbatim>\<open>Debug.cpp\<close> (macros that are empty in the release build, a stack trace
  printer), \<^verbatim>\<open>Profiler.hpp\<close> (declarations without implementation), \<^verbatim>\<open>Container.hpp\<close> (type aliases),
  \<^verbatim>\<open>pch.hpp\<close>, \<^verbatim>\<open>MemoryPool.hpp\<close> (empty), \<^verbatim>\<open>Job.hpp\<close> and \<^verbatim>\<open>EventHandlerInterface.hpp\<close> (interfaces with empty
  bodies), the printed statistics of the client's poll thread and other lines printed for information, and
  the test programs other than \<^verbatim>\<open>test_server.cpp\<close>. What is left of the headers is declarations, includes
  and defaulted members.
\<close>

end
